(* ===== verification/Smo_Prelude.thy ===== *)
theory Smo_Prelude
  imports Main "HOL-Library.Word"
begin

text \<open>
  The vocabulary every other theory of the development shares: byte strings and
  machine words, the error model of core/errors/error.hpp (every fallible
  operation of the runtime returns a Result), and the generic facts on lists,
  maps and words the component proofs rest on.

  Integers keep the width the code gives them.  int64_t and uint64_t are both
  64-bit words: a static_cast between them is the identity on the bits, and a
  signed comparison is written with \<^const>\<open>sint\<close> or \<^const>\<open>word_sless\<close>.  The
  message text, source location and creation time of an Error are not modelled;
  its ErrorCode is, field by field.
\<close>

unbundle bit_operations_syntax

named_theorems wire_simps \<open>how a reader consumes what a writer appended\<close>
named_theorems fsm_eval \<open>evaluation of transition tables\<close>
named_theorems inv_intros \<open>invariant preservation, one rule per operation\<close>

section \<open>Machine types\<close>

type_synonym byte = "8 word"
type_synonym bytes = "byte list"
type_synonym u16 = "16 word"
type_synonym u32 = "32 word"
type_synonym u64 = "64 word"
type_synonym i64 = "64 word"

section \<open>The error model\<close>

datatype severity = Debug | Info | Warn | SevError | Critical | Alert

datatype retry_class = NoRetry | RetrySafe | RetryBackoff | RetryNever

datatype recovery =
    RecNone | RetryOperation | Reconnect | Reenroll | RestartFSM | RebootNode
  | GovernanceVote | ManualIntervention

datatype error_category =
    CatCrypto | CatIdentity | CatCertificate | CatTransport | CatDiscovery
  | CatSession | CatProtocol | CatRuntime | CatGovernance | CatStorage
  | CatInternal | CatCompiler | CatTrust | CatContract | CatGenesis
  | CatRecovery | CatBootstrap | CatSync | CatFederation | CatSerialization

record error_code =
  ec_category :: error_category
  ec_code :: u16
  ec_severity :: severity
  ec_retry :: retry_class
  ec_recovery :: recovery

text \<open>The constructor keeps the low ten bits of the code.\<close>

definition smo_err ::
  "error_category \<Rightarrow> u16 \<Rightarrow> severity \<Rightarrow> retry_class \<Rightarrow> recovery \<Rightarrow> error_code" where
  "smo_err cat c sev r rec =
     \<lparr>ec_category = cat, ec_code = c AND 0x3FF, ec_severity = sev,
      ec_retry = r, ec_recovery = rec\<rparr>"

primrec severity_code :: "severity \<Rightarrow> nat" where
  "severity_code Debug = 0"
| "severity_code Info = 1"
| "severity_code Warn = 2"
| "severity_code SevError = 3"
| "severity_code Critical = 4"
| "severity_code Alert = 5"

text \<open>An enum class compares by its underlying value: severities are linearly
  ordered.\<close>

instantiation severity :: linorder
begin
definition less_eq_severity :: "severity \<Rightarrow> severity \<Rightarrow> bool" where
  "less_eq_severity a b = (severity_code a \<le> severity_code b)"
definition less_severity :: "severity \<Rightarrow> severity \<Rightarrow> bool" where
  "less_severity a b = (severity_code a < severity_code b)"
instance
proof
  fix a b c :: severity
  show "(a < b) = (a \<le> b \<and> \<not> b \<le> a)"
    by (auto simp: less_eq_severity_def less_severity_def)
  show "a \<le> a" by (simp add: less_eq_severity_def)
  show "a \<le> b \<Longrightarrow> b \<le> c \<Longrightarrow> a \<le> c" by (simp add: less_eq_severity_def)
  show "a \<le> b \<Longrightarrow> b \<le> a \<Longrightarrow> a = b"
    by (cases a; cases b; simp add: less_eq_severity_def)
  show "a \<le> b \<or> b \<le> a" by (auto simp: less_eq_severity_def)
qed
end

definition is_retryable :: "error_code \<Rightarrow> bool" where
  "is_retryable e = (ec_retry e = RetrySafe \<or> ec_retry e = RetryBackoff)"

definition is_fatal :: "error_code \<Rightarrow> bool" where
  "is_fatal e = (Critical \<le> ec_severity e)"

datatype 'a result = Ok (the_ok: 'a) | Err (the_err: error_code)

text \<open>SMO_TRY and SMO_TRY_VAL: an error returns at once, a value is bound.\<close>

definition rbind :: "'a result \<Rightarrow> ('a \<Rightarrow> 'b result) \<Rightarrow> 'b result" where
  "rbind r f = (case r of Ok x \<Rightarrow> f x | Err e \<Rightarrow> Err e)"

primrec is_ok :: "'a result \<Rightarrow> bool" where
  "is_ok (Ok _) = True"
| "is_ok (Err _) = False"

lemma rbind_simps [simp]:
  "rbind (Ok x) f = f x"
  "rbind (Err e) f = Err e"
  by (simp_all add: rbind_def)

lemma rbind_eq_Ok: "rbind r f = Ok y \<longleftrightarrow> (\<exists>x. r = Ok x \<and> f x = Ok y)"
  by (cases r) auto

lemma rbind_cong [fundef_cong]:
  "r = r' \<Longrightarrow> (\<And>x. r' = Ok x \<Longrightarrow> f x = g x) \<Longrightarrow> rbind r f = rbind r' g"
  by (cases r') auto

lemma is_ok_iff: "is_ok r \<longleftrightarrow> (\<exists>x. r = Ok x)"
  by (cases r) auto

lemma is_ok_cases: "is_ok r \<Longrightarrow> (\<And>x. r = Ok x \<Longrightarrow> P) \<Longrightarrow> P"
  by (cases r) auto

section \<open>Lists and maps\<close>

lemma take_append_exact [simp]: "length xs = n \<Longrightarrow> take n (xs @ ys) = xs"
  by simp

lemma drop_append_exact [simp]: "length xs = n \<Longrightarrow> drop n (xs @ ys) = ys"
  by simp

lemma map_of_rev_append_single:
  "map_of (rev (xs @ [(k, v)])) = (map_of (rev xs))(k \<mapsto> v)"
  by (simp add: fun_eq_iff)

text \<open>Assigning in a loop is the lookup in the reversed list: the last entry
  of a key wins.\<close>

lemma foldl_map_upd:
  "foldl (\<lambda>m x. m(f x \<mapsto> g x)) m0 xs = m0 ++ map_of (rev (map (\<lambda>x. (f x, g x)) xs))"
  by (induction xs arbitrary: m0) (auto simp: map_add_def fun_eq_iff split: option.splits)

section \<open>Words\<close>

lemma unat_of_nat_lt: "n < 2 ^ LENGTH('a::len) \<Longrightarrow> unat (of_nat n :: 'a word) = n"
  by (simp add: unat_of_nat take_bit_nat_eq_self)

lemma take_bit_small:
  fixes v :: "'a::len word"
  shows "unat v < 2 ^ n \<Longrightarrow> take_bit n v = v"
  by (simp add: word_unat_eq_iff unsigned_take_bit_eq take_bit_nat_eq_self)

lemma word_eq_bitI:
  fixes v w :: "'a::len word"
  shows "(\<And>n. n < LENGTH('a) \<Longrightarrow> bit v n = bit w n) \<Longrightarrow> v = w"
  by (rule bit_word_eqI) blast

end
