(* ===== verification/Wire.thy ===== *)
theory Wire
  imports Smo_Prelude
begin

text \<open>
  Byte-level encodings shared by the codecs of the runtime: fixed-width integers
  in network and in little-endian order, counted loops of records, and the two
  contracts a codec of the runtime fulfils.  A reader is a function of the bytes
  not yet consumed (the span from the code's offset to its end) and returns the
  value with the bytes that remain; the check "offset + n > data.size()" of the
  code is then "fewer than n bytes remain".
\<close>

section \<open>Fixed-width integers\<close>

text \<open>The shift loops "for (i = n-1; i >= 0; --i) out.push_back(v >> (i * 8))"
  and their little-endian counterpart.\<close>

primrec write_be :: "nat \<Rightarrow> 'a::len word \<Rightarrow> bytes" where
  "write_be 0 v = []"
| "write_be (Suc n) v = ucast (drop_bit (8 * n) v) # write_be n v"

primrec write_le :: "nat \<Rightarrow> 'a::len word \<Rightarrow> bytes" where
  "write_le 0 v = []"
| "write_le (Suc n) v = ucast v # write_le n (drop_bit 8 v)"

text \<open>The reader loop stops early when the data ends: it never fails, it
  returns the bytes it has seen.\<close>

fun read_be_acc :: "nat \<Rightarrow> 'a::len word \<Rightarrow> bytes \<Rightarrow> 'a word \<times> bytes" where
  "read_be_acc 0 v bs = (v, bs)"
| "read_be_acc (Suc n) v [] = (v, [])"
| "read_be_acc (Suc n) v (b # bs) = read_be_acc n (push_bit 8 v OR ucast b) bs"

definition read_be :: "nat \<Rightarrow> bytes \<Rightarrow> 'a::len word \<times> bytes" where
  "read_be n bs = read_be_acc n 0 bs"

primrec read_le :: "nat \<Rightarrow> bytes \<Rightarrow> 'a::len word" where
  "read_le 0 bs = 0"
| "read_le (Suc n) bs =
     (case bs of [] \<Rightarrow> 0 | b # bs' \<Rightarrow> ucast b OR push_bit 8 (read_le n bs'))"

text \<open>A counted loop "for (i = 0; i < n; ++i)" that reads one record per
  iteration and returns at the first error.\<close>

fun read_many :: "(bytes \<Rightarrow> ('a \<times> bytes) result) \<Rightarrow> nat \<Rightarrow> bytes \<Rightarrow> ('a list \<times> bytes) result" where
  "read_many rd 0 bs = Ok ([], bs)"
| "read_many rd (Suc n) bs =
     rbind (rd bs) (\<lambda>(x, bs'). rbind (read_many rd n bs') (\<lambda>(xs, bs''). Ok (x # xs, bs'')))"

section \<open>Facts on the readers and writers\<close>

lemma length_write_be [simp]: "length (write_be n v) = n"
  by (induction n) auto

lemma length_write_le [simp]: "length (write_le n v) = n"
  by (induction n arbitrary: v) auto

lemma push_or_byte:
  fixes acc v :: "'a::len word"
  shows "push_bit (8 * n) (push_bit 8 acc OR ucast (ucast (drop_bit (8 * n) v) :: byte))
           OR take_bit (8 * n) v
         = push_bit (8 * Suc n) acc OR take_bit (8 * Suc n) v"
proof (rule bit_word_eqI)
  fix k assume k: "k < LENGTH('a)"
  consider "k < 8 * n" | "8 * n \<le> k" "k < 8 * n + 8" | "8 * n + 8 \<le> k" by linarith
  then show "bit (push_bit (8 * n) (push_bit 8 acc OR ucast (ucast (drop_bit (8 * n) v) :: byte))
           OR take_bit (8 * n) v) k
         = bit (push_bit (8 * Suc n) acc OR take_bit (8 * Suc n) v) k"
    using k by cases
      (auto simp: bit_simps add.commute possible_bit_word less_diff_conv2)
qed

lemma read_be_acc_write:
  "read_be_acc n acc (write_be n v @ r) = (push_bit (8 * n) acc OR take_bit (8 * n) v, r)"
proof (induction n arbitrary: acc)
  case (Suc n)
  then show ?case
    using push_or_byte [of n acc v] by simp
qed simp

text \<open>Reading back a full-width integer.\<close>

lemma read_be_write:
  fixes v :: "'a::len word"
  assumes "LENGTH('a) \<le> 8 * n"
  shows "read_be n (write_be n v @ r) = (v, r)"
  using assms by (simp add: read_be_def read_be_acc_write take_bit_word_eq_self)

lemma read_be_write_simps [wire_simps]:
  "read_be 8 (write_be 8 (v :: u64) @ r) = (v, r)"
  "read_be 4 (write_be 4 (w :: u32) @ r) = (w, r)"
  "read_be 2 (write_be 2 (x :: u16) @ r) = (x, r)"
  by (simp_all add: read_be_write)

lemma read_be_8_end: "read_be 8 (write_be 8 (v :: u64)) = (v, [])"
  using read_be_write_simps(1) [of v "[]"] by simp

lemma read_be_nil [simp]: "read_be n [] = (0, [])"
  by (cases n) (auto simp: read_be_def)

lemma snd_read_be_acc: "snd (read_be_acc n v bs) = drop n bs"
  by (induction n v bs rule: read_be_acc.induct) auto

lemma snd_read_be [simp]: "snd (read_be n bs) = drop n bs"
  by (simp add: read_be_def snd_read_be_acc)

lemma read_be_rest: "read_be n bs = (v, r) \<Longrightarrow> r = drop n bs"
  by (metis snd_conv snd_read_be)

lemma bit_read_be_acc:
  fixes acc :: "'a::len word"
  shows "n \<le> length bs \<Longrightarrow>
    bit (fst (read_be_acc n acc bs)) (8 * n + k) \<longleftrightarrow> bit acc k \<and> 8 * n + k < LENGTH('a)"
proof (induction n acc bs arbitrary: k rule: read_be_acc.induct)
  case (1 v bs)
  then show ?case using bit_imp_le_length by auto
next
  case (3 n v b bs)
  have "bit (fst (read_be_acc (Suc n) v (b # bs))) (8 * Suc n + k) \<longleftrightarrow>
      bit (push_bit 8 v OR ucast b) (8 + k) \<and> 8 * Suc n + k < LENGTH('a)"
    using "3.IH" [of "8 + k"] "3.prems" by (simp add: algebra_simps)
  also have "\<dots> \<longleftrightarrow> bit v k \<and> 8 * Suc n + k < LENGTH('a)"
    by (auto simp: bit_simps dest: bit_imp_le_length)
  finally show ?case .
qed simp

text \<open>Writing what was read gives the bytes back.\<close>

lemma write_be_read_be_acc:
  fixes acc :: "'a::len word"
  assumes "8 * n \<le> LENGTH('a)" "n \<le> length bs"
  shows "write_be n (fst (read_be_acc n acc bs)) = take n bs"
  using assms
proof (induction n acc bs rule: read_be_acc.induct)
  case (3 n v b bs)
  let ?v = "push_bit 8 v OR ucast b :: 'a word"
  have "ucast (drop_bit (8 * n) (fst (read_be_acc n ?v bs))) = b"
  proof (rule bit_word_eqI)
    fix k assume k: "k < LENGTH(8)"
    then show "bit (ucast (drop_bit (8 * n) (fst (read_be_acc n ?v bs))) :: byte) k = bit b k"
      using 3(2,3) bit_read_be_acc [of n bs ?v k] by (auto simp: bit_simps)
  qed
  with 3 show ?case by simp
qed simp_all

lemma write_be_read_be:
  "8 * n \<le> LENGTH('a::len) \<Longrightarrow> n \<le> length bs \<Longrightarrow> write_be n (fst (read_be n bs) :: 'a word) = take n bs"
  by (simp add: read_be_def write_be_read_be_acc)

text \<open>The other forms of the loops: over the index, and two bytes at a time.\<close>

lemma shift_loop: "map (\<lambda>i. ucast (drop_bit ((n - Suc i) * 8) v)) [0..<n] = write_be n v"
proof (induction n)
  case (Suc n)
  have "[0..<Suc n] = 0 # map Suc [0..<n]" by (simp add: upt_conv_Cons map_Suc_upt del: upt_Suc)
  with Suc show ?case by (simp add: o_def mult.commute del: upt_Suc)
qed simp

lemma shift_loop_8: "map (\<lambda>i. ucast (drop_bit ((7 - i) * 8) v)) [0..<8] = write_be 8 v"
  using shift_loop [of 8 v] by simp

lemma two_bytes: "[ucast (drop_bit 8 v), ucast (v AND 0xFF)] = write_be 2 (v :: u16)"
proof -
  have "(ucast (v AND 0xFF) :: byte) = ucast v"
  proof (rule bit_word_eqI)
    fix k assume "k < LENGTH(8)"
    then have "bit (0xFF :: u16) k" by (auto simp: less_Suc_eq numeral_eq_Suc)
    then show "bit (ucast (v AND 0xFF) :: byte) k = bit (ucast v :: byte) k" by (simp add: bit_simps)
  qed
  then show ?thesis by (simp add: numeral_2_eq_2)
qed

lemma foldl_read_be:
  "off + n \<le> length data \<Longrightarrow>
   foldl (\<lambda>v i. push_bit 8 v OR ucast (data ! (off + i))) acc [0..<n] = fst (read_be_acc n acc (drop off data))"
proof (induction n arbitrary: off acc)
  case (Suc n)
  have upt: "[0..<Suc n] = 0 # map Suc [0..<n]" by (simp add: upt_conv_Cons map_Suc_upt del: upt_Suc)
  have "drop off data = data ! off # drop (Suc off) data"
    using Suc.prems by (simp add: Cons_nth_drop_Suc)
  with Suc.IH [of "Suc off"] Suc.prems show ?case
    by (simp add: upt foldl_map del: upt_Suc)
qed simp

lemma read_le_write_aux:
  fixes v :: "'a::len word"
  shows "read_le n (write_le n v @ r) = take_bit (8 * n) v"
proof (induction n arbitrary: v)
  case (Suc n)
  have "ucast (ucast v :: byte) OR push_bit 8 (take_bit (8 * n) (drop_bit 8 v))
        = take_bit (8 * Suc n) v"
  proof (rule bit_word_eqI)
    fix k assume k: "k < LENGTH('a)"
    consider "k < 8" | "8 \<le> k" by linarith
    then show "bit (ucast (ucast v :: byte) OR push_bit 8 (take_bit (8 * n) (drop_bit 8 v))) k
        = bit (take_bit (8 * Suc n) v) k"
      using k by cases (auto simp: bit_simps less_diff_conv2 possible_bit_word)
  qed
  then show ?case using Suc by simp
qed simp

lemma read_le_write:
  fixes v :: "'a::len word"
  assumes "LENGTH('a) \<le> 8 * n"
  shows "read_le n (write_le n v @ r) = v"
  using assms by (simp add: read_le_write_aux take_bit_word_eq_self)

lemma write_be_inject:
  fixes v w :: "'a::len word"
  assumes "LENGTH('a) \<le> 8 * n" and "write_be n v = write_be n w"
  shows "v = w"
  using read_be_write [OF assms(1), of v "[]"] read_be_write [OF assms(1), of w "[]"] assms(2)
  by simp

lemma write_be_minus_1:
  "8 * n \<le> LENGTH('a::len) \<Longrightarrow> write_be n (- 1 :: 'a word) = replicate n (- 1)"
proof (induction n)
  case (Suc n)
  have "(ucast (drop_bit (8 * n) (- 1 :: 'a word)) :: byte) = - 1"
    by (rule bit_word_eqI) (use Suc.prems in \<open>auto simp: bit_simps\<close>)
  with Suc show ?case by simp
qed simp

lemma read_many_write:
  assumes "\<And>x r. x \<in> set xs \<Longrightarrow> rd (enc x @ r) = Ok (x, r)"
  shows "read_many rd (length xs) (concat (map enc xs) @ r) = Ok (xs, r)"
  using assms by (induction xs) auto

lemma read_many_length: "read_many rd n bs = Ok (xs, r) \<Longrightarrow> length xs = n"
  by (induction rd n bs arbitrary: xs r rule: read_many.induct)
    (auto simp: rbind_eq_Ok split: prod.splits)

section \<open>The contracts of a codec\<close>

text \<open>A complete codec: decoding the encoding of a well-formed value gives it
  back.  The encodings of different values then differ.\<close>

locale codec =
  fixes enc :: "'a \<Rightarrow> bytes"
    and dec :: "bytes \<Rightarrow> 'a result"
    and wf :: "'a \<Rightarrow> bool"
  assumes dec_enc: "wf x \<Longrightarrow> dec (enc x) = Ok x"
begin

lemma enc_inject: "wf x \<Longrightarrow> wf y \<Longrightarrow> enc x = enc y \<longleftrightarrow> x = y"
  using dec_enc by (metis result.inject(1))

lemma dec_unique: "wf x \<Longrightarrow> dec (enc x) = Ok y \<Longrightarrow> y = x"
  using dec_enc by simp

end

text \<open>A streaming codec: the reader consumes exactly the bytes of one value and
  leaves the rest, so a sequence of values can be read back without
  separators.\<close>

locale stream_codec =
  fixes enc :: "'a \<Rightarrow> bytes"
    and rd :: "bytes \<Rightarrow> ('a \<times> bytes) result"
    and wf :: "'a \<Rightarrow> bool"
  assumes rd_enc: "wf x \<Longrightarrow> rd (enc x @ r) = Ok (x, r)"
begin

lemma prefix_free: "wf x \<Longrightarrow> wf y \<Longrightarrow> enc x @ r = enc y @ s \<Longrightarrow> x = y \<and> r = s"
  by (metis rd_enc result.inject(1) prod.inject)

lemma many: "(\<And>x. x \<in> set xs \<Longrightarrow> wf x) \<Longrightarrow>
    read_many rd (length xs) (concat (map enc xs) @ r) = Ok (xs, r)"
  by (rule read_many_write) (simp add: rd_enc)

end

end
