(* ===== verification/Fsm.thy ===== *)
theory Fsm
  imports Wire
begin

text \<open>
  FsmInstance (core/fsm/fsm.hpp, fsm.cpp): the generic finite state machine every
  lifecycle of the runtime is built on.  The nested unordered_map of the
  transition table is a map of maps; the monotonic clock is an argument of the
  operations that read it.  An operation returns the new instance together with
  its Result, so that what an error path leaves behind is visible.
\<close>

section \<open>State and configuration\<close>

type_synonym FsmState = i64
type_synonym FsmEvent = i64

record TransitionRule =
  tr_from :: FsmState
  tr_event :: FsmEvent
  tr_to :: FsmState

record StateTimeout =
  st_state :: FsmState
  st_max_dwell_ns :: u64
  st_fallback :: FsmState

record TransitionRecord =
  rec_from :: FsmState
  rec_event :: FsmEvent
  rec_to :: FsmState
  rec_elapsed_ns :: u64
  rec_state_hash :: bytes
  rec_timestamp_ns :: i64

record FsmInstance =
  fsm_current :: FsmState
  fsm_transitions :: "FsmState \<rightharpoonup> (FsmEvent \<rightharpoonup> FsmState)"
  fsm_timeouts :: "FsmState \<rightharpoonup> StateTimeout"
  fsm_history :: "TransitionRecord list"

abbreviation rule :: "FsmState \<Rightarrow> FsmEvent \<Rightarrow> FsmState \<Rightarrow> TransitionRule" where
  "rule s e t \<equiv> \<lparr>tr_from = s, tr_event = e, tr_to = t\<rparr>"

abbreviation dwell :: "FsmState \<Rightarrow> u64 \<Rightarrow> FsmState \<Rightarrow> StateTimeout" where
  "dwell s ns t \<equiv> \<lparr>st_state = s, st_max_dwell_ns = ns, st_fallback = t\<rparr>"

definition fsm_new :: FsmInstance where
  "fsm_new = \<lparr>fsm_current = 0, fsm_transitions = Map.empty, fsm_timeouts = Map.empty,
              fsm_history = []\<rparr>"

text \<open>transitions_[from][event] = to: operator[] creates the inner map on
  first use.\<close>

definition add_rule ::
  "(FsmState \<rightharpoonup> (FsmEvent \<rightharpoonup> FsmState)) \<Rightarrow> TransitionRule \<Rightarrow> (FsmState \<rightharpoonup> (FsmEvent \<rightharpoonup> FsmState))" where
  "add_rule m r =
     m(tr_from r \<mapsto> ((case m (tr_from r) of None \<Rightarrow> Map.empty | Some em \<Rightarrow> em)(tr_event r \<mapsto> tr_to r)))"

definition set_transitions :: "TransitionRule list \<Rightarrow> FsmInstance \<Rightarrow> FsmInstance" where
  "set_transitions rules f = f\<lparr>fsm_transitions := foldl add_rule Map.empty rules\<rparr>"

definition set_timeouts :: "StateTimeout list \<Rightarrow> FsmInstance \<Rightarrow> FsmInstance" where
  "set_timeouts ts f = f\<lparr>fsm_timeouts := foldl (\<lambda>m t. m(st_state t \<mapsto> t)) Map.empty ts\<rparr>"

definition reset :: "FsmState \<Rightarrow> FsmInstance \<Rightarrow> FsmInstance" where
  "reset s f = f\<lparr>fsm_current := s, fsm_history := []\<rparr>"

section \<open>Events and timeouts\<close>

text \<open>The i-th byte of the object representation of a 64-bit value
  (little-endian host).\<close>

definition obj_byte :: "u64 \<Rightarrow> nat \<Rightarrow> byte" where
  "obj_byte v i = ucast (drop_bit (8 * i) v)"

definition state_hash_of :: "FsmState \<Rightarrow> FsmEvent \<Rightarrow> FsmState \<Rightarrow> u64 \<Rightarrow> bytes" where
  "state_hash_of cur ev nxt now =
     map (\<lambda>i. obj_byte cur i XOR obj_byte ev i XOR obj_byte nxt i XOR obj_byte now i) [0..<8]"

abbreviation err_invalid_transition :: error_code where
  "err_invalid_transition \<equiv> smo_err CatRuntime 700 SevError NoRetry RestartFSM"

abbreviation err_no_transitions :: error_code where
  "err_no_transitions \<equiv> smo_err CatRuntime 701 SevError NoRetry RestartFSM"

abbreviation err_fsm_truncated :: error_code where
  "err_fsm_truncated \<equiv> smo_err CatRuntime 702 Critical NoRetry RebootNode"

definition on_event :: "u64 \<Rightarrow> FsmEvent \<Rightarrow> FsmInstance \<Rightarrow> FsmInstance \<times> unit result" where
  "on_event now ev f =
     (case fsm_transitions f (fsm_current f) of
        None \<Rightarrow> (f, Err err_no_transitions)
      | Some em \<Rightarrow>
          (case em ev of
             None \<Rightarrow> (f, Err err_invalid_transition)
           | Some nxt \<Rightarrow>
               let elapsed = (if fsm_history f = [] then 0
                              else now - rec_timestamp_ns (last (fsm_history f)));
                   r = \<lparr>rec_from = fsm_current f, rec_event = ev, rec_to = nxt,
                        rec_elapsed_ns = elapsed,
                        rec_state_hash = state_hash_of (fsm_current f) ev nxt now,
                        rec_timestamp_ns = now\<rparr>
               in (f\<lparr>fsm_history := fsm_history f @ [r], fsm_current := nxt\<rparr>, Ok ())))"

definition on_timeout :: "u64 \<Rightarrow> FsmInstance \<Rightarrow> FsmInstance \<times> unit result" where
  "on_timeout now f =
     (case fsm_timeouts f (fsm_current f) of
        None \<Rightarrow> (f, Err err_no_transitions)
      | Some cfg \<Rightarrow>
          if st_max_dwell_ns cfg = 0 then (f, Err err_no_transitions)
          else on_event now (-1) f)"

definition max_dwell_ns :: "FsmInstance \<Rightarrow> u64" where
  "max_dwell_ns f =
     (case fsm_timeouts f (fsm_current f) of None \<Rightarrow> 0 | Some c \<Rightarrow> st_max_dwell_ns c)"

definition fallback_state :: "FsmInstance \<Rightarrow> FsmState" where
  "fallback_state f =
     (case fsm_timeouts f (fsm_current f) of None \<Rightarrow> 0 | Some c \<Rightarrow> st_fallback c)"

definition transition_count :: "FsmInstance \<Rightarrow> nat" where
  "transition_count f = length (fsm_history f)"

section \<open>Serialization\<close>

definition write_record :: "TransitionRecord \<Rightarrow> bytes" where
  "write_record r =
     write_be 8 (rec_from r) @ write_be 8 (rec_event r) @ write_be 8 (rec_to r) @
     write_be 8 (rec_elapsed_ns r) @ write_be 8 (rec_timestamp_ns r) @
     write_be 4 (of_nat (length (rec_state_hash r)) :: u32) @ rec_state_hash r"

definition fsm_serialize :: "FsmInstance \<Rightarrow> bytes" where
  "fsm_serialize f =
     write_be 8 (fsm_current f) @ write_be 4 (of_nat (length (fsm_history f)) :: u32) @
     concat (map write_record (fsm_history f))"

definition read_record :: "bytes \<Rightarrow> (TransitionRecord \<times> bytes) result" where
  "read_record bs =
     (if length bs < 40 then Err err_fsm_truncated
      else
        let (frm, b1) = read_be 8 bs;
            (ev, b2) = read_be 8 b1;
            (to, b3) = read_be 8 b2;
            (el, b4) = read_be 8 b3;
            (ts, b5) = read_be 8 b4;
            (hlen, b6) = (read_be 4 b5 :: u32 \<times> bytes)
        in if length b6 < unat hlen then Err err_fsm_truncated
           else Ok (\<lparr>rec_from = frm, rec_event = ev, rec_to = to, rec_elapsed_ns = el,
                     rec_state_hash = take (unat hlen) b6, rec_timestamp_ns = ts\<rparr>,
                    drop (unat hlen) b6))"

definition fsm_deserialize ::
  "TransitionRule list \<Rightarrow> StateTimeout list \<Rightarrow> bytes \<Rightarrow> FsmInstance result" where
  "fsm_deserialize rules ts data =
     (let f = set_timeouts ts (set_transitions rules fsm_new)
      in if length data < 12 then Err err_fsm_truncated
         else
           let (cur, b1) = read_be 8 data;
               (cnt, b2) = (read_be 4 b1 :: u32 \<times> bytes)
           in rbind (read_many read_record (unat cnt) b2)
                (\<lambda>(recs, _). Ok (f\<lparr>fsm_current := cur, fsm_history := recs\<rparr>)))"

section \<open>Lookup in a transition table\<close>

definition table_step ::
  "(FsmState \<rightharpoonup> (FsmEvent \<rightharpoonup> FsmState)) \<Rightarrow> FsmState \<Rightarrow> FsmEvent \<Rightarrow> FsmState option" where
  "table_step m s e = (case m s of None \<Rightarrow> None | Some em \<Rightarrow> em e)"

lemma table_step_add_rule:
  "table_step (add_rule m r) s e =
     (if s = tr_from r \<and> e = tr_event r then Some (tr_to r) else table_step m s e)"
  by (auto simp: table_step_def add_rule_def split: option.splits)

lemma table_step_foldl:
  "table_step (foldl add_rule m rules) s e =
     (case map_of (rev (map (\<lambda>r. ((tr_from r, tr_event r), tr_to r)) rules)) (s, e) of
        None \<Rightarrow> table_step m s e | Some t \<Rightarrow> Some t)"
  by (induction rules arbitrary: m)
    (auto simp: table_step_add_rule map_add_def split: option.splits)

lemma table_None_iff:
  "foldl add_rule m rules s = None \<longleftrightarrow> m s = None \<and> s \<notin> tr_from ` set rules"
  by (induction rules arbitrary: m) (auto simp: add_rule_def)

lemma table_step_empty [simp]: "table_step Map.empty s e = None"
  by (simp add: table_step_def)

text \<open>The contract of a transition table: no two rules for the same state and
  event.  The machine then takes exactly the transitions the table lists,
  whatever their order.\<close>

locale fsm_table =
  fixes rules :: "TransitionRule list"
  assumes distinct_keys: "distinct (map (\<lambda>r. (tr_from r, tr_event r)) rules)"
begin

lemma table_step_iff:
  "table_step (foldl add_rule Map.empty rules) s e = Some t \<longleftrightarrow> rule s e t \<in> set rules"
proof -
  let ?kv = "map (\<lambda>r. ((tr_from r, tr_event r), tr_to r)) rules"
  have "distinct (map fst (rev ?kv))"
    using distinct_keys by (simp add: rev_map [symmetric] comp_def)
  then have "map_of (rev ?kv) (s, e) = Some t \<longleftrightarrow> ((s, e), t) \<in> set (rev ?kv)"
    by (rule map_of_eq_Some_iff)
  also have "\<dots> \<longleftrightarrow> rule s e t \<in> set rules"
  proof -
    have "((s, e), t) = ((tr_from r, tr_event r), tr_to r) \<longleftrightarrow> r = rule s e t" for r
      by (cases r) auto
    then show ?thesis by (simp add: image_iff)
  qed
  finally show ?thesis
    by (cases "map_of (rev ?kv) (s, e)") (simp_all add: table_step_foldl)
qed

end

section \<open>Operations on every branch\<close>

lemma reset_simps [simp]:
  "fsm_current (reset s f) = s"
  "fsm_history (reset s f) = []"
  "fsm_transitions (reset s f) = fsm_transitions f"
  "fsm_timeouts (reset s f) = fsm_timeouts f"
  by (simp_all add: reset_def)

lemma config_simps [simp]:
  "fsm_transitions (set_transitions rules f) = foldl add_rule Map.empty rules"
  "fsm_transitions (set_timeouts ts f) = fsm_transitions f"
  "fsm_timeouts (set_transitions rules f) = fsm_timeouts f"
  "fsm_current (set_transitions rules f) = fsm_current f"
  "fsm_current (set_timeouts ts f) = fsm_current f"
  "fsm_history (set_transitions rules f) = fsm_history f"
  "fsm_history (set_timeouts ts f) = fsm_history f"
  by (simp_all add: set_transitions_def set_timeouts_def)

lemma on_event_cases:
  assumes "on_event now e f = (g, r)"
  obtains (invalid) "table_step (fsm_transitions f) (fsm_current f) e = None" "g = f"
      "r = Err err_no_transitions \<or> r = Err err_invalid_transition"
  | (step) t rc where "table_step (fsm_transitions f) (fsm_current f) e = Some t" "r = Ok ()"
      "g = f\<lparr>fsm_history := fsm_history f @ [rc], fsm_current := t\<rparr>"
      "rec_from rc = fsm_current f" "rec_event rc = e" "rec_to rc = t"
      "rec_timestamp_ns rc = now" "length (rec_state_hash rc) = 8"
      "rec_elapsed_ns rc = (if fsm_history f = [] then 0
                            else now - rec_timestamp_ns (last (fsm_history f)))"
  using assms
  by (fastforce simp: on_event_def table_step_def state_hash_of_def Let_def
      split: option.splits)

lemma on_event_ok_iff:
  "is_ok (snd (on_event now e f)) \<longleftrightarrow> table_step (fsm_transitions f) (fsm_current f) e \<noteq> None"
  by (auto simp: on_event_def table_step_def Let_def split: option.splits)

lemma on_event_current:
  "fsm_current (fst (on_event now e f)) =
     (case table_step (fsm_transitions f) (fsm_current f) e of None \<Rightarrow> fsm_current f | Some t \<Rightarrow> t)"
  by (auto simp: on_event_def table_step_def Let_def split: option.splits)

lemma on_event_config [simp]:
  "fsm_transitions (fst (on_event now e f)) = fsm_transitions f"
  "fsm_timeouts (fst (on_event now e f)) = fsm_timeouts f"
  by (auto simp: on_event_def Let_def split: option.splits)

lemma on_event_error_same: "\<not> is_ok (snd (on_event now e f)) \<Longrightarrow> fst (on_event now e f) = f"
  by (auto simp: on_event_def Let_def split: option.splits)

lemma on_timeout_event:
  "on_timeout now f =
     (if max_dwell_ns f = 0 then (f, Err err_no_transitions) else on_event now (-1) f)"
  by (auto simp: on_timeout_def max_dwell_ns_def split: option.splits)

lemma on_timeout_config [simp]:
  "fsm_transitions (fst (on_timeout now f)) = fsm_transitions f"
  "fsm_timeouts (fst (on_timeout now f)) = fsm_timeouts f"
  by (simp_all add: on_timeout_event)

section \<open>Reachable instances\<close>

text \<open>Every use of an instance is a sequence of events and timeouts, at any
  clock readings.\<close>

inductive fsm_reach :: "FsmInstance \<Rightarrow> FsmInstance \<Rightarrow> bool" for f0 where
  start: "fsm_reach f0 f0"
| event: "fsm_reach f0 f \<Longrightarrow> fsm_reach f0 (fst (on_event now e f))"
| timeout: "fsm_reach f0 f \<Longrightarrow> fsm_reach f0 (fst (on_timeout now f))"

lemma fsm_reach_invariant:
  assumes "fsm_reach f0 f" and "P f0"
    and "\<And>now e f. P f \<Longrightarrow> P (fst (on_event now e f))"
  shows "P f"
  using assms(1) by induction (auto simp: assms(2,3) on_timeout_event)

lemma fsm_reach_config:
  assumes "fsm_reach f0 f"
  shows "fsm_transitions f = fsm_transitions f0 \<and> fsm_timeouts f = fsm_timeouts f0"
  using assms by (rule fsm_reach_invariant) auto

lemma fsm_reach_closed:
  assumes "fsm_reach f0 f" and "fsm_current f0 \<in> S"
    and closed: "\<And>s e t. s \<in> S \<Longrightarrow> table_step (fsm_transitions f0) s e = Some t \<Longrightarrow> t \<in> S"
  shows "fsm_current f \<in> S"
proof -
  have "fsm_transitions f = fsm_transitions f0 \<and> fsm_current f \<in> S"
    using assms(1)
    by (rule fsm_reach_invariant)
      (auto simp: assms(2) on_event_current split: option.splits intro: closed)
  then show ?thesis ..
qed

text \<open>The audit trail: replaying the recorded transitions on the table.\<close>

fun replay ::
  "(FsmState \<rightharpoonup> (FsmEvent \<rightharpoonup> FsmState)) \<Rightarrow> FsmState \<Rightarrow> TransitionRecord list \<Rightarrow> FsmState option" where
  "replay m s [] = Some s"
| "replay m s (r # rs) =
     (if rec_from r = s \<and> table_step m s (rec_event r) = Some (rec_to r)
      then replay m (rec_to r) rs else None)"

lemma replay_snoc:
  "replay m s rs = Some t \<Longrightarrow>
   replay m s (rs @ [r]) =
     (if rec_from r = t \<and> table_step m t (rec_event r) = Some (rec_to r)
      then Some (rec_to r) else None)"
  by (induction m s rs rule: replay.induct) (auto split: if_splits)

text \<open>Each record's elapsed time is the distance to its predecessor's
  timestamp.\<close>

fun elapsed_ok :: "u64 option \<Rightarrow> TransitionRecord list \<Rightarrow> bool" where
  "elapsed_ok prev [] = True"
| "elapsed_ok prev (r # rs) =
     (rec_elapsed_ns r = (case prev of None \<Rightarrow> 0 | Some p \<Rightarrow> rec_timestamp_ns r - p) \<and>
      elapsed_ok (Some (rec_timestamp_ns r)) rs)"

lemma elapsed_ok_snoc:
  "elapsed_ok prev (rs @ [r]) \<longleftrightarrow> elapsed_ok prev rs \<and>
     rec_elapsed_ns r =
       (if rs = [] then (case prev of None \<Rightarrow> 0 | Some p \<Rightarrow> rec_timestamp_ns r - p)
        else rec_timestamp_ns r - rec_timestamp_ns (last rs))"
  by (induction prev rs rule: elapsed_ok.induct) auto

lemma elapsed_ok_sum:
  "elapsed_ok (Some p) rs \<Longrightarrow> rs \<noteq> [] \<Longrightarrow>
   sum_list (map rec_elapsed_ns rs) = rec_timestamp_ns (last rs) - p"
proof (induction rs arbitrary: p)
  case (Cons r rs)
  then show ?case by (cases "rs = []") auto
qed simp

definition audit_inv :: "FsmState \<Rightarrow> FsmInstance \<Rightarrow> bool" where
  "audit_inv s0 f \<longleftrightarrow>
     replay (fsm_transitions f) s0 (fsm_history f) = Some (fsm_current f) \<and>
     elapsed_ok None (fsm_history f) \<and>
     list_all (\<lambda>r. length (rec_state_hash r) = 8) (fsm_history f)"

lemma audit_inv_on_event [inv_intros]:
  assumes "audit_inv s0 f"
  shows "audit_inv s0 (fst (on_event now e f))"
proof -
  obtain g r where gr: "on_event now e f = (g, r)" by fastforce
  from gr show ?thesis
  proof (cases rule: on_event_cases)
    case (step t rc)
    with assms gr show ?thesis
      by (simp add: audit_inv_def replay_snoc elapsed_ok_snoc)
  qed (use assms gr in simp)
qed

lemma audit_inv_reach:
  assumes "fsm_reach (reset s0 f) g"
  shows "audit_inv s0 g"
  using assms by (rule fsm_reach_invariant) (auto simp: audit_inv_def[of _ "reset s0 f"] intro: inv_intros)

section \<open>Round trip of the serialized form\<close>

definition wf_record :: "TransitionRecord \<Rightarrow> bool" where
  "wf_record r \<longleftrightarrow> length (rec_state_hash r) < 2 ^ 32"

lemma read_write_record:
  assumes "wf_record r"
  shows "read_record (write_record r @ rest) = Ok (r, rest)"
proof -
  have "unat (of_nat (length (rec_state_hash r)) :: u32) = length (rec_state_hash r)"
    using assms by (intro unat_of_nat_lt) (simp add: wf_record_def)
  then show ?thesis
    by (simp add: read_record_def write_record_def wire_simps Let_def)
qed

interpretation fsm_record: stream_codec write_record read_record wf_record
  by unfold_locales (rule read_write_record)

definition wf_fsm :: "FsmInstance \<Rightarrow> bool" where
  "wf_fsm f \<longleftrightarrow> length (fsm_history f) < 2 ^ 32 \<and> list_all wf_record (fsm_history f)"

lemma fsm_deserialize_serialize:
  assumes "wf_fsm f"
  shows "fsm_deserialize rules ts (fsm_serialize f) =
     Ok ((set_timeouts ts (set_transitions rules fsm_new))
           \<lparr>fsm_current := fsm_current f, fsm_history := fsm_history f\<rparr>)"
proof -
  have len: "unat (of_nat (length (fsm_history f)) :: u32) = length (fsm_history f)"
    using assms by (intro unat_of_nat_lt) (simp add: wf_fsm_def)
  have "read_many read_record (length (fsm_history f))
          (concat (map write_record (fsm_history f)) @ []) = Ok (fsm_history f, [])"
    using assms by (intro fsm_record.many) (auto simp: wf_fsm_def list_all_iff)
  then show ?thesis
    by (simp add: fsm_deserialize_def fsm_serialize_def wire_simps len Let_def)
qed

lemma audit_inv_wf: "audit_inv s0 f \<Longrightarrow> length (fsm_history f) < 2 ^ 32 \<Longrightarrow> wf_fsm f"
  by (auto simp: audit_inv_def wf_fsm_def wf_record_def list_all_iff)

section \<open>What the machine guarantees\<close>

text \<open>
  Audit: however an instance is driven after a reset, replaying its recorded
  transitions on its own table from the initial state leads to its current
  state, every recorded step is one of the table, and the recorded elapsed times
  add up to the time between the first and the last transition.
\<close>

lemma fsm_audit_replay:
  assumes "fsm_reach (reset s0 f) g"
  shows "replay (fsm_transitions f) s0 (fsm_history g) = Some (fsm_current g) \<and>
    (fsm_history g \<noteq> [] \<longrightarrow>
       sum_list (map rec_elapsed_ns (fsm_history g)) =
       rec_timestamp_ns (last (fsm_history g)) - rec_timestamp_ns (hd (fsm_history g)))"
proof -
  have inv: "audit_inv s0 g" using assms by (rule audit_inv_reach)
  moreover have "fsm_transitions g = fsm_transitions f"
    using fsm_reach_config [OF assms] by simp
  moreover have "sum_list (map rec_elapsed_ns rs) = rec_timestamp_ns (last rs) - rec_timestamp_ns (hd rs)"
    if "elapsed_ok None rs" "rs \<noteq> []" for rs
    using that elapsed_ok_sum by (cases rs; cases "tl rs") auto
  ultimately show ?thesis by (simp add: audit_inv_def)
qed

definition demo_fsm :: FsmInstance where
  "demo_fsm = set_timeouts [] (set_transitions [rule 0 1 5, rule 5 2 0] fsm_new)"

definition demo_run :: FsmInstance where
  "demo_run = fst (on_event 130 2 (fst (on_event 100 1 (reset 0 demo_fsm))))"

lemma demo_run_reach: "fsm_reach (reset 0 demo_fsm) demo_run"
  unfolding demo_run_def by (intro fsm_reach.intros)

lemmas demo_defs = demo_run_def demo_fsm_def fsm_new_def reset_def set_transitions_def
  set_timeouts_def add_rule_def on_event_def Let_def

lemma fsm_audit_replay_example:
  "replay (fsm_transitions demo_fsm) 0 (fsm_history demo_run) = Some 0 \<and>
   sum_list (map rec_elapsed_ns (fsm_history demo_run)) = 30"
proof -
  have "fsm_current demo_run = 0 \<and> map rec_timestamp_ns (fsm_history demo_run) = [100, 130] \<and>
      fsm_history demo_run \<noteq> []"
    by (simp add: demo_defs)
  with fsm_audit_replay [OF demo_run_reach] show ?thesis
    by (auto simp: hd_map [symmetric] last_map [symmetric])
qed

text \<open>
  C21. Crash recovery: an instance configured with a rule and a timeout table and
  driven in any way is restored exactly, tables, state and audit history, from
  its serialized form and the same tables (as long as its history count fits the
  four bytes it is written in).
\<close>

theorem fsm_crash_recovery:
  assumes "fsm_reach (reset s0 (set_timeouts ts (set_transitions rules fsm_new))) g"
    and "length (fsm_history g) < 2 ^ 32"
  shows "fsm_deserialize rules ts (fsm_serialize g) = Ok g"
proof -
  have "wf_fsm g" using audit_inv_reach [OF assms(1)] assms(2) by (rule audit_inv_wf)
  moreover have "(set_timeouts ts (set_transitions rules fsm_new))
      \<lparr>fsm_current := fsm_current g, fsm_history := fsm_history g\<rparr> = g"
    using fsm_reach_config [OF assms(1)] by (simp add: FsmInstance.equality)
  ultimately show ?thesis by (simp add: fsm_deserialize_serialize)
qed

theorem fsm_crash_recovery_witness:
  "length (fsm_history demo_run) = 2 \<and>
   fsm_deserialize [rule 0 1 5, rule 5 2 0] [] (fsm_serialize demo_run) = Ok demo_run"
proof -
  have len: "length (fsm_history demo_run) = 2" by (simp add: demo_defs)
  show ?thesis
    using fsm_crash_recovery [OF demo_run_reach [unfolded demo_fsm_def]] len by simp
qed

text \<open>
  A snapshot cut inside the length field of its last state hash is accepted:
  the reader takes the missing length bytes for zero and the record comes back
  with an empty hash instead of the "truncated" error the code reports for every
  other cut.
\<close>

lemma fsm_truncated_hash_accepted:
  "fsm_deserialize rules ts (write_be 8 c @ write_be 4 (1 :: u32) @ take 40 (write_record r)) =
     Ok ((set_timeouts ts (set_transitions rules fsm_new))
           \<lparr>fsm_current := c, fsm_history := [r\<lparr>rec_state_hash := []\<rparr>]\<rparr>)"
proof -
  have "take 40 (write_record r) =
      write_be 8 (rec_from r) @ write_be 8 (rec_event r) @ write_be 8 (rec_to r) @
      write_be 8 (rec_elapsed_ns r) @ write_be 8 (rec_timestamp_ns r) @ []"
    by (simp add: write_record_def del: append_Nil2)
  then have "read_record (take 40 (write_record r)) = Ok (r\<lparr>rec_state_hash := []\<rparr>, [])"
    by (simp add: read_record_def wire_simps Let_def del: append_Nil2)
  then show ?thesis
    by (simp add: fsm_deserialize_def wire_simps Let_def)
qed

end
