(* ===== verification/Node_Lifecycle.thy ===== *)
theory Node_Lifecycle
  imports Fsm "HOL-Library.Sublist"
begin

text \<open>
  NodeLifecycleFSM (core/fsm/node_lifecycle_fsm.hpp, .cpp): the lifecycle of a
  node on top of FsmInstance, and the gate that decides which opcodes a node may
  process in its current state.  The enums have int64_t as underlying type, so a
  stored state is any 64-bit value: reading it back gives an enumerator or none.
\<close>

section \<open>States, events and tables\<close>

datatype NodeLifecycleState =
    NEW | IDENTITY_READY | CSR_PENDING | CERTIFIED | BOOTSTRAPPING | JOINING
  | SYNCHRONIZING | ACTIVE | SUSPENDED | RECOVERING | REVOKED | REMOVED

datatype NodeLifecycleEvent =
    IDENTITY_CREATED | CSR_EXPORTED | CERT_IMPORTED | BOOTSTRAP_START
  | BOOTSTRAP_COMPLETE | JOIN_COMPLETE | SYNC_COMPLETE | HEARTBEAT_TIMEOUT
  | RECONNECT | RECOVERY_PROPOSED | RECOVERY_COMPLETE | CERT_REVOKED | ADMIN_REMOVE

primrec nls_code :: "NodeLifecycleState \<Rightarrow> FsmState" where
  "nls_code NEW = 0"
| "nls_code IDENTITY_READY = 1"
| "nls_code CSR_PENDING = 2"
| "nls_code CERTIFIED = 3"
| "nls_code BOOTSTRAPPING = 4"
| "nls_code JOINING = 5"
| "nls_code SYNCHRONIZING = 6"
| "nls_code ACTIVE = 7"
| "nls_code SUSPENDED = 8"
| "nls_code RECOVERING = 9"
| "nls_code REVOKED = 10"
| "nls_code REMOVED = 11"

primrec nle_code :: "NodeLifecycleEvent \<Rightarrow> FsmEvent" where
  "nle_code IDENTITY_CREATED = 1"
| "nle_code CSR_EXPORTED = 2"
| "nle_code CERT_IMPORTED = 3"
| "nle_code BOOTSTRAP_START = 4"
| "nle_code BOOTSTRAP_COMPLETE = 5"
| "nle_code JOIN_COMPLETE = 6"
| "nle_code SYNC_COMPLETE = 7"
| "nle_code HEARTBEAT_TIMEOUT = 8"
| "nle_code RECONNECT = 9"
| "nle_code RECOVERY_PROPOSED = 10"
| "nle_code RECOVERY_COMPLETE = 11"
| "nle_code CERT_REVOKED = 12"
| "nle_code ADMIN_REMOVE = 13"

definition all_states :: "NodeLifecycleState list" where
  "all_states = [NEW, IDENTITY_READY, CSR_PENDING, CERTIFIED, BOOTSTRAPPING, JOINING,
     SYNCHRONIZING, ACTIVE, SUSPENDED, RECOVERING, REVOKED, REMOVED]"

definition nls_of :: "FsmState \<Rightarrow> NodeLifecycleState option" where
  "nls_of c = find (\<lambda>s. nls_code s = c) all_states"

abbreviation nl_rule ::
  "NodeLifecycleState \<Rightarrow> NodeLifecycleEvent \<Rightarrow> NodeLifecycleState \<Rightarrow> TransitionRule" where
  "nl_rule s e t \<equiv> rule (nls_code s) (nle_code e) (nls_code t)"

definition build_transitions :: "TransitionRule list" where
  "build_transitions =
    [nl_rule NEW IDENTITY_CREATED IDENTITY_READY,
     nl_rule IDENTITY_READY CSR_EXPORTED CSR_PENDING,
     nl_rule CSR_PENDING CERT_IMPORTED CERTIFIED,
     nl_rule CERTIFIED BOOTSTRAP_START BOOTSTRAPPING,
     nl_rule BOOTSTRAPPING BOOTSTRAP_COMPLETE JOINING,
     nl_rule JOINING JOIN_COMPLETE SYNCHRONIZING,
     nl_rule SYNCHRONIZING SYNC_COMPLETE ACTIVE,
     nl_rule ACTIVE HEARTBEAT_TIMEOUT SUSPENDED,
     nl_rule SUSPENDED RECONNECT ACTIVE,
     nl_rule ACTIVE RECOVERY_PROPOSED RECOVERING,
     nl_rule SUSPENDED RECOVERY_PROPOSED RECOVERING,
     nl_rule RECOVERING RECOVERY_COMPLETE ACTIVE,
     nl_rule NEW CERT_REVOKED REVOKED,
     nl_rule IDENTITY_READY CERT_REVOKED REVOKED,
     nl_rule CSR_PENDING CERT_REVOKED REVOKED,
     nl_rule CERTIFIED CERT_REVOKED REVOKED,
     nl_rule BOOTSTRAPPING CERT_REVOKED REVOKED,
     nl_rule JOINING CERT_REVOKED REVOKED,
     nl_rule SYNCHRONIZING CERT_REVOKED REVOKED,
     nl_rule ACTIVE CERT_REVOKED REVOKED,
     nl_rule SUSPENDED CERT_REVOKED REVOKED,
     nl_rule RECOVERING CERT_REVOKED REVOKED,
     nl_rule REVOKED ADMIN_REMOVE REMOVED]"

definition SEC :: u64 where
  "SEC = 1000000000"

definition build_timeouts :: "StateTimeout list" where
  "build_timeouts =
    [dwell (nls_code BOOTSTRAPPING) (30 * SEC) (nls_code CERTIFIED),
     dwell (nls_code JOINING) (30 * SEC) (nls_code CERTIFIED),
     dwell (nls_code SYNCHRONIZING) (60 * SEC) (nls_code JOINING),
     dwell (nls_code RECOVERING) (120 * SEC) (nls_code ACTIVE)]"

section \<open>Operations\<close>

type_synonym NodeLifecycleFSM = FsmInstance

definition nl_new :: NodeLifecycleFSM where
  "nl_new = reset (nls_code NEW) (set_timeouts build_timeouts (set_transitions build_transitions fsm_new))"

definition nl_on_event ::
  "u64 \<Rightarrow> NodeLifecycleEvent \<Rightarrow> NodeLifecycleFSM \<Rightarrow> NodeLifecycleFSM \<times> unit result" where
  "nl_on_event now ev f = on_event now (nle_code ev) f"

definition nl_on_timeout :: "u64 \<Rightarrow> NodeLifecycleFSM \<Rightarrow> NodeLifecycleFSM \<times> unit result" where
  "nl_on_timeout now f = on_timeout now f"

definition get_state :: "NodeLifecycleFSM \<Rightarrow> NodeLifecycleState option" where
  "get_state f = nls_of (fsm_current f)"

definition nl_is_active :: "NodeLifecycleFSM \<Rightarrow> bool" where
  "nl_is_active f = (get_state f = Some ACTIVE)"

definition nl_reset :: "NodeLifecycleFSM \<Rightarrow> NodeLifecycleFSM" where
  "nl_reset f = reset (nls_code NEW) f"

definition kAllowedDuringBootstrap :: "(u32 \<times> string) list" where
  "kAllowedDuringBootstrap =
    [(0x0105, ''BootstrapRequest''), (0x0205, ''BootstrapResponse''),
     (0x30, ''BOOTSTRAP_SNAPSHOT''), (0x31, ''BOOTSTRAP_INFO''),
     (0x33, ''JOIN''), (0x34, ''LEAVE''), (0x35, ''JOIN_INFO'')]"

definition is_opcode_allowed_during_bootstrap :: "u32 \<Rightarrow> bool" where
  "is_opcode_allowed_during_bootstrap opcode =
     list_ex (\<lambda>o'. fst o' = opcode) kAllowedDuringBootstrap"

definition check_opcode_allowed :: "NodeLifecycleFSM \<Rightarrow> u32 \<Rightarrow> unit result" where
  "check_opcode_allowed f opcode =
     (if get_state f = Some ACTIVE then Ok ()
      else if get_state f = Some BOOTSTRAPPING \<or> get_state f = Some JOINING \<or>
              get_state f = Some SYNCHRONIZING
      then (if is_opcode_allowed_during_bootstrap opcode then Ok ()
            else Err (smo_err CatSession 507 SevError NoRetry RecNone))
      else Err (smo_err CatSession 508 SevError NoRetry RecNone))"

primrec nls_to_string :: "NodeLifecycleState \<Rightarrow> string" where
  "nls_to_string NEW = ''NEW''"
| "nls_to_string IDENTITY_READY = ''IDENTITY_READY''"
| "nls_to_string CSR_PENDING = ''CSR_PENDING''"
| "nls_to_string CERTIFIED = ''CERTIFIED''"
| "nls_to_string BOOTSTRAPPING = ''BOOTSTRAPPING''"
| "nls_to_string JOINING = ''JOINING''"
| "nls_to_string SYNCHRONIZING = ''SYNCHRONIZING''"
| "nls_to_string ACTIVE = ''ACTIVE''"
| "nls_to_string SUSPENDED = ''SUSPENDED''"
| "nls_to_string RECOVERING = ''RECOVERING''"
| "nls_to_string REVOKED = ''REVOKED''"
| "nls_to_string REMOVED = ''REMOVED''"

primrec nle_to_string :: "NodeLifecycleEvent \<Rightarrow> string" where
  "nle_to_string IDENTITY_CREATED = ''identity_created''"
| "nle_to_string CSR_EXPORTED = ''csr_exported''"
| "nle_to_string CERT_IMPORTED = ''cert_imported''"
| "nle_to_string BOOTSTRAP_START = ''bootstrap_start''"
| "nle_to_string BOOTSTRAP_COMPLETE = ''bootstrap_complete''"
| "nle_to_string JOIN_COMPLETE = ''join_complete''"
| "nle_to_string SYNC_COMPLETE = ''sync_complete''"
| "nle_to_string HEARTBEAT_TIMEOUT = ''heartbeat_timeout''"
| "nle_to_string RECONNECT = ''reconnect''"
| "nle_to_string RECOVERY_PROPOSED = ''recovery_proposed''"
| "nle_to_string RECOVERY_COMPLETE = ''recovery_complete''"
| "nle_to_string CERT_REVOKED = ''cert_revoked''"
| "nle_to_string ADMIN_REMOVE = ''admin_remove''"

section \<open>The table as a function\<close>

text \<open>The lifecycle the table is meant to implement.\<close>

definition only_if :: "bool \<Rightarrow> 'a \<Rightarrow> 'a option" where
  "only_if b x = (if b then Some x else None)"

primrec nl_next :: "NodeLifecycleState \<Rightarrow> NodeLifecycleEvent \<Rightarrow> NodeLifecycleState option" where
  "nl_next s IDENTITY_CREATED = only_if (s = NEW) IDENTITY_READY"
| "nl_next s CSR_EXPORTED = only_if (s = IDENTITY_READY) CSR_PENDING"
| "nl_next s CERT_IMPORTED = only_if (s = CSR_PENDING) CERTIFIED"
| "nl_next s BOOTSTRAP_START = only_if (s = CERTIFIED) BOOTSTRAPPING"
| "nl_next s BOOTSTRAP_COMPLETE = only_if (s = BOOTSTRAPPING) JOINING"
| "nl_next s JOIN_COMPLETE = only_if (s = JOINING) SYNCHRONIZING"
| "nl_next s SYNC_COMPLETE = only_if (s = SYNCHRONIZING) ACTIVE"
| "nl_next s HEARTBEAT_TIMEOUT = only_if (s = ACTIVE) SUSPENDED"
| "nl_next s RECONNECT = only_if (s = SUSPENDED) ACTIVE"
| "nl_next s RECOVERY_PROPOSED = only_if (s = ACTIVE \<or> s = SUSPENDED) RECOVERING"
| "nl_next s RECOVERY_COMPLETE = only_if (s = RECOVERING) ACTIVE"
| "nl_next s CERT_REVOKED = only_if (s \<noteq> REVOKED \<and> s \<noteq> REMOVED) REVOKED"
| "nl_next s ADMIN_REMOVE = only_if (s = REVOKED) REMOVED"

abbreviation nl_table :: "FsmState \<rightharpoonup> (FsmEvent \<rightharpoonup> FsmState)" where
  "nl_table \<equiv> foldl add_rule Map.empty build_transitions"

lemma nls_of_code [simp]: "nls_of (nls_code s) = Some s"
  by (cases s) (simp_all add: nls_of_def all_states_def)

lemma nls_of_Some: "nls_of c = Some s \<longleftrightarrow> c = nls_code s"
proof
  show "nls_of c = Some s \<Longrightarrow> c = nls_code s"
    by (auto simp: nls_of_def find_Some_iff)
qed simp

lemma nls_code_inject [simp]: "nls_code s = nls_code t \<longleftrightarrow> s = t"
  by (metis nls_of_code option.inject)

interpretation node_table: fsm_table build_transitions
  by unfold_locales (simp add: build_transitions_def)

lemma nle_code_inject: "nle_code e = nle_code d \<longleftrightarrow> e = d"
  by (cases e; cases d; simp)

lemma nl_table_next [fsm_eval]:
  "table_step nl_table (nls_code s) (nle_code e) = map_option nls_code (nl_next s e)"
  by (cases e) (simp_all add: build_transitions_def table_step_add_rule nle_code_inject
      only_if_def del: nls_code.simps nle_code.simps split del: if_split cong: if_cong,
      (cases s; auto)+)


lemma nl_table_no_timeout: "table_step nl_table s (-1) = None"
proof -
  have "\<not> rule s (-1) t \<in> set build_transitions" for t
    by (simp add: build_transitions_def)
  then show ?thesis using node_table.table_step_iff by (metis not_Some_eq)
qed

lemma nl_table_cases:
  assumes "table_step nl_table (nls_code s) e = Some t"
  obtains ev where "e = nle_code ev"
proof -
  have "tr_event (rule (nls_code s) e t) \<in> tr_event ` set build_transitions"
    using assms by (intro imageI) (simp add: node_table.table_step_iff)
  also have "tr_event ` set build_transitions \<subseteq> range nle_code"
    by (simp add: build_transitions_def del: nle_code.simps)
  finally show ?thesis using that by auto
qed

section \<open>Reachable nodes\<close>

text \<open>A node is driven by events, timeouts and resets.\<close>

inductive nl_reach :: "NodeLifecycleFSM \<Rightarrow> bool" where
  new: "nl_reach nl_new"
| event: "nl_reach f \<Longrightarrow> nl_reach (fst (nl_on_event now e f))"
| timeout: "nl_reach f \<Longrightarrow> nl_reach (fst (nl_on_timeout now f))"
| reset: "nl_reach f \<Longrightarrow> nl_reach (nl_reset f)"

text \<open>The events a node must have seen to be in a state.\<close>

primrec required_events :: "NodeLifecycleState \<Rightarrow> NodeLifecycleEvent list" where
  "required_events NEW = []"
| "required_events IDENTITY_READY = [IDENTITY_CREATED]"
| "required_events CSR_PENDING = [IDENTITY_CREATED, CSR_EXPORTED]"
| "required_events CERTIFIED = [IDENTITY_CREATED, CSR_EXPORTED, CERT_IMPORTED]"
| "required_events BOOTSTRAPPING = [IDENTITY_CREATED, CSR_EXPORTED, CERT_IMPORTED, BOOTSTRAP_START]"
| "required_events JOINING = [IDENTITY_CREATED, CSR_EXPORTED, CERT_IMPORTED, BOOTSTRAP_START,
     BOOTSTRAP_COMPLETE]"
| "required_events SYNCHRONIZING = [IDENTITY_CREATED, CSR_EXPORTED, CERT_IMPORTED, BOOTSTRAP_START,
     BOOTSTRAP_COMPLETE, JOIN_COMPLETE]"
| "required_events ACTIVE = [IDENTITY_CREATED, CSR_EXPORTED, CERT_IMPORTED, BOOTSTRAP_START,
     BOOTSTRAP_COMPLETE, JOIN_COMPLETE, SYNC_COMPLETE]"
| "required_events SUSPENDED = [IDENTITY_CREATED, CSR_EXPORTED, CERT_IMPORTED, BOOTSTRAP_START,
     BOOTSTRAP_COMPLETE, JOIN_COMPLETE, SYNC_COMPLETE, HEARTBEAT_TIMEOUT]"
| "required_events RECOVERING = [IDENTITY_CREATED, CSR_EXPORTED, CERT_IMPORTED, BOOTSTRAP_START,
     BOOTSTRAP_COMPLETE, JOIN_COMPLETE, SYNC_COMPLETE, RECOVERY_PROPOSED]"
| "required_events REVOKED = [CERT_REVOKED]"
| "required_events REMOVED = [CERT_REVOKED, ADMIN_REMOVE]"

lemma required_events_step:
  assumes "nl_next s e = Some t"
  shows "subseq (required_events t) (required_events s @ [e])"
  using assms by (cases e; cases s; simp add: only_if_def split: if_splits)

definition nl_inv :: "NodeLifecycleFSM \<Rightarrow> bool" where
  "nl_inv f \<longleftrightarrow> fsm_transitions f = nl_table \<and>
     fsm_timeouts f = fsm_timeouts nl_new \<and>
     (\<exists>s. fsm_current f = nls_code s \<and>
          subseq (map nle_code (required_events s)) (map rec_event (fsm_history f)))"

lemma nl_inv_new [inv_intros]: "nl_inv nl_new"
  by (auto simp: nl_inv_def nl_new_def intro!: exI [of _ NEW])

lemma nl_inv_reset [inv_intros]: "nl_inv f \<Longrightarrow> nl_inv (nl_reset f)"
  by (auto simp: nl_inv_def nl_reset_def intro!: exI [of _ NEW])

lemma nl_inv_on_event [inv_intros]:
  assumes "nl_inv f"
  shows "nl_inv (fst (nl_on_event now e f))"
proof -
  obtain s where s: "fsm_current f = nls_code s" "fsm_transitions f = nl_table"
      "subseq (map nle_code (required_events s)) (map rec_event (fsm_history f))"
    using assms by (auto simp: nl_inv_def)
  obtain g r where gr: "on_event now (nle_code e) f = (g, r)" by fastforce
  from gr show ?thesis
  proof (cases rule: on_event_cases)
    case (step t rc)
    then obtain t' where t': "nl_next s e = Some t'" "t = nls_code t'"
      using s by (auto simp: fsm_eval)
    have "subseq (map nle_code (required_events t')) (map nle_code (required_events s @ [e]))"
      using required_events_step [OF t'(1)] by (rule subseq_map)
    also have "subseq \<dots> (map rec_event (fsm_history f @ [rc]))"
      using s(3) step by (simp add: list_emb_append_mono)
    finally show ?thesis
      using step gr t' assms by (auto simp: nl_inv_def nl_on_event_def)
  qed (use assms gr in \<open>simp add: nl_on_event_def\<close>)
qed

lemma on_timeout_fails:
  assumes "nl_inv f"
  shows "fst (nl_on_timeout now f) = f \<and> \<not> is_ok (snd (nl_on_timeout now f))"
proof -
  have "table_step (fsm_transitions f) (fsm_current f) (-1) = None"
    using assms by (simp add: nl_inv_def nl_table_no_timeout)
  then have "\<not> is_ok (snd (on_event now (-1) f))" by (simp add: on_event_ok_iff)
  then show ?thesis
    by (simp add: nl_on_timeout_def on_timeout_event on_event_error_same)
qed

lemma nl_reach_inv: "nl_reach f \<Longrightarrow> nl_inv f"
  by (induction rule: nl_reach.induct) (auto simp: on_timeout_fails intro: inv_intros)

lemma nl_on_event_spec:
  assumes "nl_inv f" and "get_state f = Some s"
  shows "get_state (fst (nl_on_event now e f)) =
           Some (case nl_next s e of None \<Rightarrow> s | Some t \<Rightarrow> t) \<and>
         (is_ok (snd (nl_on_event now e f)) \<longleftrightarrow> nl_next s e \<noteq> None)"
  using assms
  by (auto simp: nl_inv_def get_state_def nl_on_event_def on_event_current on_event_ok_iff
      nls_of_Some fsm_eval split: option.splits)

section \<open>What the lifecycle guarantees\<close>

text \<open>
  C12. Admission: if the opcode gate of a node lets an opcode outside the bootstrap
  list through, then since its last reset the node has, in this order, created
  its identity, exported its signing request, imported its certificate,
  bootstrapped, joined and synchronized; and every opcode it lets through at all
  needs an imported certificate and a started bootstrap.
\<close>

theorem opcode_gate_admission:
  assumes "nl_reach f" and "check_opcode_allowed f opcode = Ok ()"
  shows "subseq (map nle_code [IDENTITY_CREATED, CSR_EXPORTED, CERT_IMPORTED, BOOTSTRAP_START])
           (map rec_event (fsm_history f)) \<and>
         (is_opcode_allowed_during_bootstrap opcode \<or>
          subseq (map nle_code (required_events ACTIVE)) (map rec_event (fsm_history f)))"
proof -
  obtain s where s: "fsm_current f = nls_code s"
      and sub: "subseq (map nle_code (required_events s)) (map rec_event (fsm_history f))"
    using nl_reach_inv [OF assms(1)] by (auto simp: nl_inv_def)
  have st: "s \<in> {BOOTSTRAPPING, JOINING, SYNCHRONIZING, ACTIVE} \<and>
      (is_opcode_allowed_during_bootstrap opcode \<or> s = ACTIVE)"
    using assms(2) s by (auto simp: check_opcode_allowed_def get_state_def split: if_splits)
  then have "subseq (map nle_code [IDENTITY_CREATED, CSR_EXPORTED, CERT_IMPORTED, BOOTSTRAP_START])
      (map nle_code (required_events s))"
    by (intro subseq_map) auto
  with sub have "subseq (map nle_code [IDENTITY_CREATED, CSR_EXPORTED, CERT_IMPORTED, BOOTSTRAP_START])
      (map rec_event (fsm_history f))"
    using subseq_order.trans by blast
  with st sub show ?thesis by auto
qed

definition demo_bootstrapping :: NodeLifecycleFSM where
  "demo_bootstrapping =
     fst (nl_on_event 4 BOOTSTRAP_START (fst (nl_on_event 3 CERT_IMPORTED
       (fst (nl_on_event 2 CSR_EXPORTED (fst (nl_on_event 1 IDENTITY_CREATED nl_new)))))))"

lemma demo_bootstrapping_reach: "nl_reach demo_bootstrapping"
  unfolding demo_bootstrapping_def by (intro nl_reach.intros)

lemma demo_bootstrapping_state: "get_state demo_bootstrapping = Some BOOTSTRAPPING"
proof -
  have "get_state nl_new = Some NEW"
    by (simp add: get_state_def nl_new_def del: nls_code.simps)
  then show ?thesis
    unfolding demo_bootstrapping_def by (simp add: nl_on_event_spec inv_intros only_if_def)
qed

theorem opcode_gate_admission_witness:
  "subseq [1, 2, 3, 4] (map rec_event (fsm_history demo_bootstrapping)) \<and>
   check_opcode_allowed demo_bootstrapping 0x33 = Ok ()"
proof -
  have ok: "check_opcode_allowed demo_bootstrapping 0x33 = Ok ()"
    by (simp add: check_opcode_allowed_def demo_bootstrapping_state
        is_opcode_allowed_during_bootstrap_def kAllowedDuringBootstrap_def)
  show ?thesis using opcode_gate_admission [OF demo_bootstrapping_reach ok] ok by simp
qed

text \<open>
  C27. Revocation is final: a revoked node, whatever events and timeouts it
  receives, stays revoked or is removed, and its opcode gate refuses every
  opcode with error 508.
\<close>

theorem revocation_final:
  assumes "nl_reach f" and "get_state f = Some REVOKED" and "fsm_reach f g"
  shows "(get_state g = Some REVOKED \<or> get_state g = Some REMOVED) \<and>
         check_opcode_allowed g opcode = Err (smo_err CatSession 508 SevError NoRetry RecNone)"
proof -
  have tab: "fsm_transitions f = nl_table"
    using nl_reach_inv [OF assms(1)] by (simp add: nl_inv_def)
  have "fsm_current g \<in> {nls_code REVOKED, nls_code REMOVED}"
    using assms(3)
  proof (rule fsm_reach_closed)
    show "fsm_current f \<in> {nls_code REVOKED, nls_code REMOVED}"
      using assms(2) by (simp add: get_state_def nls_of_Some)
    fix s e t assume s: "s \<in> {nls_code REVOKED, nls_code REMOVED}"
      and t: "table_step (fsm_transitions f) s e = Some t"
    from s obtain s' where s': "s = nls_code s'" "s' \<in> {REVOKED, REMOVED}" by blast
    then obtain ev where "e = nle_code ev" using t tab nl_table_cases by metis
    with s' t tab obtain t' where "nl_next s' ev = Some t'" "t = nls_code t'"
      by (auto simp: fsm_eval)
    with s' show "t \<in> {nls_code REVOKED, nls_code REMOVED}"
      by (cases ev) (auto simp: only_if_def simp del: nls_code.simps split: if_splits)
  qed
  then show ?thesis
    by (auto simp: get_state_def check_opcode_allowed_def simp del: nls_code.simps)
qed

definition demo_revoked :: NodeLifecycleFSM where
  "demo_revoked = fst (nl_on_event 5 CERT_REVOKED demo_bootstrapping)"

lemma demo_revoked_reach: "nl_reach demo_revoked"
  unfolding demo_revoked_def by (intro nl_reach.intros demo_bootstrapping_reach)

lemma demo_revoked_state: "get_state demo_revoked = Some REVOKED"
  using nl_on_event_spec [OF nl_reach_inv [OF demo_bootstrapping_reach] demo_bootstrapping_state]
  by (simp add: demo_revoked_def only_if_def)

theorem revocation_final_witness:
  "get_state demo_revoked = Some REVOKED \<and>
   check_opcode_allowed (fst (nl_on_event 6 RECONNECT demo_revoked)) 0x33 =
     Err (smo_err CatSession 508 SevError NoRetry RecNone)"
proof -
  have "fsm_reach demo_revoked (fst (nl_on_event 6 RECONNECT demo_revoked))"
    unfolding nl_on_event_def by (intro fsm_reach.intros)
  from revocation_final [OF demo_revoked_reach demo_revoked_state this, of "0x33"]
  show ?thesis using demo_revoked_state by simp
qed

text \<open>
  The fallback states of the timeout table are never used: in every reachable
  state a timeout returns an error and changes nothing, because the transition
  table has no rule for the timeout event.
\<close>

lemma node_timeout_never_falls_back:
  assumes "nl_reach f"
  shows "fst (nl_on_timeout now f) = f \<and> \<not> is_ok (snd (nl_on_timeout now f))"
  using nl_reach_inv [OF assms] by (rule on_timeout_fails)

lemma node_timeout_never_falls_back_example:
  "get_state (fst (nl_on_timeout 40000000000 demo_bootstrapping)) = Some BOOTSTRAPPING \<and>
   fallback_state demo_bootstrapping = nls_code CERTIFIED \<and>
   max_dwell_ns demo_bootstrapping = 30 * SEC"
proof -
  have "fsm_timeouts demo_bootstrapping = fsm_timeouts nl_new"
    using nl_reach_inv [OF demo_bootstrapping_reach] by (simp add: nl_inv_def)
  moreover have "fsm_current demo_bootstrapping = 4"
    using demo_bootstrapping_state by (simp add: get_state_def nls_of_Some)
  moreover have "fsm_timeouts nl_new 4 = Some (dwell 4 (30 * SEC) 3)"
    by (simp add: nl_new_def set_timeouts_def build_timeouts_def)
  ultimately show ?thesis
    using node_timeout_never_falls_back [OF demo_bootstrapping_reach] demo_bootstrapping_state
    by (simp add: fallback_state_def max_dwell_ns_def)
qed

end
