(* ===== verification/Mesh_Fsm.thy ===== *)
theory Mesh_Fsm
  imports Fsm
begin

text \<open>
  MeshFsm (core/mesh/mesh_fsm.hpp, .cpp) and MeshState (core/mesh/mesh_state.hpp):
  the lifecycle of a mesh and the gate on bootstrap certificate signing.  The
  signing itself is an operation of the authority; it is an argument here.
\<close>

section \<open>States, events and tables\<close>

datatype MeshState = Draft | Genesis | Bootstrap | Online | Maintenance | MRecovery | Archived

primrec mesh_code :: "MeshState \<Rightarrow> byte" where
  "mesh_code Draft = 0"
| "mesh_code Genesis = 1"
| "mesh_code Bootstrap = 2"
| "mesh_code Online = 3"
| "mesh_code Maintenance = 4"
| "mesh_code MRecovery = 5"
| "mesh_code Archived = 6"

primrec mesh_to_string :: "MeshState \<Rightarrow> string" where
  "mesh_to_string Draft = ''Draft''"
| "mesh_to_string Genesis = ''Genesis''"
| "mesh_to_string Bootstrap = ''Bootstrap''"
| "mesh_to_string Online = ''Online''"
| "mesh_to_string Maintenance = ''Maintenance''"
| "mesh_to_string MRecovery = ''Recovery''"
| "mesh_to_string Archived = ''Archived''"

primrec is_valid_transition :: "MeshState \<Rightarrow> MeshState \<Rightarrow> bool" where
  "is_valid_transition Draft to = (to = Genesis)"
| "is_valid_transition Genesis to = (to = Bootstrap)"
| "is_valid_transition Bootstrap to = (to = Online \<or> to = MRecovery)"
| "is_valid_transition Online to = (to = Maintenance \<or> to = MRecovery \<or> to = Archived)"
| "is_valid_transition Maintenance to = (to = Online \<or> to = MRecovery)"
| "is_valid_transition MRecovery to = (to = Online \<or> to = Archived)"
| "is_valid_transition Archived to = False"

datatype MeshEvent =
    StartGenesis | BootstrapReady | AllSlotsFulfilled | EnterMaintenance | ExitMaintenance
  | TriggerRecovery | RecoveryComplete | Archive | MTimeout

primrec mesh_event_code :: "MeshEvent \<Rightarrow> FsmEvent" where
  "mesh_event_code StartGenesis = 100"
| "mesh_event_code BootstrapReady = 101"
| "mesh_event_code AllSlotsFulfilled = 102"
| "mesh_event_code EnterMaintenance = 103"
| "mesh_event_code ExitMaintenance = 104"
| "mesh_event_code TriggerRecovery = 105"
| "mesh_event_code RecoveryComplete = 106"
| "mesh_event_code Archive = 107"
| "mesh_event_code MTimeout = -1"

text \<open>(int64_t)MeshState::X widens the enumerator.\<close>

abbreviation mesh_fsm_code :: "MeshState \<Rightarrow> FsmState" where
  "mesh_fsm_code s \<equiv> ucast (mesh_code s)"

abbreviation mesh_rule :: "MeshState \<Rightarrow> MeshEvent \<Rightarrow> MeshState \<Rightarrow> TransitionRule" where
  "mesh_rule s e t \<equiv> rule (mesh_fsm_code s) (mesh_event_code e) (mesh_fsm_code t)"

definition default_rules :: "TransitionRule list" where
  "default_rules =
    [mesh_rule Draft StartGenesis Genesis,
     mesh_rule Genesis BootstrapReady Bootstrap,
     mesh_rule Bootstrap AllSlotsFulfilled Online,
     mesh_rule Bootstrap TriggerRecovery MRecovery,
     mesh_rule Online EnterMaintenance Maintenance,
     mesh_rule Maintenance ExitMaintenance Online,
     mesh_rule Online TriggerRecovery MRecovery,
     mesh_rule Online Archive Archived,
     mesh_rule Maintenance TriggerRecovery MRecovery,
     mesh_rule MRecovery RecoveryComplete Online,
     mesh_rule MRecovery Archive Archived,
     mesh_rule Bootstrap MTimeout MRecovery,
     mesh_rule Genesis MTimeout Draft]"

definition default_timeouts :: "StateTimeout list" where
  "default_timeouts =
    [dwell (mesh_fsm_code Genesis) (5 * 60 * 1000000000) (mesh_fsm_code Draft),
     dwell (mesh_fsm_code Bootstrap) (30 * 60 * 1000000000) (mesh_fsm_code MRecovery),
     dwell (mesh_fsm_code Online) 0 (mesh_fsm_code Online),
     dwell (mesh_fsm_code Maintenance) (24 * 60 * 60 * 1000000000) (mesh_fsm_code MRecovery),
     dwell (mesh_fsm_code MRecovery) (72 * 60 * 60 * 1000000000) (mesh_fsm_code Archived)]"

section \<open>Operations\<close>

text \<open>'req and 'cert are the request and certificate types of the authority; a
  null authority pointer is None.\<close>

record ('req, 'cert) MeshFsm =
  mesh_fsm :: FsmInstance
  mesh_authority :: "('req \<Rightarrow> 'cert result) option"

definition mesh_new :: "('req \<Rightarrow> 'cert result) option \<Rightarrow> ('req, 'cert) MeshFsm" where
  "mesh_new auth =
     \<lparr>mesh_fsm = reset (mesh_fsm_code Draft)
        (set_timeouts default_timeouts (set_transitions default_rules fsm_new)),
      mesh_authority = auth\<rparr>"

definition mesh_on_event ::
  "u64 \<Rightarrow> MeshEvent \<Rightarrow> ('req, 'cert) MeshFsm \<Rightarrow> ('req, 'cert) MeshFsm \<times> unit result" where
  "mesh_on_event now ev m =
     (let (f, r) = on_event now (mesh_event_code ev) (mesh_fsm m) in (m\<lparr>mesh_fsm := f\<rparr>, r))"

text \<open>(MeshState)fsm.current_state() keeps the low byte of the stored value.\<close>

definition all_mesh_states :: "MeshState list" where
  "all_mesh_states = [Draft, Genesis, Bootstrap, Online, Maintenance, MRecovery, Archived]"

definition mesh_current_state :: "('req, 'cert) MeshFsm \<Rightarrow> MeshState option" where
  "mesh_current_state m = find (\<lambda>s. mesh_code s = ucast (fsm_current (mesh_fsm m))) all_mesh_states"

definition is_online :: "('req, 'cert) MeshFsm \<Rightarrow> bool" where
  "is_online m = (mesh_current_state m = Some Online)"

definition is_bootstrapping :: "('req, 'cert) MeshFsm \<Rightarrow> bool" where
  "is_bootstrapping m =
     (mesh_current_state m = Some Genesis \<or> mesh_current_state m = Some Bootstrap)"

definition is_terminal :: "('req, 'cert) MeshFsm \<Rightarrow> bool" where
  "is_terminal m = (mesh_current_state m = Some Archived)"

definition recent_history :: "nat \<Rightarrow> ('req, 'cert) MeshFsm \<Rightarrow> TransitionRecord list" where
  "recent_history n m =
     (let h = fsm_history (mesh_fsm m)
      in if length h \<le> n then h else drop (length h - n) h)"

definition sign_bootstrap_csr :: "'req \<Rightarrow> ('req, 'cert) MeshFsm \<Rightarrow> 'cert result" where
  "sign_bootstrap_csr req m =
     (case mesh_authority m of
        None \<Rightarrow> Err (smo_err CatInternal 1 SevError NoRetry ManualIntervention)
      | Some sign \<Rightarrow>
          if mesh_current_state m \<noteq> Some Genesis \<and> mesh_current_state m \<noteq> Some Bootstrap
          then Err (smo_err CatInternal 2 SevError NoRetry ManualIntervention)
          else sign req)"

section \<open>The table as a function\<close>

abbreviation mesh_table :: "FsmState \<rightharpoonup> (FsmEvent \<rightharpoonup> FsmState)" where
  "mesh_table \<equiv> foldl add_rule Map.empty default_rules"

interpretation mesh_tab: fsm_table default_rules
  by unfold_locales (simp add: default_rules_def)

lemma mesh_code_inject [simp]: "mesh_code s = mesh_code t \<longleftrightarrow> s = t"
  by (cases s; cases t; simp)

lemma mesh_fsm_code_inject: "mesh_fsm_code s = mesh_fsm_code t \<longleftrightarrow> s = t"
  by (cases s; cases t; simp)

lemma mesh_event_code_inject: "mesh_event_code e = mesh_event_code d \<longleftrightarrow> e = d"
  by (cases e; cases d; simp)

lemma ucast_mesh_code: "(ucast (mesh_fsm_code s) :: byte) = mesh_code s"
  by (cases s) simp_all

lemma mesh_current_stateI:
  "fsm_current (mesh_fsm m) = mesh_fsm_code s \<Longrightarrow> mesh_current_state m = Some s"
  by (simp add: mesh_current_state_def ucast_mesh_code del: mesh_code.simps)
    (cases s; simp add: all_mesh_states_def)

lemma mesh_step_target:
  assumes "table_step mesh_table (mesh_fsm_code s) e = Some c"
  obtains t ev where "c = mesh_fsm_code t" "e = mesh_event_code ev"
    "mesh_rule s ev t \<in> set default_rules"
proof -
  have mem: "rule (mesh_fsm_code s) e c \<in> set default_rules"
    using assms by (simp add: mesh_tab.table_step_iff)
  moreover have "\<exists>ev t. r = rule (tr_from r) (mesh_event_code ev) (mesh_fsm_code t)"
    if "r \<in> set default_rules" for r
    using that by (auto simp add: default_rules_def simp del: mesh_code.simps mesh_event_code.simps)
  ultimately show ?thesis using that
    by (metis TransitionRule.select_convs(1,2,3))
qed

lemma mesh_rule_valid:
  "mesh_rule s e t \<in> set default_rules \<Longrightarrow>
   is_valid_transition s t \<or> (s = Genesis \<and> e = MTimeout \<and> t = Draft)"
  by (auto simp: default_rules_def mesh_fsm_code_inject mesh_event_code_inject
      simp del: mesh_code.simps mesh_event_code.simps)

section \<open>What the lifecycle guarantees\<close>

text \<open>
  The transition table and is_valid_transition describe the same lifecycle:
  from a mesh state the table leads to a state exactly when is_valid_transition
  allows it, except for the timeout that takes Genesis back to Draft, which
  is_valid_transition does not list.
\<close>

lemma mesh_table_matches_valid_transitions:
  "(\<exists>e. table_step mesh_table (mesh_fsm_code s) e = Some (mesh_fsm_code t)) \<longleftrightarrow>
   is_valid_transition s t \<or> (s = Genesis \<and> t = Draft)"
proof
  assume "\<exists>e. table_step mesh_table (mesh_fsm_code s) e = Some (mesh_fsm_code t)"
  then obtain e where "table_step mesh_table (mesh_fsm_code s) e = Some (mesh_fsm_code t)" ..
  then obtain t' ev where "mesh_fsm_code t = mesh_fsm_code t'" "mesh_rule s ev t' \<in> set default_rules"
    by (rule mesh_step_target)
  then show "is_valid_transition s t \<or> (s = Genesis \<and> t = Draft)"
    using mesh_rule_valid mesh_fsm_code_inject by metis
next
  assume "is_valid_transition s t \<or> (s = Genesis \<and> t = Draft)"
  then have "\<exists>ev. mesh_rule s ev t \<in> set default_rules"
    by (cases s) (auto simp: default_rules_def mesh_fsm_code_inject mesh_event_code_inject
        simp del: mesh_code.simps mesh_event_code.simps)
  then show "\<exists>e. table_step mesh_table (mesh_fsm_code s) e = Some (mesh_fsm_code t)"
    using mesh_tab.table_step_iff by blast
qed

text \<open>A mesh that has left bootstrap: none of its successors is Genesis, Bootstrap
  or Draft.\<close>

definition past_bootstrap :: "MeshState set" where
  "past_bootstrap = {Online, Maintenance, MRecovery, Archived}"

lemma past_bootstrap_closed:
  assumes "s \<in> past_bootstrap" and "table_step mesh_table (mesh_fsm_code s) e = Some c"
  shows "c \<in> mesh_fsm_code ` past_bootstrap"
proof -
  from assms(2) obtain t ev where t: "c = mesh_fsm_code t" "mesh_rule s ev t \<in> set default_rules"
    by (rule mesh_step_target)
  from mesh_rule_valid [OF t(2)] assms(1) have "t \<in> past_bootstrap"
    by (auto simp: past_bootstrap_def)
  with t show ?thesis by blast
qed

text \<open>
  C25. Once a mesh has gone online (or into recovery), bootstrap certificates are
  never signed again: whatever events and timeouts follow, sign_bootstrap_csr
  refuses without calling the authority.
\<close>

theorem no_bootstrap_signing_after_online:
  assumes "fsm_reach (mesh_fsm (mesh_new auth)) f"
    and "fsm_current f \<in> mesh_fsm_code ` past_bootstrap"
    and "fsm_reach f g"
  shows "sign_bootstrap_csr req \<lparr>mesh_fsm = g, mesh_authority = auth\<rparr> =
     Err (smo_err CatInternal (if auth = None then 1 else 2) SevError NoRetry ManualIntervention)"
proof -
  have tab: "fsm_transitions f = mesh_table"
    using fsm_reach_config [OF assms(1)] by (simp add: mesh_new_def)
  have "fsm_current g \<in> mesh_fsm_code ` past_bootstrap"
    using assms(3,2) by (rule fsm_reach_closed) (use tab past_bootstrap_closed in auto)
  then obtain s where "s \<in> past_bootstrap" "fsm_current g = mesh_fsm_code s" by blast
  then show ?thesis
    by (auto simp: sign_bootstrap_csr_def past_bootstrap_def mesh_current_stateI
        simp del: mesh_code.simps split: option.splits)
qed

definition demo_online :: FsmInstance where
  "demo_online = fst (on_event 3 102 (fst (on_event 2 101 (fst (on_event 1 100
     (mesh_fsm (mesh_new (Some (\<lambda>r :: unit. Ok r)))))))))"

lemma demo_online_reach:
  "fsm_reach (mesh_fsm (mesh_new (Some (\<lambda>r :: unit. Ok r)))) demo_online"
  unfolding demo_online_def by (intro fsm_reach.intros)

lemma demo_online_state: "fsm_current demo_online = mesh_fsm_code Online"
proof -
  have "table_step mesh_table 0 100 = Some 1" "table_step mesh_table 1 101 = Some 2"
    "table_step mesh_table 2 102 = Some 3"
    by (simp_all add: table_step_add_rule default_rules_def)
  then show ?thesis
    by (simp add: demo_online_def on_event_current mesh_new_def)
qed

theorem no_bootstrap_signing_after_online_witness:
  "sign_bootstrap_csr () \<lparr>mesh_fsm = fst (on_event 4 103 demo_online),
                           mesh_authority = Some (\<lambda>r :: unit. Ok r)\<rparr> =
     Err (smo_err CatInternal 2 SevError NoRetry ManualIntervention)"
proof -
  have "fsm_current demo_online \<in> mesh_fsm_code ` past_bootstrap"
    using demo_online_state by (simp add: past_bootstrap_def)
  moreover have "fsm_reach demo_online (fst (on_event 4 103 demo_online))"
    by (intro fsm_reach.intros)
  ultimately show ?thesis
    using no_bootstrap_signing_after_online [OF demo_online_reach] by fastforce
qed

text \<open>
  The dwell limits of Maintenance and Recovery have no effect: their timeouts
  return an error and leave the mesh where it is, although the timeout table
  names Recovery and Archived as their fallback states.
\<close>

lemma mesh_timeout_without_rule:
  assumes "fsm_reach (mesh_fsm (mesh_new auth)) f"
    and "fsm_current f = mesh_fsm_code Maintenance \<or> fsm_current f = mesh_fsm_code MRecovery"
  shows "on_timeout now f = (f, Err err_invalid_transition) \<and>
         max_dwell_ns f \<noteq> 0 \<and> fallback_state f \<noteq> fsm_current f"
proof -
  have tab: "fsm_transitions f = mesh_table \<and>
      fsm_timeouts f = fsm_timeouts (set_timeouts default_timeouts (set_transitions default_rules fsm_new))"
    using fsm_reach_config [OF assms(1)] by (simp add: mesh_new_def)
  then have dwl: "max_dwell_ns f \<noteq> 0 \<and> fallback_state f \<noteq> fsm_current f"
    using assms(2)
    by (auto simp: max_dwell_ns_def fallback_state_def set_timeouts_def default_timeouts_def)
  have "mesh_table 4 \<noteq> None" "mesh_table 5 \<noteq> None"
    unfolding table_None_iff by (simp_all add: default_rules_def)
  moreover have "table_step mesh_table 4 (-1) = None" "table_step mesh_table 5 (-1) = None"
    by (simp_all add: table_step_add_rule default_rules_def)
  ultimately have "on_event now (-1) f = (f, Err err_invalid_transition)"
    using assms(2) tab by (auto simp: on_event_def table_step_def split: option.splits)
  then show ?thesis using dwl by (simp add: on_timeout_event)
qed

lemma mesh_timeout_without_rule_example:
  "on_timeout 99 (fst (on_event 4 103 demo_online)) =
     (fst (on_event 4 103 demo_online), Err err_invalid_transition)"
proof -
  let ?f = "fst (on_event 4 103 demo_online)"
  have r: "fsm_reach (mesh_fsm (mesh_new (Some (\<lambda>r :: unit. Ok r)))) ?f"
    by (intro fsm_reach.intros demo_online_reach)
  have "fsm_transitions demo_online = mesh_table"
    using fsm_reach_config [OF demo_online_reach] by (simp add: mesh_new_def)
  moreover have "table_step mesh_table 3 103 = Some 4"
    by (simp add: table_step_add_rule default_rules_def)
  ultimately have "fsm_current ?f = mesh_fsm_code Maintenance"
    by (simp add: on_event_current demo_online_state)
  then show ?thesis using mesh_timeout_without_rule [OF r] by blast
qed

end
