(* ===== verification/Gf256.thy ===== *)
theory Gf256
  imports Smo_Prelude
begin

text \<open>
  The arithmetic of GF(256) in core/crypto/shamir.cpp (namespace shamir_detail):
  shift-and-add multiplication on bytes and powers by repeated squaring.  The
  bytes with these operations are shown to form a field.
\<close>

section \<open>The operations of the code\<close>

text \<open>One round of the loop of gf_mul shifts a and reduces it.\<close>

definition xtime :: "byte \<Rightarrow> byte" where
  "xtime a = (if a AND 0x80 \<noteq> 0 then push_bit 1 a XOR 0x1D else push_bit 1 a)"

primrec gf_mul_loop :: "nat \<Rightarrow> byte \<Rightarrow> byte \<Rightarrow> u16 \<Rightarrow> u16" where
  "gf_mul_loop 0 a b result = result"
| "gf_mul_loop (Suc i) a b result =
     gf_mul_loop i (xtime a) (drop_bit 1 b)
       (if b AND 1 \<noteq> 0 then result XOR ucast a else result)"

definition gf_mul :: "byte \<Rightarrow> byte \<Rightarrow> byte" where
  "gf_mul a b = ucast (gf_mul_loop 8 a b 0)"

definition gf_add :: "byte \<Rightarrow> byte \<Rightarrow> byte" where
  "gf_add a b = a XOR b"

function gf_pow_loop :: "byte \<Rightarrow> byte \<Rightarrow> int \<Rightarrow> byte" where
  "gf_pow_loop result a n =
     (if n > 0
      then gf_pow_loop (if n AND 1 \<noteq> 0 then gf_mul result a else result) (gf_mul a a) (n div 2)
      else result)"
  by auto
termination
  by (relation "measure (\<lambda>(r, a, n). nat n)") auto

definition gf_pow :: "byte \<Rightarrow> int \<Rightarrow> byte" where
  "gf_pow a n = gf_pow_loop 1 a n"

definition gf_inv :: "byte \<Rightarrow> byte" where
  "gf_inv a = gf_pow a 254"

definition gf_div :: "byte \<Rightarrow> byte \<Rightarrow> byte" where
  "gf_div a b = gf_mul a (gf_inv b)"

declare gf_pow_loop.simps [simp del]

section \<open>Multiplication as a sum of shifts\<close>

lemma xor_self_byte [simp]: "(a :: byte) XOR a = 0"
  by (rule bit_word_eqI) (simp add: bit_simps)

lemma xor_left_self [simp]: "(a :: byte) XOR (a XOR b) = b"
  by (rule bit_word_eqI) (auto simp: bit_simps)

lemma xor_ac:
  fixes a b c :: byte
  shows "a XOR b = b XOR a" "(a XOR b) XOR c = a XOR (b XOR c)" "b XOR (a XOR c) = a XOR (b XOR c)"
  by (rule bit_word_eqI; auto simp: bit_simps)+

lemma and_0x80: "(a AND 0x80 \<noteq> (0 :: byte)) = bit a 7"
proof -
  have "a AND 0x80 = (if bit a 7 then 0x80 else (0 :: byte))"
  proof (rule bit_word_eqI)
    fix k assume "k < LENGTH(8)"
    moreover have "bit (0x80 :: byte) k \<longleftrightarrow> k = 7" if "k < 8"
    proof -
      have "(0x80 :: byte) = push_bit 7 1" by simp
      then show ?thesis using that by (simp only: bit_simps) auto
    qed
    ultimately show "bit (a AND 0x80) k = bit (if bit a 7 then 0x80 else (0 :: byte)) k"
      by (auto simp: bit_simps)
  qed
  then show ?thesis by simp
qed

lemma xtime_xor: "xtime (a XOR b) = xtime a XOR xtime b"
proof -
  have "push_bit 1 (a XOR b) = push_bit 1 a XOR push_bit 1 b"
    by (rule bit_word_eqI) (auto simp: bit_simps)
  then show ?thesis
    by (auto simp: xtime_def and_0x80 bit_simps xor_ac)
qed

lemma xtime_0 [simp]: "xtime 0 = 0"
  by (simp add: xtime_def)

text \<open>The specification of the loop: the shifts of a selected by the bits of b.\<close>

primrec gf_sum :: "nat \<Rightarrow> byte \<Rightarrow> byte \<Rightarrow> byte" where
  "gf_sum 0 a b = 0"
| "gf_sum (Suc i) a b = (if b AND 1 \<noteq> 0 then a else 0) XOR gf_sum i (xtime a) (drop_bit 1 b)"

lemma gf_mul_loop_sum: "ucast (gf_mul_loop i a b r) = ucast r XOR gf_sum i a b"
proof (induction i arbitrary: a b r)
  case (Suc i)
  have "(ucast (r XOR ucast a :: u16) :: byte) = ucast r XOR a"
    by (rule bit_word_eqI) (auto simp: bit_simps)
  then show ?case using Suc by (simp add: xor_ac)
qed simp

lemma gf_mul_sum: "gf_mul a b = gf_sum 8 a b"
  by (simp add: gf_mul_def gf_mul_loop_sum)

lemma gf_sum_xor: "gf_sum i (a XOR c) b = gf_sum i a b XOR gf_sum i c b"
  by (induction i arbitrary: a c b) (simp_all add: xtime_xor xor_ac)

lemma gf_sum_xtime: "gf_sum i (xtime a) b = xtime (gf_sum i a b)"
  by (induction i arbitrary: a b) (simp_all add: xtime_xor)

lemma gf_sum_0 [simp]: "gf_sum i 0 b = 0"
  by (induction i arbitrary: b) simp_all

lemma gf_sum_commute: "gf_sum i (gf_sum j a c) b = gf_sum j (gf_sum i a b) c"
  by (induction j arbitrary: a c)
    (simp_all add: gf_sum_xor gf_sum_xtime)

lemma gf_mul_distrib: "gf_mul (a XOR c) b = gf_mul a b XOR gf_mul c b"
  by (simp add: gf_mul_sum gf_sum_xor)

text \<open>One is neutral: the shifts of 1 are the powers of two.\<close>

lemma byte_bit_cases:
  assumes "k < LENGTH(8)"
  shows "k = 0 \<or> k = 1 \<or> k = 2 \<or> k = 3 \<or> k = 4 \<or> k = 5 \<or> k = 6 \<or> k = 7"
  using assms by auto

lemma byte_bits:
  "(b :: byte) = (if bit b 0 then 1 else 0) XOR (if bit b 1 then 2 else 0) XOR
      (if bit b 2 then 4 else 0) XOR (if bit b 3 then 8 else 0) XOR
      (if bit b 4 then 16 else 0) XOR (if bit b 5 then 32 else 0) XOR
      (if bit b 6 then 64 else 0) XOR (if bit b 7 then 128 else 0)" (is "_ = ?rhs")
proof (rule bit_word_eqI)
  fix k assume "k < LENGTH(8)"
  from byte_bit_cases [OF this] show "bit b k = bit ?rhs k"
    by (elim disjE) (simp_all add: bit_simps)
qed

lemma byte_xor_induct:
  assumes "P 0" "P 1" "P 2" "P 4" "P 8" "P 16" "P 32" "P 64" "P 128"
    and "\<And>a b. P a \<Longrightarrow> P b \<Longrightarrow> P (a XOR b)"
  shows "P (x :: byte)"
  by (subst byte_bits [of x], (rule assms(10) | (simp add: assms(1-9); fail))+)

lemma gf_sum_pow2:
  "n + i \<le> 8 \<Longrightarrow> gf_sum i (push_bit n 1) b = push_bit n (take_bit i b)"
proof (induction i arbitrary: n b)
  case (Suc i)
  have b1: "(b AND 1 \<noteq> 0) = bit b 0"
    by (simp add: and_one_eq bit_0 odd_iff_mod_2_eq_one)
  have "gf_sum i (xtime (push_bit n 1)) (drop_bit 1 b) = push_bit (n + 1) (take_bit i (drop_bit 1 b))"
  proof (cases i)
    case (Suc j)
    then have "n < 7" using Suc.prems by simp
    then have "xtime (push_bit n 1) = push_bit (n + 1) 1"
      by (simp add: xtime_def and_0x80 bit_simps)
    then show ?thesis using Suc.IH [of "n + 1"] Suc.prems by simp
  qed simp
  moreover have "(if bit b 0 then push_bit n 1 else 0) XOR push_bit (n + 1) (take_bit i (drop_bit 1 b))
      = push_bit n (take_bit (Suc i) b)"
  proof (rule bit_word_eqI)
    fix k assume "k < LENGTH(8)"
    consider "k < n" | "k = n" | j where "k = Suc (n + j)"
      by (metis add_Suc_right less_imp_Suc_add linorder_neqE_nat)
    then show "bit ((if bit b 0 then push_bit n 1 else 0) XOR push_bit (n + 1) (take_bit i (drop_bit 1 b))) k
        = bit (push_bit n (take_bit (Suc i) b)) k"
      using \<open>k < LENGTH(8)\<close> by cases (auto simp: bit_simps simp del: push_bit_Suc)
  qed
  ultimately show ?case by (simp only: gf_sum.simps b1)
qed simp

lemma gf_mul_1_left: "gf_mul 1 b = b"
  using gf_sum_pow2 [of 0 8 b] by (simp add: gf_mul_sum take_bit_word_eq_self)

lemma gf_mul_commute: "gf_mul a b = gf_mul b a"
  by (metis gf_mul_1_left gf_mul_sum gf_sum_commute)

lemma gf_mul_assoc: "gf_mul (gf_mul a b) c = gf_mul a (gf_mul b c)"
  by (metis gf_mul_commute gf_mul_sum gf_sum_commute)

section \<open>The field\<close>

typedef gf256 = "UNIV :: byte set"
  morphisms to_byte GF
  by simp

setup_lifting type_definition_gf256

instantiation gf256 :: comm_ring_1
begin
lift_definition zero_gf256 :: gf256 is 0 .
lift_definition one_gf256 :: gf256 is 1 .
lift_definition plus_gf256 :: "gf256 \<Rightarrow> gf256 \<Rightarrow> gf256" is gf_add .
lift_definition minus_gf256 :: "gf256 \<Rightarrow> gf256 \<Rightarrow> gf256" is gf_add .
lift_definition uminus_gf256 :: "gf256 \<Rightarrow> gf256" is "\<lambda>a. a" .
lift_definition times_gf256 :: "gf256 \<Rightarrow> gf256 \<Rightarrow> gf256" is gf_mul .
instance
proof
  fix a b c :: gf256
  show "a + b + c = a + (b + c)" by transfer (simp add: gf_add_def xor_ac)
  show "a + b = b + a" by transfer (simp add: gf_add_def xor_ac)
  show "0 + a = a" by transfer (simp add: gf_add_def)
  show "- a + a = 0" by transfer (simp add: gf_add_def)
  show "a - b = a + - b" by transfer simp
  show "a * b * c = a * (b * c)" by transfer (simp add: gf_mul_assoc)
  show "a * b = b * a" by transfer (rule gf_mul_commute)
  show "1 * a = a" by transfer (rule gf_mul_1_left)
  show "(a + b) * c = a * c + b * c" by transfer (simp add: gf_add_def gf_mul_distrib)
  show "(0 :: gf256) \<noteq> 1" by transfer simp
qed
end

lemma gf_two_zero [simp]: "a + a = (0 :: gf256)"
  by transfer (simp add: gf_add_def)

lemma gf_2 [simp]: "(2 :: gf256) = 0"
  by (simp flip: one_add_one)

lemma gf_add_square: "(a + b) ^ 2 = a ^ 2 + (b ^ 2 :: gf256)"
  by (simp add: power2_eq_square algebra_simps)

lemma GF_xor: "GF (a XOR b) = GF a + GF b"
  by (simp add: plus_gf256.abs_eq gf_add_def)

lemma GF_mul: "GF (gf_mul a b) = GF a * GF b"
  by (simp add: times_gf256.abs_eq)

lemma GF_0: "GF 0 = 0" and GF_1: "GF 1 = 1"
  by (simp_all add: zero_gf256.abs_eq one_gf256.abs_eq)

lemma GF_eq_iff [simp]: "GF a = GF b \<longleftrightarrow> a = b"
  by (simp add: GF_inject)

lemma GF_eq_0 [simp]: "GF a = 0 \<longleftrightarrow> a = 0"
  using GF_eq_iff [of a 0] by (simp add: GF_0)

text \<open>Squares of the powers of two.\<close>

lemma and_one_bit: "(drop_bit n b AND 1 \<noteq> (0 :: byte)) = bit b n"
  by (simp add: and_one_eq bit_iff_odd_drop_bit odd_iff_mod_2_eq_one)

lemma gf_mul_unroll:
  "gf_mul a b =
     (if bit b 0 then a else 0) XOR (if bit b 1 then xtime a else 0) XOR
     (if bit b 2 then xtime (xtime a) else 0) XOR
     (if bit b 3 then xtime (xtime (xtime a)) else 0) XOR
     (if bit b 4 then xtime (xtime (xtime (xtime a))) else 0) XOR
     (if bit b 5 then xtime (xtime (xtime (xtime (xtime a)))) else 0) XOR
     (if bit b 6 then xtime (xtime (xtime (xtime (xtime (xtime a))))) else 0) XOR
     (if bit b 7 then xtime (xtime (xtime (xtime (xtime (xtime (xtime a)))))) else 0)"
proof -
  have b0: "(b AND 1 \<noteq> 0) = bit b 0"
    using and_one_bit [of 0 b] by (simp only: drop_bit_0 id_apply)
  have 8: "gf_mul a b = gf_sum (Suc (Suc (Suc (Suc (Suc (Suc (Suc (Suc 0)))))))) a b"
    by (simp add: gf_mul_sum numeral_eq_Suc del: gf_sum.simps)
  show ?thesis
    unfolding 8 gf_sum.simps drop_bit_drop_bit and_one_bit b0
    by (simp add: numeral_eq_Suc split del: if_split)
qed

lemma gf_squares:
  "gf_mul 2 2 = 4" "gf_mul 4 4 = 16" "gf_mul 8 8 = 64" "gf_mul 16 16 = 29"
  "gf_mul 32 32 = 116" "gf_mul 64 64 = 205" "gf_mul 128 128 = 19"
  by (simp_all add: gf_mul_unroll xtime_def)

lemma GF_squares:
  "GF 2 ^ 2 = GF 4" "GF 4 ^ 2 = GF 16" "GF 8 ^ 2 = GF 64" "GF 16 ^ 2 = GF 29"
  "GF 32 ^ 2 = GF 116" "GF 64 ^ 2 = GF 205" "GF 128 ^ 2 = GF 19"
  by (simp_all add: power2_eq_square gf_squares flip: GF_mul)

text \<open>Squaring fixes only 0 and 1: the bits of b and of its square.\<close>

lemma GF_square_bits:
  "GF b ^ 2 = GF ((if bit b 0 then 1 else 0) XOR (if bit b 1 then 4 else 0) XOR
      (if bit b 2 then 16 else 0) XOR (if bit b 3 then 64 else 0) XOR
      (if bit b 4 then 29 else 0) XOR (if bit b 5 then 116 else 0) XOR
      (if bit b 6 then 205 else 0) XOR (if bit b 7 then 19 else 0))"
proof -
  have if_sq: "GF (if c then u else 0) ^ 2 = GF (if c then v else 0)" if "GF u ^ 2 = GF v" for c u v
    using that by (simp add: GF_0)
  have "GF 1 ^ 2 = GF 1" by (simp add: GF_1)
  note sq = if_sq [OF this] if_sq [OF GF_squares(1)] if_sq [OF GF_squares(2)]
    if_sq [OF GF_squares(3)] if_sq [OF GF_squares(4)] if_sq [OF GF_squares(5)]
    if_sq [OF GF_squares(6)] if_sq [OF GF_squares(7)]
  show ?thesis
    by (subst byte_bits [of b]) (simp only: GF_xor gf_add_square sq)
qed

lemma gf_idempotent:
  assumes "a ^ 2 = (a :: gf256)"
  shows "a = 0 \<or> a = 1"
proof -
  obtain b where b: "a = GF b" by (metis to_byte_inverse)
  from assms have "b = (if bit b 0 then 1 else 0) XOR (if bit b 1 then 4 else 0) XOR
      (if bit b 2 then 16 else 0) XOR (if bit b 3 then 64 else 0) XOR
      (if bit b 4 then 29 else 0) XOR (if bit b 5 then 116 else 0) XOR
      (if bit b 6 then 205 else 0) XOR (if bit b 7 then 19 else 0)" (is "_ = ?sq")
    unfolding b GF_square_bits GF_eq_iff by (rule sym)
  then have eq: "bit b k = bit ?sq k" for k by (rule arg_cong)
  have "\<not> bit b 7" "\<not> bit b 6" "\<not> bit b 5" "\<not> bit b 4" "\<not> bit b 3" "\<not> bit b 2" "\<not> bit b 1"
    using eq [of 0] eq [of 1] eq [of 2] eq [of 3] eq [of 4] eq [of 6] eq [of 7]
    by (auto simp: bit_simps split: if_splits)
  then have "b = 0 \<or> b = 1" using byte_bits [of b] by (simp split: if_splits)
  then show ?thesis using b by (auto simp: GF_0 GF_1)
qed

text \<open>The generator x has order 255; the 256-th power is the identity.\<close>

lemma gf_add_pow2: "(a + b) ^ (2 ^ k) = a ^ (2 ^ k) + (b ^ (2 ^ k) :: gf256)"
proof (induction k)
  case (Suc k)
  have "x ^ (2 ^ Suc k) = (x ^ 2 ^ k) ^ 2" for x :: gf256
    by (simp add: mult.commute flip: power_mult)
  then show ?case using Suc by (simp only: gf_add_square)
qed simp

lemma GF_2_pow_256: "GF 2 ^ 256 = GF 2"
proof -
  have sq: "gf_mul 29 29 = 76" "gf_mul 76 76 = 157" "gf_mul 157 157 = 95"
      "gf_mul 95 95 = 133" "gf_mul 133 133 = 2"
    by (simp_all add: gf_mul_unroll xtime_def)
  have "GF 2 ^ 256 = (((((((GF 2 ^ 2) ^ 2) ^ 2) ^ 2) ^ 2) ^ 2) ^ 2) ^ 2"
    by (simp flip: power_mult)
  also have "\<dots> = GF 2"
    by (simp add: power2_eq_square gf_squares sq flip: GF_mul)
  finally show ?thesis .
qed

lemma gf_pow_256: "(a :: gf256) ^ 256 = a"
proof -
  have step: "GF (gf_mul 2 c) ^ 256 = GF (gf_mul 2 c)" if "GF c ^ 256 = GF c" for c
    using that by (simp add: GF_mul power_mult_distrib GF_2_pow_256)
  have mul2: "gf_mul 2 2 = 4" "gf_mul 2 4 = 8" "gf_mul 2 8 = 16" "gf_mul 2 16 = 32"
      "gf_mul 2 32 = 64" "gf_mul 2 64 = 128"
    by (simp_all add: gf_mul_unroll xtime_def)
  note p2 = GF_2_pow_256
  note p4 = step [OF p2, unfolded mul2]
  note p8 = step [OF p4, unfolded mul2]
  note p16 = step [OF p8, unfolded mul2]
  note p32 = step [OF p16, unfolded mul2]
  note p64 = step [OF p32, unfolded mul2]
  note p128 = step [OF p64, unfolded mul2]
  have "GF x ^ 256 = GF x" for x
  proof (induction x rule: byte_xor_induct)
    fix u v assume "GF u ^ 256 = GF u" "GF v ^ 256 = GF v"
    then show "GF (u XOR v) ^ 256 = GF (u XOR v)"
      using gf_add_pow2 [of "GF u" "GF v" 8] by (simp add: GF_xor)
  qed (simp_all add: GF_0 GF_1 p2 p4 p8 p16 p32 p64 p128)
  from this [of "to_byte a"] show ?thesis by (simp add: to_byte_inverse)
qed

lemma gf_pow_255:
  assumes "(a :: gf256) \<noteq> 0"
  shows "a ^ 255 = 1"
proof -
  have "(a ^ 255) ^ 2 = a ^ 256 * a ^ 254" by (simp flip: power_mult power_add)
  also have "\<dots> = a ^ 255" by (simp add: gf_pow_256 flip: power_Suc)
  finally have "a ^ 255 = 0 \<or> a ^ 255 = 1" by (rule gf_idempotent)
  moreover have "a ^ 255 \<noteq> 0"
  proof
    assume "a ^ 255 = 0"
    moreover have "a ^ 256 = a * a ^ 255" by (simp flip: power_Suc)
    ultimately show False using assms gf_pow_256 [of a] by simp
  qed
  ultimately show ?thesis by simp
qed

section \<open>Powers, inverses, division\<close>

lemma GF_pow_loop: "GF (gf_pow_loop r a n) = GF r * GF a ^ nat n"
proof (induction r a n rule: gf_pow_loop.induct)
  case (1 r a n)
  show ?case
  proof (cases "n > 0")
    case True
    define m where "m = nat (n div 2)"
    have "(n AND 1 \<noteq> 0) = odd n" by (simp add: and_one_eq odd_iff_mod_2_eq_one)
    moreover have "nat n = (if odd n then Suc (2 * m) else 2 * m)"
      using True unfolding m_def by (auto elim!: oddE evenE)
    moreover have "GF (gf_mul a a) ^ m = GF a ^ (2 * m)"
      by (simp add: GF_mul power_mult power2_eq_square)
    ultimately show ?thesis
      using 1 True by (subst gf_pow_loop.simps) (simp add: GF_mul m_def mult_ac)
  next
    case False
    then show ?thesis by (subst gf_pow_loop.simps) simp
  qed
qed

lemma GF_pow: "GF (gf_pow a n) = GF a ^ nat n"
  by (simp add: gf_pow_def GF_pow_loop GF_1)

lemma GF_inv: "GF (gf_inv a) = GF a ^ 254"
  by (simp add: gf_inv_def GF_pow)

instantiation gf256 :: field
begin
lift_definition inverse_gf256 :: "gf256 \<Rightarrow> gf256" is gf_inv .
lift_definition divide_gf256 :: "gf256 \<Rightarrow> gf256 \<Rightarrow> gf256" is gf_div .
instance
proof
  fix a b :: gf256
  have inv: "inverse c = c ^ 254" for c :: gf256
    by (metis GF_inv inverse_gf256.rep_eq to_byte_inverse)
  show "a \<noteq> 0 \<Longrightarrow> inverse a * a = 1"
    using gf_pow_255 [of a] by (simp add: inv flip: power_Suc2)
  show "a div b = a * inverse b" by transfer (simp add: gf_div_def)
  show "inverse (0 :: gf256) = 0" by (simp add: inv)
qed
end

lemma GF_div: "GF (gf_div a b) = GF a / GF b"
  by (simp add: divide_gf256.abs_eq)

lemmas GF_simps = GF_0 GF_1 GF_xor GF_mul GF_pow GF_div

lemma GF_add: "GF (gf_add a b) = GF a + GF b"
  by (simp add: gf_add_def GF_xor)

lemma gf_diff_add: "a - b = a + (b :: gf256)"
  by transfer simp

end
