(* ===== verification/Interpolation.thy ===== *)
theory Interpolation
  imports Complex_Main
begin

text \<open>
  Polynomial functions over a field, as far as secret sharing needs them: a
  polynomial function of length n (degree below n) with n distinct roots is
  zero, and the Lagrange sum interpolates.
\<close>

definition poly_fun :: "nat \<Rightarrow> ('a::field \<Rightarrow> 'a) \<Rightarrow> bool" where
  "poly_fun n f \<longleftrightarrow> (\<exists>c. \<forall>z. f z = (\<Sum>i<n. c i * z ^ i))"

named_theorems poly_intros \<open>closure properties of polynomial functions\<close>

lemma poly_fun_coeffs [poly_intros]: "poly_fun n (\<lambda>z. \<Sum>i<n. c i * z ^ i)"
  unfolding poly_fun_def by (intro exI [of _ c]) simp

lemma poly_fun_zero [poly_intros]: "poly_fun n (\<lambda>z. 0)"
  unfolding poly_fun_def by (intro exI [of _ "\<lambda>_. 0"]) simp

lemma poly_fun_add [poly_intros]:
  assumes "poly_fun n f" "poly_fun n g"
  shows "poly_fun n (\<lambda>z. f z + g z)"
proof -
  from assms obtain c d where "\<forall>z. f z = (\<Sum>i<n. c i * z ^ i)" "\<forall>z. g z = (\<Sum>i<n. d i * z ^ i)"
    by (auto simp: poly_fun_def)
  then show ?thesis
    unfolding poly_fun_def
    by (intro exI [of _ "\<lambda>i. c i + d i"]) (simp add: distrib_right sum.distrib)
qed

lemma poly_fun_scale [poly_intros]:
  assumes "poly_fun n f"
  shows "poly_fun n (\<lambda>z. a * f z)"
proof -
  from assms obtain c where "\<forall>z. f z = (\<Sum>i<n. c i * z ^ i)" by (auto simp: poly_fun_def)
  then show ?thesis
    unfolding poly_fun_def
    by (intro exI [of _ "\<lambda>i. a * c i"]) (simp add: sum_distrib_left mult.assoc)
qed

lemma poly_fun_diff [poly_intros]:
  "poly_fun n f \<Longrightarrow> poly_fun n g \<Longrightarrow> poly_fun n (\<lambda>z. f z - g z)"
  using poly_fun_add [of n f "\<lambda>z. (-1) * g z"] poly_fun_scale [of n g "-1"] by simp

lemma poly_fun_sum [poly_intros]:
  assumes "\<And>i. i \<in> S \<Longrightarrow> poly_fun n (f i)"
  shows "poly_fun n (\<lambda>z. \<Sum>i\<in>S. f i z)"
  using assms
proof (induction S rule: infinite_finite_induct)
  case (insert x S)
  then have "poly_fun n (\<lambda>z. f x z + (\<Sum>i\<in>S. f i z))" by (intro poly_fun_add) auto
  with insert show ?case by simp
qed (auto intro: poly_fun_zero)

lemma poly_fun_Suc:
  assumes "poly_fun n f"
  shows "poly_fun (Suc n) f"
proof -
  from assms obtain c where "\<forall>z. f z = (\<Sum>i<n. c i * z ^ i)" by (auto simp: poly_fun_def)
  then show ?thesis
    unfolding poly_fun_def by (intro exI [of _ "\<lambda>i. if i < n then c i else 0"]) simp
qed

lemma poly_fun_times_x:
  assumes "poly_fun n f"
  shows "poly_fun (Suc n) (\<lambda>z. z * f z)"
proof -
  from assms obtain c where c: "\<And>z. f z = (\<Sum>i<n. c i * z ^ i)" by (auto simp: poly_fun_def)
  have "z * f z = (\<Sum>i<Suc n. (case i of 0 \<Rightarrow> 0 | Suc j \<Rightarrow> c j) * z ^ i)" for z
    unfolding sum.lessThan_Suc_shift by (simp add: c sum_distrib_left algebra_simps)
  then show ?thesis
    unfolding poly_fun_def by blast
qed

lemma poly_fun_linear_factor:
  assumes "poly_fun n f"
  shows "poly_fun (Suc n) (\<lambda>z. (z - a) * f z)"
  using poly_fun_diff [OF poly_fun_times_x [OF assms] poly_fun_scale [OF poly_fun_Suc [OF assms], of a]]
  by (simp add: algebra_simps)

lemma poly_fun_prod:
  assumes "finite S"
  shows "poly_fun (Suc (card S)) (\<lambda>z. \<Prod>j\<in>S. (z - x j))"
  using assms
proof (induction S)
  case empty
  show ?case unfolding poly_fun_def by (intro exI [of _ "\<lambda>_. 1"]) simp
next
  case (insert i S)
  then show ?case using poly_fun_linear_factor [of "Suc (card S)" _ "x i"] by simp
qed

text \<open>As many roots as coefficients: the function is zero.\<close>

lemma poly_fun_roots:
  fixes f :: "'a::field \<Rightarrow> 'a"
  assumes "poly_fun n f" and "finite S" and "card S = n" and "\<And>x. x \<in> S \<Longrightarrow> f x = 0"
  shows "f z = 0"
  using assms
proof (induction n arbitrary: f S z)
  case 0
  then show ?case by (auto simp: poly_fun_def)
next
  case (Suc n)
  from \<open>card S = Suc n\<close> obtain a S' where S: "S = insert a S'" "a \<notin> S'" "card S' = n"
    by (auto simp: card_Suc_eq)
  from Suc.prems(1) obtain c where c: "\<And>z. f z = (\<Sum>i\<le>n. c i * z ^ i)"
    by (auto simp: poly_fun_def lessThan_Suc_atMost)
  have "(\<Sum>i\<le>n. c i * a ^ i) = 0" using Suc.prems(4) S c by auto
  then obtain b where b: "\<And>z. (\<Sum>i\<le>n. c i * z ^ i) = (z - a) * (\<Sum>i<n. b i * z ^ i)"
    by (rule polyfun_linear_factor_root) blast
  let ?g = "\<lambda>z. \<Sum>i<n. b i * z ^ i"
  have "?g z = 0"
  proof (rule Suc.IH [of ?g S'])
    show "poly_fun n ?g" by (rule poly_fun_coeffs)
    show "finite S'" using Suc.prems(2) S by simp
    show "card S' = n" by (rule S)
    fix x assume "x \<in> S'"
    then have "f x = 0" "x \<noteq> a" using Suc.prems(4) S by auto
    then show "?g x = 0" using c b by auto
  qed
  then show ?case using c b by simp
qed

section \<open>Lagrange interpolation\<close>

definition lagrange :: "nat \<Rightarrow> (nat \<Rightarrow> 'a::field) \<Rightarrow> (nat \<Rightarrow> 'a) \<Rightarrow> 'a \<Rightarrow> 'a" where
  "lagrange n x y z = (\<Sum>i<n. y i * (\<Prod>j\<in>{..<n} - {i}. (z - x j) / (x i - x j)))"

lemma poly_fun_lagrange: "poly_fun n (lagrange n x y)"
proof -
  have "poly_fun n (\<lambda>z. y i * (\<Prod>j\<in>{..<n} - {i}. (z - x j) / (x i - x j)))" if "i < n" for i
  proof -
    have "poly_fun (Suc (card ({..<n} - {i}))) (\<lambda>z. \<Prod>j\<in>{..<n} - {i}. (z - x j))"
      by (rule poly_fun_prod) simp
    moreover have "Suc (card ({..<n} - {i})) = n" using that by simp
    ultimately have "poly_fun n (\<lambda>z. (y i / (\<Prod>j\<in>{..<n} - {i}. (x i - x j))) *
        (\<Prod>j\<in>{..<n} - {i}. (z - x j)))"
      by (intro poly_fun_scale) simp
    then show ?thesis by (simp add: prod_dividef)
  qed
  then show ?thesis unfolding lagrange_def by (intro poly_fun_sum) simp
qed

lemma lagrange_point:
  assumes inj: "inj_on x {..<n}" and k: "k < n"
  shows "lagrange n x y (x k) = y k"
proof -
  have "(\<Prod>j\<in>{..<n} - {i}. (x k - x j) / (x i - x j)) = (if i = k then 1 else 0)"
    if "i < n" for i
  proof (cases "i = k")
    case True
    have "(x k - x j) / (x k - x j) = 1" if "j \<in> {..<n} - {k}" for j
      using inj k that by (auto simp: inj_on_def)
    then show ?thesis using True by simp
  next
    case False
    then have "k \<in> {..<n} - {i}" using k by simp
    then show ?thesis using False by (auto simp: prod_zero_iff intro!: bexI [of _ k])
  qed
  then have "lagrange n x y (x k) = (\<Sum>i<n. y i * (if i = k then 1 else 0))"
    unfolding lagrange_def by (intro sum.cong) auto
  also have "\<dots> = y k" using k by (simp add: if_distrib [of "(*) _"] cong: if_cong)
  finally show ?thesis .
qed

lemma lagrange_unique:
  assumes "poly_fun n p" and "inj_on x {..<n}"
  shows "lagrange n x (\<lambda>i. p (x i)) z = p z"
proof -
  let ?d = "\<lambda>z. lagrange n x (\<lambda>i. p (x i)) z - p z"
  have "?d z = 0"
  proof (rule poly_fun_roots [of n ?d "x ` {..<n}"])
    show "poly_fun n ?d" by (intro poly_fun_diff poly_fun_lagrange assms)
    show "card (x ` {..<n}) = n" using assms(2) by (simp add: card_image)
    show "?d u = 0" if "u \<in> x ` {..<n}" for u
      using that lagrange_point [OF assms(2)] by auto
  qed simp
  then show ?thesis by simp
qed

text \<open>At zero, the Lagrange sum in the form the recovery loop computes it.\<close>

lemma lagrange_at_zero:
  "lagrange n x y 0 = (\<Sum>i<n. y i * (\<Prod>j\<in>{..<n} - {i}. x j / (x j - x i)))"
proof -
  have "(0 - x j) / (x i - x j) = x j / (x j - x i)" for i j
    by (metis minus_diff_eq minus_divide_divide diff_0)
  then show ?thesis by (simp add: lagrange_def)
qed

end
