(* ===== verification/Shamir.thy ===== *)
theory Shamir
  imports Wire Gf256 Interpolation
begin

text \<open>
  Threshold secret sharing (core/crypto/shamir.hpp, shamir.cpp): a 32-byte secret
  is split byte by byte into N shares, any M of which recover it.  The random
  generator is an argument: from its state and a length it gives the bytes it
  fills the buffer with and its next state.  Wiping the coefficients
  (secure::zeroize) has no effect on the result and is not modelled.
\<close>

section \<open>Shares\<close>

record ShamirShare =
  share_index :: byte
  share_y :: bytes

abbreviation share :: "byte \<Rightarrow> bytes \<Rightarrow> ShamirShare" where
  "share x y \<equiv> \<lparr>share_index = x, share_y = y\<rparr>"

abbreviation shamir_err :: "u16 \<Rightarrow> error_code" where
  "shamir_err c \<equiv> smo_err CatCrypto c SevError NoRetry ManualIntervention"

definition share_serialize :: "ShamirShare \<Rightarrow> bytes result" where
  "share_serialize s =
     (if length (share_y s) \<noteq> 32 then Err (shamir_err 160)
      else Ok (share_index s # share_y s))"

definition share_deserialize :: "bytes \<Rightarrow> ShamirShare result" where
  "share_deserialize data =
     (if length data \<noteq> 33 then Err (shamir_err 161)
      else let s = share (data ! 0) (drop 1 data)
           in if share_index s = 0 then Err (shamir_err 162) else Ok s)"

section \<open>Splitting\<close>

text \<open>The loop "for (uint8_t x = 1; x <= N; ++x)": the counter has eight bits, so
  with N = 255 its condition never fails.  Not returning is the value None.\<close>

partial_function (option) x_loop :: "byte \<Rightarrow> byte \<Rightarrow> byte list option" where
  "x_loop x N =
     (if x \<le> N then Option.bind (x_loop (x + 1) N) (\<lambda>xs. Some (x # xs)) else Some [])"

primrec eval_acc :: "byte \<Rightarrow> bytes \<Rightarrow> byte \<Rightarrow> byte \<Rightarrow> byte" where
  "eval_acc x [] y x_pow = y"
| "eval_acc x (c # coeffs) y x_pow =
     eval_acc x coeffs (gf_add y (gf_mul c x_pow)) (gf_mul x_pow x)"

definition eval_poly :: "bytes \<Rightarrow> byte \<Rightarrow> byte" where
  "eval_poly coeffs x = eval_acc x coeffs 0 1"

text \<open>shares[x - 1].y[byte_pos] = y\<close>

definition put_y :: "nat \<Rightarrow> byte \<Rightarrow> byte \<Rightarrow> ShamirShare list \<Rightarrow> ShamirShare list" where
  "put_y byte_pos x y shares =
     (let i = unat x - 1; s = shares ! i
      in shares[i := s\<lparr>share_y := (share_y s)[byte_pos := y]\<rparr>])"

definition draw_coeffs :: "('g \<Rightarrow> nat \<Rightarrow> bytes \<times> 'g) \<Rightarrow> byte \<Rightarrow> 'g \<Rightarrow> bytes \<times> 'g" where
  "draw_coeffs rng M g = (if 1 < M then rng g (unat M - 1) else ([], g))"

definition split_byte ::
  "('g \<Rightarrow> nat \<Rightarrow> bytes \<times> 'g) \<Rightarrow> bytes \<Rightarrow> byte \<Rightarrow> byte list \<Rightarrow> nat \<Rightarrow>
   'g \<times> ShamirShare list \<Rightarrow> 'g \<times> ShamirShare list" where
  "split_byte rng secret M xs byte_pos st =
     (let (g, shares) = st;
          (random_coeffs, g') = draw_coeffs rng M g;
          coeffs = secret ! byte_pos # random_coeffs
      in (g', fold (\<lambda>x sh. put_y byte_pos x (eval_poly coeffs x) sh) xs shares))"

definition shamir_split ::
  "('g \<Rightarrow> nat \<Rightarrow> bytes \<times> 'g) \<Rightarrow> bytes \<Rightarrow> byte \<Rightarrow> byte \<Rightarrow> 'g \<Rightarrow>
   (ShamirShare list result \<times> 'g) option" where
  "shamir_split rng secret N M g =
     (if length secret \<noteq> 32 then Some (Err (shamir_err 163), g)
      else if M = 0 \<or> M > N then Some (Err (shamir_err 164), g)
      else if unat N > 255 then Some (Err (shamir_err 165), g)
      else case x_loop 1 N of
        None \<Rightarrow> None
      | Some xs \<Rightarrow>
          let shares = map (\<lambda>x. share x (replicate 32 0)) xs;
              (g', shares') = fold (split_byte rng secret M xs) [0..<32] (g, shares)
          in Some (Ok shares', g'))"

section \<open>Recovery\<close>

primrec check_shares :: "ShamirShare list \<Rightarrow> unit result" where
  "check_shares [] = Ok ()"
| "check_shares (s # ss) =
     (if length (share_y s) \<noteq> 32 then Err (shamir_err 169)
      else if share_index s = 0 then Err (shamir_err 170)
      else check_shares ss)"

primrec duplicate_index :: "ShamirShare list \<Rightarrow> bool" where
  "duplicate_index [] = False"
| "duplicate_index (s # ss) =
     (list_ex (\<lambda>t. share_index s = share_index t) ss \<or> duplicate_index ss)"

definition lagrange_coeff :: "ShamirShare list \<Rightarrow> nat \<Rightarrow> nat \<Rightarrow> byte" where
  "lagrange_coeff shares M i =
     foldl (\<lambda>coeff j.
        if i = j then coeff
        else let x_i = share_index (shares ! i);
                 x_j = share_index (shares ! j);
                 diff = gf_add x_j x_i;
                 term = gf_div x_j diff
             in gf_mul coeff term) 1 [0..<M]"

definition recover_byte :: "ShamirShare list \<Rightarrow> nat \<Rightarrow> nat \<Rightarrow> byte" where
  "recover_byte shares M byte_pos =
     foldl (\<lambda>secret_byte i.
        let y_i = share_y (shares ! i) ! byte_pos
        in gf_add secret_byte (gf_mul y_i (lagrange_coeff shares M i))) 0 [0..<M]"

definition shamir_recover :: "ShamirShare list \<Rightarrow> byte \<Rightarrow> bytes result" where
  "shamir_recover shares M =
     (if length shares < unat M then Err (shamir_err 166)
      else if M = 0 then Err (shamir_err 167)
      else if length shares > 255 then Err (shamir_err 168)
      else rbind (check_shares shares) (\<lambda>_.
        if duplicate_index shares then Err (shamir_err 171)
        else Ok (map (recover_byte shares (unat M)) [0..<32])))"

section \<open>The arithmetic in the field\<close>

lemma GF_eval_acc:
  "GF (eval_acc x cs y xp) = GF y + (\<Sum>i<length cs. GF (cs ! i) * (GF xp * GF x ^ i))"
proof (induction cs arbitrary: y xp)
  case (Cons c cs)
  have "(\<Sum>i<length (c # cs). GF ((c # cs) ! i) * (GF xp * GF x ^ i)) =
      GF c * GF xp + (\<Sum>i<length cs. GF (cs ! i) * (GF (gf_mul xp x) * GF x ^ i))"
    unfolding length_Cons sum.lessThan_Suc_shift by (simp add: GF_mul mult_ac)
  then show ?case by (simp add: Cons GF_add GF_mul add.assoc)
qed simp

lemma GF_eval_poly: "GF (eval_poly cs x) = (\<Sum>i<length cs. GF (cs ! i) * GF x ^ i)"
  by (simp add: eval_poly_def GF_eval_acc GF_0 GF_1)

lemma GF_foldl_add:
  "GF (foldl (\<lambda>acc i. gf_add acc (f i)) a [0..<n]) = GF a + (\<Sum>i<n. GF (f i))"
  by (induction n) (simp_all add: GF_add add.assoc)

lemma GF_foldl_mul:
  "GF (foldl (\<lambda>acc j. if i = j then acc else gf_mul acc (f j)) a [0..<n]) =
     GF a * (\<Prod>j\<in>{..<n} - {i}. GF (f j))"
proof (induction n)
  case (Suc n)
  show ?case
  proof (cases "n = i")
    case True
    then have "{..<Suc n} - {i} = {..<n} - {i}" by auto
    with True Suc show ?thesis by simp
  next
    case False
    then have "{..<Suc n} - {i} = insert n ({..<n} - {i})" by auto
    with False Suc show ?thesis by (simp add: GF_mul mult.assoc mult.commute [of "GF (f n)"])
  qed
qed simp

lemma GF_recover_byte:
  "GF (recover_byte shares M p) =
     lagrange M (\<lambda>i. GF (share_index (shares ! i))) (\<lambda>i. GF (share_y (shares ! i) ! p)) 0"
  unfolding recover_byte_def lagrange_coeff_def Let_def
  by (simp add: GF_foldl_add GF_foldl_mul GF_mul GF_div GF_add GF_0 GF_1 lagrange_at_zero gf_diff_add)

lemma duplicate_index_iff: "duplicate_index ss \<longleftrightarrow> \<not> distinct (map share_index ss)"
  by (induction ss) (auto simp: list_ex_iff)

lemma check_shares_ok:
  "(\<And>s. s \<in> set ss \<Longrightarrow> length (share_y s) = 32 \<and> share_index s \<noteq> 0) \<Longrightarrow> check_shares ss = Ok ()"
  by (induction ss) auto

text \<open>Lagrange recovery over the first M of a list of points of a polynomial.\<close>

lemma recover_byte_poly:
  assumes len: "length cs = M" "M \<le> length shares" "M > 0"
    and dist: "distinct (map share_index shares)"
    and y: "\<And>i. i < M \<Longrightarrow> share_y (shares ! i) ! p = eval_poly cs (share_index (shares ! i))"
  shows "recover_byte shares M p = cs ! 0"
proof -
  let ?x = "\<lambda>i. GF (share_index (shares ! i))"
  let ?q = "\<lambda>z. \<Sum>i<M. GF (cs ! i) * z ^ i"
  have inj: "inj_on ?x {..<M}"
    using nth_eq_iff_index_eq [OF dist] len(2) by (intro inj_onI) simp
  have "GF (recover_byte shares M p) = lagrange M ?x (\<lambda>i. ?q (?x i)) 0"
    unfolding GF_recover_byte lagrange_def using len(1) by (simp add: y GF_eval_poly)
  also have "\<dots> = ?q 0"
    using poly_fun_coeffs inj by (rule lagrange_unique)
  also have "\<dots> = GF (cs ! 0)"
  proof -
    obtain m where "M = Suc m" using len(3) by (cases M) auto
    then show ?thesis by (simp only: sum.lessThan_Suc_shift) simp
  qed
  finally show ?thesis by simp
qed

section \<open>The loops of the splitter\<close>

lemma unat_byte: "n < 256 \<Longrightarrow> unat (word_of_nat n :: byte) = n"
  by (rule unat_of_nat_lt) simp

lemma x_loop_list:
  assumes "unat N < 255" and "k \<le> Suc (unat N)"
  shows "x_loop (word_of_nat k) N = Some (map word_of_nat [k..<Suc (unat N)])"
  using assms(2)
proof (induction "Suc (unat N) - k" arbitrary: k)
  case 0
  then have "unat (word_of_nat k :: byte) = k" "unat N < k"
    using assms(1) by (auto intro: unat_byte)
  then have "\<not> (word_of_nat k :: byte) \<le> N" by (simp add: word_le_nat_alt)
  then show ?case using \<open>unat N < k\<close> by (subst x_loop.simps) simp
next
  case (Suc d)
  then have k: "k \<le> unat N" by simp
  then have "unat (word_of_nat k :: byte) = k" using assms(1) by (intro unat_byte) simp
  then have "(word_of_nat k :: byte) \<le> N" using k by (simp add: word_le_nat_alt)
  moreover have "x_loop (word_of_nat (Suc k)) N = Some (map word_of_nat [Suc k..<Suc (unat N)])"
    using Suc k by (intro Suc.hyps(1)) auto
  ultimately show ?case
    using k by (subst x_loop.simps) (simp add: upt_conv_Cons add.commute del: upt_Suc)
qed

lemma byte_le_255: "(x :: byte) \<le> 255"
proof -
  have "(255 :: byte) = - 1" by simp
  then show ?thesis by (simp only: word_order.extremum)
qed

lemma x_loop_diverges: "x_loop x 255 = None"
proof -
  have step: "N \<noteq> 255"
    if IH: "\<And>x N xs. loop x N = Some xs \<Longrightarrow> N \<noteq> 255"
      and eq: "(if x \<le> N then Option.bind (loop (x + 1) N) (\<lambda>xs. Some (x # xs)) else Some []) = Some xs"
    for loop and x N :: byte and xs
  proof
    assume N: "N = 255"
    with byte_le_255 [of x] eq obtain ys where "loop (x + 1) N = Some ys" by (auto simp: bind_eq_Some_conv)
    with IH N show False by blast
  qed
  have "N \<noteq> 255" if "x_loop x N = Some xs" for x N xs
  proof -
    have "(case (x, N) of (x, N) \<Rightarrow> \<lambda>xs. N \<noteq> 255) xs"
    proof (rule x_loop.raw_induct)
      show "(case (x, N) of (x, N) \<Rightarrow> x_loop x N) = Some xs" using that by simp
    qed (rule step)
    then show ?thesis by simp
  qed
  then show ?thesis by (metis not_Some_eq)
qed

definition indices :: "nat \<Rightarrow> byte list" where
  "indices n = map word_of_nat [1..<Suc n]"

lemma length_indices [simp]: "length (indices n) = n"
  by (simp add: indices_def)

lemma nth_indices [simp]: "i < n \<Longrightarrow> indices n ! i = word_of_nat (Suc i)"
  by (simp add: indices_def del: of_nat_Suc upt_Suc)

lemma indices_Suc: "indices (Suc k) = indices k @ [word_of_nat (Suc k)]"
  by (simp add: indices_def del: of_nat_Suc)

lemma set_indices: "n < 256 \<Longrightarrow> x \<in> set (indices n) \<longleftrightarrow> x \<noteq> 0 \<and> unat x \<le> n"
proof
  assume "x \<noteq> 0 \<and> unat x \<le> n"
  moreover from this have "0 < unat x" by (simp add: unat_gt_0)
  ultimately have "unat x \<in> {1..n}" "x = word_of_nat (unat x)" by simp_all
  then show "x \<in> set (indices n)"
    unfolding indices_def by (metis atLeastAtMost_upt image_eqI list.set_map)
next
  assume n: "n < 256" and "x \<in> set (indices n)"
  then obtain k where "x = word_of_nat k" "1 \<le> k" "k \<le> n" by (auto simp: indices_def)
  moreover from this n have "unat x = k" by (simp add: unat_byte)
  ultimately show "x \<noteq> 0 \<and> unat x \<le> n" by auto
qed

lemma distinct_indices: "n < 256 \<Longrightarrow> distinct (indices n)"
  unfolding indices_def distinct_map
  by (intro conjI inj_onI) (auto dest!: arg_cong [of _ _ unat] simp: unat_byte)

lemma put_y_fold:
  assumes "n < 256"
  shows "fold (\<lambda>x sh. put_y p x (v x) sh) (indices n) (map (\<lambda>x. share x (ys x)) (indices n)) =
         map (\<lambda>x. share x ((ys x)[p := v x])) (indices n)"
proof -
  let ?sh = "map (\<lambda>x. share x (ys x)) (indices n)"
  let ?fo = "\<lambda>k. fold (\<lambda>x sh. put_y p x (v x) sh) (indices k) ?sh"
  let ?f = "\<lambda>i. share (word_of_nat (Suc i)) ((ys (word_of_nat (Suc i)))[p := v (word_of_nat (Suc i))])"
  have "length (?fo k) = n \<and> (\<forall>i<n. ?fo k ! i = (if i < k then ?f i else ?sh ! i))"
    if "k \<le> n" for k
    using that
  proof (induction k)
    case 0
    then show ?case by (simp add: indices_def)
  next
    case (Suc k)
    have "unat (word_of_nat (Suc k) :: byte) = Suc k"
      by (rule unat_byte) (use Suc.prems assms in simp)
    then show ?case
      using Suc
      by (auto simp: indices_Suc put_y_def Let_def nth_list_update less_Suc_eq simp del: of_nat_Suc)
  qed
  from this [of n] show ?thesis
    by (intro nth_equalityI) (auto simp del: of_nat_Suc)
qed

text \<open>The generator's state after p bytes, and the coefficients of byte p.\<close>

primrec gen_state :: "('g \<Rightarrow> nat \<Rightarrow> bytes \<times> 'g) \<Rightarrow> byte \<Rightarrow> 'g \<Rightarrow> nat \<Rightarrow> 'g" where
  "gen_state rng M g 0 = g"
| "gen_state rng M g (Suc p) = snd (draw_coeffs rng M (gen_state rng M g p))"

definition coeffs_at :: "('g \<Rightarrow> nat \<Rightarrow> bytes \<times> 'g) \<Rightarrow> bytes \<Rightarrow> byte \<Rightarrow> 'g \<Rightarrow> nat \<Rightarrow> bytes" where
  "coeffs_at rng secret M g p = secret ! p # fst (draw_coeffs rng M (gen_state rng M g p))"

lemma split_fold:
  assumes "n < 256" and "k \<le> 32"
  shows "fold (split_byte rng secret M (indices n)) [0..<k]
           (g, map (\<lambda>x. share x (replicate 32 0)) (indices n)) =
         (gen_state rng M g k,
          map (\<lambda>x. share x (map (\<lambda>p. if p < k then eval_poly (coeffs_at rng secret M g p) x else 0) [0..<32]))
            (indices n))"
  using assms(2)
proof (induction k)
  case 0
  have "replicate 32 0 = map (\<lambda>p. if p < (0::nat) then eval_poly (coeffs_at rng secret M g p) x else 0) [0..<32]"
    for x by (simp add: map_replicate_const)
  then show ?case by simp
next
  case (Suc k)
  let ?c = "coeffs_at rng secret M g"
  let ?row = "\<lambda>k x. map (\<lambda>p. if p < k then eval_poly (?c p) x else 0) [0..<32]"
  have row: "(?row k x)[k := eval_poly (?c k) x] = ?row (Suc k) x" for x
    using Suc.prems by (intro nth_equalityI) (auto simp: nth_list_update less_Suc_eq)
  obtain rc g' where d: "draw_coeffs rng M (gen_state rng M g k) = (rc, g')" by fastforce
  then have c: "?c k = secret ! k # rc" by (simp add: coeffs_at_def)
  have "split_byte rng secret M (indices n) k
      (gen_state rng M g k, map (\<lambda>x. share x (?row k x)) (indices n)) =
      (g', map (\<lambda>x. share x ((?row k x)[k := eval_poly (?c k) x])) (indices n))"
    unfolding split_byte_def Let_def prod.case d c by (simp add: put_y_fold [OF assms(1)])
  then show ?case using Suc d by (simp add: row)
qed

lemma shamir_split_result:
  assumes "length secret = 32" and "0 < M" and "M \<le> N" and "N < 255"
  shows "shamir_split rng secret N M g =
     Some (Ok (map (\<lambda>x. share x (map (\<lambda>p. eval_poly (coeffs_at rng secret M g p) x) [0..<32]))
                 (indices (unat N))), gen_state rng M g 32)"
proof -
  have N: "unat N < 255" using assms(4) by (simp add: word_less_nat_alt)
  have "x_loop 1 N = Some (indices (unat N))"
    using x_loop_list [of N 1] N by (simp add: indices_def)
  moreover have "map (\<lambda>p. if p < 32 then f p else 0) [0..<32] = map f [0..<32]" for f :: "nat \<Rightarrow> byte"
    by (rule map_cong) auto
  ultimately show ?thesis
    using assms N split_fold [of "unat N" 32 rng secret M g]
    by (simp add: shamir_split_def word_gt_0 not_less)
qed

section \<open>What secret sharing guarantees\<close>

text \<open>The generator fills the whole buffer it is given.\<close>

definition rng_fills :: "('g \<Rightarrow> nat \<Rightarrow> bytes \<times> 'g) \<Rightarrow> bool" where
  "rng_fills rng \<longleftrightarrow> (\<forall>g n. length (fst (rng g n)) = n)"

lemma length_coeffs_at:
  assumes "rng_fills rng" and "0 < M"
  shows "length (coeffs_at rng secret M g p) = unat M"
proof -
  have "0 < unat M" using assms(2) by (simp add: unat_gt_0 word_gt_0)
  moreover have "unat M = 1" if "\<not> 1 < M"
    using that \<open>0 < unat M\<close> by (simp add: word_less_nat_alt)
  ultimately show ?thesis
    using assms(1) by (auto simp: coeffs_at_def draw_coeffs_def rng_fills_def)
qed

lemma shares_of_split:
  assumes "n < 256" and "set sub \<subseteq> set (map (\<lambda>x. share x (f x)) (indices n))" and "distinct sub"
  shows "distinct (map share_index sub)"
    and "s \<in> set sub \<Longrightarrow> share_index s \<noteq> 0 \<and> share_y s = f (share_index s)"
    and "length sub \<le> n"
proof -
  have sub: "\<And>s. s \<in> set sub \<Longrightarrow> share_index s \<in> set (indices n) \<and> s = share (share_index s) (f (share_index s))"
    using assms(2) by auto
  then have "inj_on share_index (set sub)" by (metis inj_onI)
  then show d: "distinct (map share_index sub)" using assms(3) by (simp add: distinct_map)
  show "s \<in> set sub \<Longrightarrow> share_index s \<noteq> 0 \<and> share_y s = f (share_index s)"
    using sub set_indices [OF assms(1)] by (metis ShamirShare.select_convs(2))
  have "card (set (map share_index sub)) \<le> card (set (indices n))"
    using sub by (intro card_mono) auto
  then show "length sub \<le> n"
    using distinct_card [OF d] distinct_card [OF distinct_indices [OF assms(1)]] by simp
qed

text \<open>
  C2. Threshold recovery: for a 32-byte secret and 1 <= M <= N < 255 the splitter
  returns N shares, and recovering from any M or more of them, in any order,
  gives the secret back.
\<close>

theorem shamir_threshold_recovery:
  assumes "rng_fills rng" and "length secret = 32" and "0 < M" and "M \<le> N" and "N < 255"
  shows "\<exists>shares g'. shamir_split rng secret N M g = Some (Ok shares, g') \<and>
     length shares = unat N \<and>
     (\<forall>sub. distinct sub \<and> set sub \<subseteq> set shares \<and> unat M \<le> length sub \<longrightarrow>
            shamir_recover sub M = Ok secret)"
proof -
  let ?c = "coeffs_at rng secret M g"
  let ?f = "\<lambda>x. map (\<lambda>p. eval_poly (?c p) x) [0..<32]"
  let ?shares = "map (\<lambda>x. share x (?f x)) (indices (unat N))"
  have N: "unat N < 255" using assms(5) by (simp add: word_less_nat_alt)
  have M: "0 < unat M" using assms(3) by (simp add: unat_gt_0 word_gt_0)
  have "shamir_recover sub M = Ok secret"
    if sub: "distinct sub" "set sub \<subseteq> set ?shares" "unat M \<le> length sub" for sub
  proof -
    have "unat N < 256" using N by simp
    note s = shares_of_split [OF this sub(2,1)]
    have "check_shares sub = Ok ()" using s(2) by (intro check_shares_ok) auto
    moreover have "recover_byte sub (unat M) p = secret ! p" if "p < 32" for p
    proof -
      have "recover_byte sub (unat M) p = ?c p ! 0"
      proof (rule recover_byte_poly)
        show "length (?c p) = unat M" using assms(1,3) by (rule length_coeffs_at)
        show "share_y (sub ! i) ! p = eval_poly (?c p) (share_index (sub ! i))" if "i < unat M" for i
          using s(2) [of "sub ! i"] that sub(3) \<open>p < 32\<close> by simp
      qed (use sub(3) M s(1) in simp_all)
      then show ?thesis by (simp add: coeffs_at_def)
    qed
    then have "map (recover_byte sub (unat M)) [0..<32] = secret"
      using assms(2) by (intro nth_equalityI) auto
    ultimately show ?thesis
      using sub(3) s(1,3) M N by (auto simp: shamir_recover_def duplicate_index_iff)
  qed
  then show ?thesis
    using shamir_split_result [OF assms(2-5), of rng g]
    by (intro exI [of _ ?shares] exI [of _ "gen_state rng M g 32"]) auto
qed

definition zero_rng :: "nat \<Rightarrow> nat \<Rightarrow> bytes \<times> nat" where
  "zero_rng g n = (replicate n (word_of_nat g), Suc g)"

theorem shamir_threshold_recovery_witness:
  "\<exists>shares g'. shamir_split zero_rng (replicate 32 7) 5 3 0 = Some (Ok shares, g') \<and>
     length shares = 5 \<and> shamir_recover (rev (drop 2 shares)) 3 = Ok (replicate 32 7)"
proof -
  have fills: "rng_fills zero_rng" by (simp add: rng_fills_def zero_rng_def)
  have "\<exists>shares g'. shamir_split zero_rng (replicate 32 7) 5 3 0 = Some (Ok shares, g') \<and>
     length shares = unat (5 :: byte) \<and>
     (\<forall>sub. distinct sub \<and> set sub \<subseteq> set shares \<and> unat (3 :: byte) \<le> length sub \<longrightarrow>
            shamir_recover sub 3 = Ok (replicate 32 7))"
    by (rule shamir_threshold_recovery [OF fills]) simp_all
  then obtain shares g' where sh: "shamir_split zero_rng (replicate 32 7) 5 3 0 = Some (Ok shares, g')"
      "length shares = 5"
      "\<And>sub. distinct sub \<Longrightarrow> set sub \<subseteq> set shares \<Longrightarrow> 3 \<le> length sub \<Longrightarrow>
         shamir_recover sub 3 = Ok (replicate 32 7)"
    by auto
  have "distinct shares"
    using sh(1) shamir_split_result [of "replicate 32 7" 3 5 zero_rng 0] distinct_indices [of 5]
    by (auto simp: distinct_map inj_on_def)
  then have "shamir_recover (rev (drop 2 shares)) 3 = Ok (replicate 32 7)"
    using sh(2) by (intro sh(3)) (auto simp: set_drop_subset dest: in_set_dropD)
  with sh show ?thesis by blast
qed

text \<open>Through M-1 points and a value at 0 there is a polynomial of length M.\<close>

lemma interpolating_coeffs:
  assumes "distinct xs" and "0 \<notin> set xs" and "length ys = length xs"
  shows "\<exists>cs. length cs = length xs \<and> (\<forall>i<length xs. eval_poly (s # cs) (xs ! i) = ys ! i)"
proof -
  let ?n = "Suc (length xs)"
  let ?x = "\<lambda>i. GF ((0 # xs) ! i)" and ?y = "\<lambda>i. GF ((s # ys) ! i)"
  have inj: "inj_on ?x {..<?n}"
    using nth_eq_iff_index_eq [of "0 # xs"] assms(1,2) by (intro inj_onI) auto
  obtain c where c: "\<And>z. lagrange ?n ?x ?y z = (\<Sum>i<?n. c i * z ^ i)"
    using poly_fun_lagrange [of ?n ?x ?y] unfolding poly_fun_def by meson
  have GFc: "GF (to_byte (c i)) = c i" for i by (rule to_byte_inverse)
  let ?cs = "map (\<lambda>i. to_byte (c (Suc i))) [0..<length xs]"
  have "lagrange ?n ?x ?y 0 = GF s"
    using lagrange_point [OF inj, of 0 ?y] by (simp add: GF_0)
  moreover have "lagrange ?n ?x ?y 0 = c 0"
    unfolding c sum.lessThan_Suc_shift by simp
  ultimately have c0: "c 0 = GF s" by simp
  have ev: "GF (eval_poly (s # ?cs) x) = lagrange ?n ?x ?y (GF x)" for x
    unfolding c GF_eval_poly length_Cons sum.lessThan_Suc_shift by (simp add: c0 GFc)
  have "eval_poly (s # ?cs) (xs ! i) = ys ! i" if "i < length xs" for i
    using lagrange_point [OF inj, of "Suc i" ?y] ev [of "xs ! i"] that by simp
  then show ?thesis by (intro exI [of _ ?cs]) simp
qed

definition scripted_rng :: "(nat \<Rightarrow> bytes) \<Rightarrow> nat \<Rightarrow> nat \<Rightarrow> bytes \<times> nat" where
  "scripted_rng script g n = (if length (script g) = n then script g else replicate n 0, Suc g)"

lemma coeffs_at_scripted:
  assumes "\<And>p. Suc (length (script p)) = unat M"
  shows "coeffs_at (scripted_rng script) secret M 0 p = secret ! p # script p"
proof -
  have M1: "(1 < M) = (1 < unat M)" by (simp add: word_less_nat_alt)
  have st: "gen_state (scripted_rng script) M 0 p = p" if "1 < M" for p
    using that by (induction p) (simp_all add: draw_coeffs_def scripted_rng_def)
  show ?thesis
  proof (cases "1 < M")
    case True
    then show ?thesis
      using assms [of p] by (auto simp: coeffs_at_def draw_coeffs_def st scripted_rng_def)
  next
    case False
    then have "script p = []" using assms [of p] M1 by (cases "script p") auto
    then show ?thesis using False by (simp add: coeffs_at_def draw_coeffs_def)
  qed
qed

text \<open>
  C14. Secrecy: M-1 shares of a secret are compatible with every other secret.
  For any other 32-byte secret there are random bytes with which the splitter
  gives the same M-1 shares, so they carry no information on the secret.
\<close>

theorem shamir_secrecy:
  assumes "rng_fills rng" and "length secret = 32" and "0 < M" and "M \<le> N" and "N < 255"
    and "shamir_split rng secret N M g = Some (Ok shares, g')"
    and "distinct sub" and "set sub \<subseteq> set shares" and "Suc (length sub) = unat M"
    and "length other = 32"
  shows "\<exists>script shares'.
     rng_fills (scripted_rng script) \<and>
     (\<exists>g''. shamir_split (scripted_rng script) other N M 0 = Some (Ok shares', g'')) \<and>
     set sub \<subseteq> set shares'"
proof -
  let ?f = "\<lambda>x. map (\<lambda>p. eval_poly (coeffs_at rng secret M g p) x) [0..<32]"
  have N: "unat N < 256" using assms(5) by (simp add: word_less_nat_alt)
  have sh: "set sub \<subseteq> set (map (\<lambda>x. share x (?f x)) (indices (unat N)))"
    using assms(6,8) shamir_split_result [OF assms(2-5), of rng g] by simp
  note s = shares_of_split [OF N sh assms(7)]
  let ?xs = "map share_index sub"
  have nz: "0 \<notin> set ?xs" using s(2) by auto
  have "\<exists>cs. length cs = length sub \<and>
      (\<forall>i<length sub. eval_poly (other ! p # cs) (share_index (sub ! i)) = share_y (sub ! i) ! p)" for p
    using interpolating_coeffs [OF s(1) nz, of "map (\<lambda>s. share_y s ! p) sub" "other ! p"] by simp
  then have "\<exists>script. \<forall>p. length (script p) = length sub \<and>
      (\<forall>i<length sub. eval_poly (other ! p # script p) (share_index (sub ! i)) = share_y (sub ! i) ! p)"
    by (intro choice) blast
  then obtain script where sc: "\<And>p. length (script p) = length sub"
      "\<And>p i. i < length sub \<Longrightarrow> eval_poly (other ! p # script p) (share_index (sub ! i)) = share_y (sub ! i) ! p"
    by blast
  let ?h = "\<lambda>x. map (\<lambda>p. eval_poly (other ! p # script p) x) [0..<32]"
  let ?shares' = "map (\<lambda>x. share x (?h x)) (indices (unat N))"
  have "shamir_split (scripted_rng script) other N M 0 =
      Some (Ok ?shares', gen_state (scripted_rng script) M 0 32)"
    using shamir_split_result [OF assms(10,3,4,5), of "scripted_rng script" 0]
      coeffs_at_scripted [of script M other] sc(1) assms(9) by simp
  moreover have "set sub \<subseteq> set ?shares'"
  proof
    fix t assume t: "t \<in> set sub"
    then obtain i where i: "i < length sub" "t = sub ! i" by (metis in_set_conv_nth)
    have "share_y t = ?h (share_index t)"
      using s(2) [OF t] sc(2) [OF i(1)] i(2) by (intro nth_equalityI) auto
    moreover have "share_index t \<in> set (indices (unat N))" using sh t by auto
    moreover have "t = share (share_index t) (share_y t)" by simp
    ultimately show "t \<in> set ?shares'" unfolding set_map by (metis (mono_tags) image_eqI)
  qed
  moreover have "rng_fills (scripted_rng script)"
    by (simp add: rng_fills_def scripted_rng_def)
  ultimately show ?thesis by blast
qed

theorem shamir_secrecy_witness:
  "\<exists>shares g' script shares' g''.
     shamir_split zero_rng (replicate 32 7) 5 3 0 = Some (Ok shares, g') \<and>
     shamir_split (scripted_rng script) (replicate 32 99) 5 3 0 = Some (Ok shares', g'') \<and>
     set (take 2 shares) \<subseteq> set shares'"
proof -
  have fills: "rng_fills zero_rng" by (simp add: rng_fills_def zero_rng_def)
  let ?sh = "map (\<lambda>x. share x (map (\<lambda>p. eval_poly (coeffs_at zero_rng (replicate 32 7) 3 0 p) x) [0..<32]))
      (indices (unat (5 :: byte)))"
  have sp: "shamir_split zero_rng (replicate 32 7) 5 3 0 = Some (Ok ?sh, gen_state zero_rng 3 0 32)"
    by (rule shamir_split_result) simp_all
  have "distinct ?sh" using distinct_indices [of 5] by (simp add: distinct_map inj_on_def)
  then have d: "distinct (take 2 ?sh)" by (rule distinct_take)
  have "\<exists>script shares'. rng_fills (scripted_rng script) \<and>
     (\<exists>g''. shamir_split (scripted_rng script) (replicate 32 99) 5 3 0 = Some (Ok shares', g'')) \<and>
     set (take 2 ?sh) \<subseteq> set shares'"
    by (rule shamir_secrecy [OF fills _ _ _ _ sp d]) (simp_all only: set_take_subset, simp_all)
  with sp show ?thesis by blast
qed

text \<open>
  C40. A counter that cannot count to 256: splitting into 255 shares, which the
  guards accept, never returns.
\<close>

theorem shamir_split_255_diverges:
  assumes "length secret = 32" and "0 < M"
  shows "shamir_split rng secret 255 M g = None"
  using assms byte_le_255 [of M]
  by (simp add: shamir_split_def x_loop_diverges not_less word_gt_0)

theorem shamir_split_255_diverges_witness:
  "shamir_split zero_rng (replicate 32 7) 255 3 0 = None"
  by (rule shamir_split_255_diverges) simp_all

interpretation share_codec: codec "\<lambda>s. the_ok (share_serialize s)" share_deserialize
    "\<lambda>s. length (share_y s) = 32 \<and> share_index s \<noteq> 0"
  by unfold_locales (simp add: share_serialize_def share_deserialize_def)

end
