(* ===== verification/Cbor.thy ===== *)
theory Cbor
  imports Wire
begin

text \<open>
  The CBOR codec (core/bootstrap/cbor.hpp, cbor.cpp).  The encoder only appends:
  an operation of Encoder is modelled by the bytes it appends to the buffer.  The
  decoder keeps its data and its 64-bit position; sizes and positions are 64-bit
  words because the bounds checks of the code add them with wrap-around.

  Besides a value or an error an operation can read outside of the data, which
  is the outcome Fault; the recursive operations take a fuel argument and stop
  with OutOfFuel when it is used up.
\<close>

section \<open>Encoder\<close>

definition encode_head :: "byte \<Rightarrow> u64 \<Rightarrow> bytes" where
  "encode_head major val =
     (if val \<le> 23 then [push_bit 5 major OR ucast val]
      else if val \<le> 0xFF then (push_bit 5 major OR 24) # write_be 1 val
      else if val \<le> 0xFFFF then (push_bit 5 major OR 25) # write_be 2 val
      else if val \<le> 0xFFFFFFFF then (push_bit 5 major OR 26) # write_be 4 val
      else (push_bit 5 major OR 27) # write_be 8 val)"

definition encode_uint :: "u64 \<Rightarrow> bytes" where
  "encode_uint val = encode_head 0 val"

definition encode_int :: "i64 \<Rightarrow> bytes" where
  "encode_int val = (if 0 \<le> sint val then encode_uint val else encode_head 1 (- 1 - val))"

definition encode_bytes :: "bytes \<Rightarrow> bytes" where
  "encode_bytes data = encode_head 2 (word_of_nat (length data)) @ data"

definition encode_string :: "bytes \<Rightarrow> bytes" where
  "encode_string s = encode_head 3 (word_of_nat (length s)) @ s"

definition encode_array :: "nat \<Rightarrow> bytes" where
  "encode_array count = encode_head 4 (word_of_nat count)"

definition encode_map :: "nat \<Rightarrow> bytes" where
  "encode_map count = encode_head 5 (word_of_nat count)"

definition encode_uint_key :: "u64 \<Rightarrow> bytes" where
  "encode_uint_key key = encode_uint key"

definition encode_string_key :: "bytes \<Rightarrow> bytes" where
  "encode_string_key key = encode_string key"

section \<open>Decoder\<close>

datatype 'a dres = Got 'a | Fail error_code | Fault | OutOfFuel

record Decoder =
  dec_data :: bytes
  dec_pos :: u64

definition decoder :: "bytes \<Rightarrow> Decoder" where
  "decoder data = \<lparr>dec_data = data, dec_pos = 0\<rparr>"

definition dec_size :: "Decoder \<Rightarrow> u64" where
  "dec_size d = word_of_nat (length (dec_data d))"

definition dec_done :: "Decoder \<Rightarrow> bool" where
  "dec_done d = (dec_size d \<le> dec_pos d)"

definition dec_remaining :: "Decoder \<Rightarrow> u64" where
  "dec_remaining d = dec_size d - dec_pos d"

definition advance :: "u64 \<Rightarrow> Decoder \<Rightarrow> Decoder" where
  "advance n d = d\<lparr>dec_pos := dec_pos d + n\<rparr>"

text \<open>The bytes from the position on (Decoder::current_view).\<close>

definition current_view :: "Decoder \<Rightarrow> bytes" where
  "current_view d = drop (unat (dec_pos d)) (dec_data d)"

abbreviation cbor_err :: "u16 \<Rightarrow> error_code" where
  "cbor_err c \<equiv> smo_err CatProtocol c SevError NoRetry RecNone"

text \<open>Sequencing of decoder operations: an outcome other than a value returns at
  once.\<close>

definition dbind ::
  "'a dres \<times> Decoder \<Rightarrow> ('a \<Rightarrow> Decoder \<Rightarrow> 'b dres \<times> Decoder) \<Rightarrow> 'b dres \<times> Decoder" where
  "dbind r k = (case r of (Got x, d) \<Rightarrow> k x d | (Fail e, d) \<Rightarrow> (Fail e, d)
                 | (Fault, d) \<Rightarrow> (Fault, d) | (OutOfFuel, d) \<Rightarrow> (OutOfFuel, d))"

definition extra_bytes :: "byte \<Rightarrow> nat option" where
  "extra_bytes ai =
     (if ai = 24 then Some 1 else if ai = 25 then Some 2 else if ai = 26 then Some 4
      else if ai = 27 then Some 8 else None)"

definition decode_head :: "Decoder \<Rightarrow> (byte \<times> u64) dres \<times> Decoder" where
  "decode_head d =
     (if dec_done d then (Fail (cbor_err 700), d)
      else
        let ib = dec_data d ! unat (dec_pos d);
            d1 = advance 1 d;
            major = drop_bit 5 ib;
            ai = ib AND 0x1F
        in if ai \<le> 23 then (Got (major, ucast ai), d1)
           else case extra_bytes ai of
             None \<Rightarrow> (Fail (cbor_err 701), d1)
           | Some extra \<Rightarrow>
               if dec_size d1 < dec_pos d1 + word_of_nat extra then (Fail (cbor_err 700), d1)
               else (Got (major, fst (read_be extra (current_view d1))),
                     advance (word_of_nat extra) d1))"

definition peek_major :: "Decoder \<Rightarrow> byte" where
  "peek_major d = (if dec_done d then 0xFF else drop_bit 5 (dec_data d ! unat (dec_pos d)))"

definition decode_uint :: "Decoder \<Rightarrow> u64 dres \<times> Decoder" where
  "decode_uint d = dbind (decode_head d) (\<lambda>(major, val) d.
     if major \<noteq> 0 then (Fail (cbor_err 702), d) else (Got val, d))"

definition decode_int :: "Decoder \<Rightarrow> i64 dres \<times> Decoder" where
  "decode_int d = dbind (decode_head d) (\<lambda>(major, val) d.
     if major = 0 then (Got val, d)
     else if major = 1 then (Got (- 1 - val), d)
     else (Fail (cbor_err 703), d))"

text \<open>A BytesView is a start and a length; the code checks pos + n with
  wrap-around before it builds the view.\<close>

definition decode_view :: "byte \<Rightarrow> u16 \<Rightarrow> Decoder \<Rightarrow> (u64 \<times> u64) dres \<times> Decoder" where
  "decode_view expected code d = dbind (decode_head d) (\<lambda>(major, n) d.
     if major \<noteq> expected then (Fail (cbor_err code), d)
     else if dec_size d < dec_pos d + n then (Fail (cbor_err 700), d)
     else (Got (dec_pos d, n), advance n d))"

definition decode_bytes :: "Decoder \<Rightarrow> (u64 \<times> u64) dres \<times> Decoder" where
  "decode_bytes d = decode_view 2 704 d"

text \<open>Copying a view out reads every byte of it.  A length beyond the data, which only a wrapped
  position lets through, is Fault: the copy leaves the data, or the string cannot be made so long.\<close>

definition copy_view :: "u64 \<times> u64 \<Rightarrow> Decoder \<Rightarrow> bytes dres \<times> Decoder" where
  "copy_view v d =
     (case v of (p, n) \<Rightarrow>
        if unat p + unat n \<le> length (dec_data d)
        then (Got (take (unat n) (drop (unat p) (dec_data d))), d)
        else (Fault, d))"

definition decode_string :: "Decoder \<Rightarrow> bytes dres \<times> Decoder" where
  "decode_string d = dbind (decode_view 3 705 d) copy_view"

definition decode_array_size :: "Decoder \<Rightarrow> u64 dres \<times> Decoder" where
  "decode_array_size d = dbind (decode_head d) (\<lambda>(major, n) d.
     if major \<noteq> 4 then (Fail (cbor_err 706), d) else (Got n, d))"

definition decode_map_size :: "Decoder \<Rightarrow> u64 dres \<times> Decoder" where
  "decode_map_size d = dbind (decode_head d) (\<lambda>(major, n) d.
     if major \<noteq> 5 then (Fail (cbor_err 707), d) else (Got n, d))"

text \<open>skip_value is Decoder::skip, skip_values its loops "for (i = 0; i < n; ++i)
  skip()".  The heads of integers and simple values are read without looking at
  the result.\<close>

fun skip_value :: "nat \<Rightarrow> Decoder \<Rightarrow> unit dres \<times> Decoder"
  and skip_values :: "nat \<Rightarrow> u64 \<Rightarrow> Decoder \<Rightarrow> unit dres \<times> Decoder" where
  "skip_value 0 d = (OutOfFuel, d)"
| "skip_value (Suc f) d =
     (if dec_done d then (Fail (cbor_err 700), d)
      else
        let major = drop_bit 5 (dec_data d ! unat (dec_pos d))
        in if major = 0 \<or> major = 1 then (Got (), snd (decode_head d))
           else if major = 2 then dbind (decode_bytes d) (\<lambda>_ d. (Got (), d))
           else if major = 3 then dbind (decode_string d) (\<lambda>_ d. (Got (), d))
           else if major = 4 then dbind (decode_array_size d) (skip_values f)
           else if major = 5 then dbind (decode_map_size d) (\<lambda>n. skip_values f (n * 2))
           else if major = 7 then (Got (), snd (decode_head d))
           else (Fail (cbor_err 708), d))"
| "skip_values 0 n d = (OutOfFuel, d)"
| "skip_values (Suc f) n d =
     (if n = 0 then (Got (), d)
      else dbind (skip_value f d) (\<lambda>_. skip_values f (n - 1)))"

text \<open>The loop shared by decode_uint_field, decode_string_field and
  decode_bytes_field: find the target key among unsigned keys, skipping the
  values of the others, then decode its value.\<close>

fun decode_field ::
  "(Decoder \<Rightarrow> 'a dres \<times> Decoder) \<Rightarrow> nat \<Rightarrow> u64 \<Rightarrow> Decoder \<Rightarrow> 'a dres \<times> Decoder" where
  "decode_field value 0 target d = (OutOfFuel, d)"
| "decode_field value (Suc f) target d =
     (if dec_done d then (Fail (cbor_err 709), d)
      else if peek_major d \<noteq> 0 then (Fail (cbor_err 709), d)
      else dbind (decode_uint d) (\<lambda>key d.
        if key = target then value d
        else dbind (skip_value f d) (\<lambda>_. decode_field value f target)))"

definition decode_uint_field :: "nat \<Rightarrow> u64 \<Rightarrow> Decoder \<Rightarrow> u64 dres \<times> Decoder" where
  "decode_uint_field = decode_field decode_uint"

definition decode_string_field :: "nat \<Rightarrow> u64 \<Rightarrow> Decoder \<Rightarrow> bytes dres \<times> Decoder" where
  "decode_string_field = decode_field decode_string"

definition decode_bytes_field :: "nat \<Rightarrow> u64 \<Rightarrow> Decoder \<Rightarrow> (u64 \<times> u64) dres \<times> Decoder" where
  "decode_bytes_field = decode_field decode_bytes"

section \<open>Reading a head\<close>

lemma dbind_simps [simp]:
  "dbind (Got x, d) k = k x d"
  "dbind (Fail e, d) k = (Fail e, d)"
  "dbind (Fault, d) k = (Fault, d)"
  "dbind (OutOfFuel, d) k = (OutOfFuel, d)"
  by (simp_all add: dbind_def)

lemma dbind_Got_iff:
  "dbind r k = (Got y, d') \<longleftrightarrow> (\<exists>x d. r = (Got x, d) \<and> k x d = (Got y, d'))"
  by (auto simp: dbind_def split: prod.splits dres.splits)

text \<open>A decoder whose position is inside its data and whose data is no longer
  than the largest object of the platform.\<close>

definition dec_ok :: "Decoder \<Rightarrow> bool" where
  "dec_ok d \<longleftrightarrow> unat (dec_pos d) \<le> length (dec_data d) \<and> length (dec_data d) < 2 ^ 63"

lemma unat_u64: "n < 2 ^ 64 \<Longrightarrow> unat (word_of_nat n :: u64) = n"
  by (rule unat_of_nat_lt) simp

lemma dec_size_nat: "dec_ok d \<Longrightarrow> unat (dec_size d) = length (dec_data d)"
  by (simp add: dec_ok_def dec_size_def unat_u64)

lemma dec_done_iff: "dec_ok d \<Longrightarrow> dec_done d \<longleftrightarrow> current_view d = []"
  by (simp add: dec_done_def word_le_nat_alt dec_size_nat current_view_def)

lemma length_current_view: "dec_ok d \<Longrightarrow> length (current_view d) = length (dec_data d) - unat (dec_pos d)"
  by (simp add: current_view_def)

lemma advance_ok:
  assumes "dec_ok d" and "n \<le> length (current_view d)"
  shows "dec_ok (advance (word_of_nat n) d)"
    and "current_view (advance (word_of_nat n) d) = drop n (current_view d)"
    and "dec_data (advance (word_of_nat n) d) = dec_data d"
proof -
  have n: "unat (dec_pos d) + n \<le> length (dec_data d)"
    using assms by (auto simp: dec_ok_def current_view_def)
  then have "unat (dec_pos d) + n < 2 ^ 64" using assms(1) by (simp add: dec_ok_def)
  then have "unat (dec_pos d + word_of_nat n) = unat (dec_pos d) + n"
    using unat_u64 [of "unat (dec_pos d) + n"] by simp
  with n assms(1) show "dec_ok (advance (word_of_nat n) d)"
      "current_view (advance (word_of_nat n) d) = drop n (current_view d)"
      "dec_data (advance (word_of_nat n) d) = dec_data d"
    by (simp_all add: dec_ok_def advance_def current_view_def add.commute)
qed

lemma head_byte:
  fixes major x :: byte
  assumes "major < 8" and "x < 32"
  shows "drop_bit 5 (push_bit 5 major OR x) = major" and "(push_bit 5 major OR x) AND 0x1F = x"
proof -
  have m: "take_bit 3 major = major" using assms(1) by (intro take_bit_small) (simp add: word_less_nat_alt)
  have x: "take_bit 5 x = x" using assms(2) by (intro take_bit_small) (simp add: word_less_nat_alt)
  have mb: "bit major k \<Longrightarrow> k < 3" for k by (metis m bit_take_bit_iff)
  have xb: "bit x k \<Longrightarrow> k < 5" for k by (metis x bit_take_bit_iff)
  show "drop_bit 5 (push_bit 5 major OR x) = major"
  proof (rule bit_word_eqI)
    fix k assume "k < LENGTH(8)"
    then show "bit (drop_bit 5 (push_bit 5 major OR x)) k = bit major k"
      using mb [of k] xb [of "k + 5"] by (auto simp: bit_simps add.commute)
  qed
  have "(push_bit 5 major OR x) AND 0x1F = take_bit 5 (push_bit 5 major OR x)"
    by (simp add: take_bit_eq_mask mask_eq_exp_minus_1)
  also have "\<dots> = x"
    by (rule bit_word_eqI) (use xb in \<open>auto simp: bit_simps\<close>)
  finally show "(push_bit 5 major OR x) AND 0x1F = x" .
qed

lemma encode_head_cases:
  obtains (small) "val \<le> 23" "encode_head major val = [push_bit 5 major OR ucast val]"
  | (ext) ai k where "extra_bytes ai = Some k" "23 < ai" "ai < 32" "k \<le> 8" "take_bit (8 * k) val = val"
      "encode_head major val = (push_bit 5 major OR ai) # write_be k val"
proof -
  consider "val \<le> 23" | "\<not> val \<le> 23" "val \<le> 0xFF" | "\<not> val \<le> 0xFF" "val \<le> 0xFFFF"
    | "\<not> val \<le> 0xFFFF" "val \<le> 0xFFFFFFFF" | "\<not> val \<le> 0xFFFFFFFF" by blast
  then show thesis
  proof cases
    case 1
    then show ?thesis using small by (simp add: encode_head_def)
  next
    case 2
    then have "take_bit (8 * 1) val = val" by (intro take_bit_small) (simp add: word_le_nat_alt)
    with 2 show ?thesis by (intro ext [of 24 1]) (simp_all add: encode_head_def extra_bytes_def)
  next
    case 3
    then have "take_bit (8 * 2) val = val" by (intro take_bit_small) (simp add: word_le_nat_alt)
    moreover have "\<not> val \<le> 23" using 3 by (auto simp: word_le_nat_alt)
    ultimately show ?thesis using 3 by (intro ext [of 25 2]) (simp_all add: encode_head_def extra_bytes_def)
  next
    case 4
    then have "take_bit (8 * 4) val = val" by (intro take_bit_small) (simp add: word_le_nat_alt)
    moreover have "\<not> val \<le> 23" "\<not> val \<le> 0xFF" using 4 by (auto simp: word_le_nat_alt)
    ultimately show ?thesis using 4 by (intro ext [of 26 4]) (simp_all add: encode_head_def extra_bytes_def)
  next
    case 5
    have "take_bit (8 * 8) val = val" by (simp add: take_bit_word_eq_self)
    moreover have "\<not> val \<le> 23" "\<not> val \<le> 0xFF" "\<not> val \<le> 0xFFFF" using 5 by (auto simp: word_le_nat_alt)
    ultimately show ?thesis using 5 by (intro ext [of 27 8]) (simp_all add: encode_head_def extra_bytes_def)
  qed
qed

text \<open>The decoder has consumed what stood before r.\<close>

definition moved :: "Decoder \<Rightarrow> bytes \<Rightarrow> Decoder \<Rightarrow> bool" where
  "moved d r d' \<longleftrightarrow> dec_ok d' \<and> current_view d' = r \<and> dec_data d' = dec_data d"

lemma moved_ok: "moved d r d' \<Longrightarrow> dec_ok d'" and moved_view: "moved d r d' \<Longrightarrow> current_view d' = r"
  by (simp_all add: moved_def)

lemma moved_trans: "moved d r d' \<Longrightarrow> moved d' s d'' \<Longrightarrow> moved d s d''"
  by (simp add: moved_def)

lemma moved_advance:
  assumes "dec_ok d" and "current_view d = xs @ r" and "w = word_of_nat (length xs)"
  shows "moved d r (advance w d)"
  using advance_ok [OF assms(1), of "length xs"] assms(2,3) by (simp add: moved_def)

lemma nth_pos: "current_view d = b # r \<Longrightarrow> dec_data d ! unat (dec_pos d) = b"
  by (metis current_view_def drop_eq_Nil2 hd_drop_conv_nth linorder_not_le list.distinct(1) list.sel(1))

lemma decode_head_at:
  assumes ok: "dec_ok d" and view: "current_view d = encode_head major val @ r" and major: "major < 8"
  obtains d' where "decode_head d = (Got (major, val), d')" "moved d r d'"
proof (cases rule: encode_head_cases [of val major])
  case small
  have v32: "(ucast val :: byte) < 32" and v: "(ucast (ucast val :: byte) :: u64) = val"
    and v23: "(ucast val :: byte) \<le> 23"
  proof -
    have u: "unat val \<le> 23" using small(1) by (simp add: word_le_nat_alt)
    have "unat (ucast val :: byte) = unat val"
      using u by (simp add: unsigned_ucast_eq take_bit_nat_eq_self)
    with u show "(ucast val :: byte) < 32" "(ucast val :: byte) \<le> 23"
      by (simp_all add: word_less_nat_alt word_le_nat_alt)
    have "take_bit 8 val = val" using u by (intro take_bit_small) simp
    then show "(ucast (ucast val :: byte) :: u64) = val" by (simp add: unsigned_ucast_eq)
  qed
  have "\<not> dec_done d" using view small by (simp add: dec_done_iff [OF ok])
  moreover have "dec_data d ! unat (dec_pos d) = push_bit 5 major OR ucast val"
    using view small by (intro nth_pos) simp
  ultimately have "decode_head d = (Got (major, val), advance 1 d)"
    using head_byte [OF major v32] v v23 by (simp add: decode_head_def Let_def)
  moreover have "moved d r (advance 1 d)"
    using view small(2) by (intro moved_advance [OF ok]) auto
  ultimately show ?thesis by (rule that)
next
  case (ext ai k)
  let ?d1 = "advance 1 d"
  have m1: "moved d (write_be k val @ r) ?d1"
    using view ext(6) by (intro moved_advance [OF ok, of "[push_bit 5 major OR ai]"]) auto
  have m2: "moved ?d1 r (advance (word_of_nat k) ?d1)"
    by (rule moved_advance) (use m1 in \<open>auto simp: moved_def\<close>)
  have "\<not> dec_done d" using view ext by (simp add: dec_done_iff [OF ok])
  moreover have "dec_data d ! unat (dec_pos d) = push_bit 5 major OR ai"
    using view ext by (intro nth_pos) simp
  moreover have "\<not> dec_size ?d1 < dec_pos ?d1 + word_of_nat k"
  proof -
    have "unat (dec_pos (advance (word_of_nat k) ?d1)) \<le> length (dec_data ?d1)"
      using m2 unfolding moved_def dec_ok_def by metis
    then show ?thesis
      using dec_size_nat [OF moved_ok [OF m1]] by (simp add: advance_def word_less_nat_alt)
  qed
  moreover have "read_be k (write_be k val @ r) = (val, r)"
    using ext(5) by (simp add: read_be_def read_be_acc_write)
  moreover have "\<not> ai \<le> 23" using ext(2) by simp
  ultimately have "decode_head d = (Got (major, val), advance (word_of_nat k) ?d1)"
    using head_byte [OF major ext(3)] ext(1) moved_view [OF m1]
    by (simp add: decode_head_def Let_def)
  moreover have "moved d r (advance (word_of_nat k) ?d1)" using m1 m2 by (rule moved_trans)
  ultimately show ?thesis by (rule that)
qed

section \<open>Reading values back\<close>

lemma decode_uint_at:
  assumes "dec_ok d" and "current_view d = encode_uint v @ r"
  obtains d' where "decode_uint d = (Got v, d')" "moved d r d'"
  using assms(2) unfolding encode_uint_def
  by (rule decode_head_at [OF assms(1)]) (auto simp: decode_uint_def intro: that)

lemma decode_int_at:
  assumes "dec_ok d" and "current_view d = encode_int v @ r"
  obtains d' where "decode_int d = (Got v, d')" "moved d r d'"
proof (cases "0 \<le> sint v")
  case True
  then have "current_view d = encode_head 0 v @ r"
    using assms(2) by (simp add: encode_int_def encode_uint_def)
  then show ?thesis
    by (rule decode_head_at [OF assms(1)]) (auto simp: decode_int_def intro: that)
next
  case False
  then have "current_view d = encode_head 1 (- 1 - v) @ r"
    using assms(2) by (simp add: encode_int_def)
  then show ?thesis
    by (rule decode_head_at [OF assms(1)]) (auto simp: decode_int_def intro: that)
qed

lemma decode_view_at:
  assumes ok: "dec_ok d" and major: "major < 8"
    and view: "current_view d = encode_head major (word_of_nat (length s)) @ s @ r"
  obtains d' p where "decode_view major c d = (Got (p, word_of_nat (length s)), d')" "moved d r d'"
    "copy_view (p, word_of_nat (length s)) d' = (Got s, d')"
proof -
  from ok view major obtain d1 where d1: "decode_head d = (Got (major, word_of_nat (length s)), d1)"
      "moved d (s @ r) d1"
    by (rule decode_head_at)
  let ?n = "word_of_nat (length s) :: u64"
  have m2: "moved d1 r (advance ?n d1)"
    by (rule moved_advance) (use d1(2) in \<open>auto simp: moved_def\<close>)
  have view1: "drop (unat (dec_pos d1)) (dec_data d1) = s @ r" and ok1: "dec_ok d1"
    using d1(2) unfolding moved_def current_view_def by auto
  have len: "unat (dec_pos d1) + length s \<le> length (dec_data d1)"
    using arg_cong [OF view1, of length] ok1 by (auto simp: dec_ok_def)
  then have n: "unat ?n = length s"
    using ok1 by (intro unat_u64) (simp add: dec_ok_def)
  have "unat (dec_pos d1 + ?n) \<le> length (dec_data d1)"
    using m2 unfolding moved_def dec_ok_def by (simp add: advance_def)
  then have "\<not> dec_size d1 < dec_pos d1 + ?n"
    using dec_size_nat [OF ok1] by (simp add: word_less_nat_alt)
  then have "decode_view major c d = (Got (dec_pos d1, ?n), advance ?n d1)"
    by (simp add: decode_view_def d1(1))
  moreover have "copy_view (dec_pos d1, ?n) (advance ?n d1) = (Got s, advance ?n d1)"
    using len n view1 by (simp add: copy_view_def advance_def)
  ultimately show ?thesis using that moved_trans [OF d1(2) m2] by blast
qed

lemma decode_bytes_at:
  assumes "dec_ok d" and "current_view d = encode_bytes s @ r"
  obtains d' p where "decode_bytes d = (Got (p, word_of_nat (length s)), d')" "moved d r d'"
    "copy_view (p, word_of_nat (length s)) d' = (Got s, d')"
  using assms(2) unfolding encode_bytes_def append_assoc
  by (rule decode_view_at [OF assms(1), rotated]) (auto simp: decode_bytes_def intro: that)

lemma decode_string_at:
  assumes "dec_ok d" and "current_view d = encode_string s @ r"
  obtains d' where "decode_string d = (Got s, d')" "moved d r d'"
  using assms(2) unfolding encode_string_def append_assoc
  by (rule decode_view_at [OF assms(1), rotated, where c = 705]) (auto simp: decode_string_def intro: that)

lemma decode_array_size_at:
  assumes "dec_ok d" and "current_view d = encode_array n @ r"
  obtains d' where "decode_array_size d = (Got (word_of_nat n), d')" "moved d r d'"
  using assms(2) unfolding encode_array_def
  by (rule decode_head_at [OF assms(1)]) (auto simp: decode_array_size_def intro: that)

lemma decode_map_size_at:
  assumes "dec_ok d" and "current_view d = encode_map n @ r"
  obtains d' where "decode_map_size d = (Got (word_of_nat n), d')" "moved d r d'"
  using assms(2) unfolding encode_map_def
  by (rule decode_head_at [OF assms(1)]) (auto simp: decode_map_size_def intro: that)

lemma encode_head_nonempty: "encode_head major val \<noteq> []"
  by (simp add: encode_head_def)

lemma hd_encode_head:
  assumes "major < 8"
  shows "drop_bit 5 (hd (encode_head major val)) = major"
proof (cases rule: encode_head_cases [of val major])
  case small
  have "unat (ucast val :: byte) = unat val"
    using small(1) by (simp add: word_le_nat_alt unsigned_ucast_eq take_bit_nat_eq_self)
  then have "(ucast val :: byte) < 32"
    using small(1) by (simp add: word_less_nat_alt word_le_nat_alt)
  then show ?thesis using small(2) head_byte(1) [OF assms] by simp
next
  case (ext ai k)
  then show ?thesis using head_byte(1) [OF assms] by simp
qed

lemma peek_at:
  assumes "dec_ok d" and "current_view d = encode_head major val @ r" and "major < 8"
  shows "\<not> dec_done d" "peek_major d = major"
    "dec_data d ! unat (dec_pos d) = hd (encode_head major val)"
    "drop_bit 5 (dec_data d ! unat (dec_pos d)) = major"
proof -
  obtain b bs where b: "encode_head major val = b # bs"
    using encode_head_nonempty by (cases "encode_head major val") auto
  show nd: "\<not> dec_done d" using assms(1,2) b by (simp add: dec_done_iff)
  show at: "dec_data d ! unat (dec_pos d) = hd (encode_head major val)"
    using assms(2) b by (auto intro: nth_pos)
  then show "peek_major d = major" "drop_bit 5 (dec_data d ! unat (dec_pos d)) = major"
    using nd hd_encode_head [OF assms(3)] by (simp_all add: peek_major_def)
qed

section \<open>Progress on arbitrary data\<close>

text \<open>A decoder that has moved forward over the same data (keeps), and by at least
  one byte (shrinks).\<close>

definition keeps :: "Decoder \<Rightarrow> Decoder \<Rightarrow> bool" where
  "keeps d d' \<longleftrightarrow> dec_data d' = dec_data d \<and> dec_ok d' \<and> unat (dec_pos d) \<le> unat (dec_pos d')"

definition shrinks :: "Decoder \<Rightarrow> Decoder \<Rightarrow> bool" where
  "shrinks d d' \<longleftrightarrow> keeps d d' \<and> unat (dec_pos d) < unat (dec_pos d')"

named_theorems progress \<open>decoder operations move forward\<close>

lemma keeps_refl [progress]: "dec_ok d \<Longrightarrow> keeps d d"
  by (simp add: keeps_def)

lemma keeps_trans: "keeps d d' \<Longrightarrow> keeps d' d'' \<Longrightarrow> keeps d d''"
  by (simp add: keeps_def)

lemma shrinks_keeps: "shrinks d d' \<Longrightarrow> keeps d' d'' \<Longrightarrow> shrinks d d''"
  by (simp add: shrinks_def keeps_def)

lemma keeps_shrinks: "keeps d d' \<Longrightarrow> shrinks d' d'' \<Longrightarrow> shrinks d d''"
  by (simp add: shrinks_def keeps_def)

lemma shrinks_imp_keeps: "shrinks d d' \<Longrightarrow> keeps d d'"
  by (simp add: shrinks_def)

lemma shrinks_ok: "shrinks d d' \<Longrightarrow> dec_ok d'" and keeps_ok: "keeps d d' \<Longrightarrow> dec_ok d'"
  by (simp_all add: shrinks_def keeps_def)

lemma shrinks_length: "dec_ok d \<Longrightarrow> shrinks d d' \<Longrightarrow> length (current_view d') < length (current_view d)"
  by (auto simp: shrinks_def keeps_def dec_ok_def current_view_def)

lemma pos_add:
  assumes "dec_ok d" and "unat n < 2 ^ 63"
  shows "unat (dec_pos d + n) = unat (dec_pos d) + unat n"
proof -
  have "unat (dec_pos d) + unat n < 2 ^ 64" using assms by (simp add: dec_ok_def)
  then show ?thesis by (simp add: unat_word_ariths take_bit_nat_eq_self)
qed

lemma keeps_advance:
  assumes "dec_ok d" and "unat n < 2 ^ 63" and "\<not> dec_size d < dec_pos d + n"
  shows "keeps d (advance n d)"
  using assms pos_add [OF assms(1,2)]
  by (auto simp: keeps_def advance_def dec_ok_def word_less_nat_alt dec_size_nat)

lemma shrinks_advance:
  assumes "dec_ok d" and "\<not> dec_done d"
  shows "shrinks d (advance 1 d)"
proof -
  have "unat (dec_pos d) < length (dec_data d)"
    using assms by (simp add: dec_done_def word_le_nat_alt dec_size_nat)
  then show ?thesis
    using assms pos_add [OF assms(1), of 1] by (simp add: shrinks_def keeps_def advance_def dec_ok_def)
qed

lemma decode_head_shrinks [progress]:
  assumes "dec_ok d" and "decode_head d = (Got x, d')"
  shows "shrinks d d'"
proof -
  have s1: "shrinks d (advance 1 d)" if "\<not> dec_done d" using assms(1) that by (rule shrinks_advance)
  have "shrinks d (advance (word_of_nat k) (advance 1 d))"
    if "\<not> dec_done d" "extra_bytes ai = Some k"
      "\<not> dec_size (advance 1 d) < dec_pos (advance 1 d) + word_of_nat k" for ai k
  proof -
    have "k < 2 ^ 63" using that(2) by (auto simp: extra_bytes_def split: if_splits)
    then have "unat (word_of_nat k :: u64) < 2 ^ 63" by (simp add: unat_u64)
    with s1 [OF that(1)] show ?thesis
      using shrinks_keeps keeps_advance [OF shrinks_ok _ that(3)] by blast
  qed
  with assms(2) s1 show ?thesis
    by (auto simp: decode_head_def Let_def split: if_splits option.splits)
qed

lemma decode_head_fuel [simp]: "decode_head d \<noteq> (OutOfFuel, d')" "fst (decode_head d) \<noteq> OutOfFuel"
  by (auto simp: decode_head_def Let_def split: if_splits option.splits)

lemma dbind_fuel:
  "fst (dbind r k) = OutOfFuel \<longleftrightarrow>
     fst r = OutOfFuel \<or> (\<exists>x d. r = (Got x, d) \<and> fst (k x d) = OutOfFuel)"
  by (auto simp: dbind_def split: prod.splits dres.splits)

lemma decode_uint_shrinks [progress]: "dec_ok d \<Longrightarrow> decode_uint d = (Got x, d') \<Longrightarrow> shrinks d d'"
  by (auto simp: decode_uint_def dbind_Got_iff split: if_splits intro: progress)

lemma decode_int_shrinks [progress]: "dec_ok d \<Longrightarrow> decode_int d = (Got x, d') \<Longrightarrow> shrinks d d'"
  by (auto simp: decode_int_def dbind_Got_iff split: if_splits intro: progress)

lemma decode_array_size_shrinks [progress]:
  "dec_ok d \<Longrightarrow> decode_array_size d = (Got x, d') \<Longrightarrow> shrinks d d'"
  by (auto simp: decode_array_size_def dbind_Got_iff split: if_splits intro: progress)

lemma decode_map_size_shrinks [progress]:
  "dec_ok d \<Longrightarrow> decode_map_size d = (Got x, d') \<Longrightarrow> shrinks d d'"
  by (auto simp: decode_map_size_def dbind_Got_iff split: if_splits intro: progress)

text \<open>A view that can be copied out lies inside of the data, so that its check did
  not wrap around.\<close>

lemma decode_view_shrinks:
  assumes "dec_ok d" and "decode_view major c d = (Got v, d')" and "copy_view v d' = (Got b, d'')"
  shows "shrinks d d''"
proof -
  from assms(2) obtain n d1 where d1: "decode_head d = (Got (major, n), d1)" "v = (dec_pos d1, n)"
      "d' = advance n d1" "\<not> dec_size d1 < dec_pos d1 + n"
    by (auto simp: decode_view_def dbind_Got_iff split: if_splits)
  have s: "shrinks d d1" using assms(1) d1(1) by (rule progress)
  have "unat (dec_pos d1) + unat n \<le> length (dec_data d1)" "d'' = d'"
    using assms(3) d1 by (auto simp: copy_view_def advance_def split: if_splits)
  moreover from this have "unat n < 2 ^ 63" using shrinks_ok [OF s] by (simp add: dec_ok_def)
  ultimately show ?thesis using shrinks_keeps [OF s keeps_advance [OF shrinks_ok [OF s] _ d1(4)]] d1(3) by simp
qed

lemma decode_string_shrinks [progress]: "dec_ok d \<Longrightarrow> decode_string d = (Got x, d') \<Longrightarrow> shrinks d d'"
  by (auto simp: decode_string_def dbind_Got_iff intro: decode_view_shrinks)

lemma decode_fuel [simp]:
  "fst (decode_uint d) \<noteq> OutOfFuel" "fst (decode_int d) \<noteq> OutOfFuel"
  "fst (decode_array_size d) \<noteq> OutOfFuel" "fst (decode_map_size d) \<noteq> OutOfFuel"
  "fst (decode_view m c d) \<noteq> OutOfFuel" "fst (copy_view v d) \<noteq> OutOfFuel"
  by (auto simp: decode_uint_def decode_int_def decode_array_size_def decode_map_size_def
      decode_view_def copy_view_def dbind_fuel split: if_splits prod.splits)

lemma decode_string_fuel [simp]:
  "fst (decode_string d) \<noteq> OutOfFuel" "fst (decode_bytes d) \<noteq> OutOfFuel"
  by (auto simp: decode_string_def decode_bytes_def dbind_fuel)

end
