(* ===== verification/Context_Value.thy ===== *)
theory Context_Value
  imports Cbor "HOL-Library.List_Lexorder"
begin

text \<open>
  ContextValue and the messages built on it (core/cbor/context_value.hpp, .cpp):
  the recursive variant, its CBOR form, the contract input and result messages
  and the schema registry.  std::string is a byte string; std::map is a list of
  entries sorted by key, which is the order the encoder iterates in; a double is
  its 64 bits.

  ContextArray::reserve throws for a count the allocator cannot serve: the
  largest count it serves is the argument lim of the decoder.
\<close>

section \<open>Values\<close>

datatype ContextValue =
    CNil
  | CBool bool
  | CInt i64
  | CFloat u64
  | CString bytes
  | CBytes bytes
  | CArray "ContextValue list"
  | CMap "(bytes \<times> ContextValue) list"

datatype CType = TNil | TBool | TInt | TFloat | TString | TBytes | TArray | TMap

primrec cv_type :: "ContextValue \<Rightarrow> CType" where
  "cv_type CNil = TNil"
| "cv_type (CBool _) = TBool"
| "cv_type (CInt _) = TInt"
| "cv_type (CFloat _) = TFloat"
| "cv_type (CString _) = TString"
| "cv_type (CBytes _) = TBytes"
| "cv_type (CArray _) = TArray"
| "cv_type (CMap _) = TMap"

text \<open>std::map::emplace: an existing key keeps its value.\<close>

fun map_emplace :: "bytes \<Rightarrow> 'v \<Rightarrow> (bytes \<times> 'v) list \<Rightarrow> (bytes \<times> 'v) list" where
  "map_emplace k v [] = [(k, v)]"
| "map_emplace k v ((k', v') # m) =
     (if k < k' then (k, v) # (k', v') # m
      else if k = k' then (k', v') # m
      else (k', v') # map_emplace k v m)"

definition ascii :: "string \<Rightarrow> bytes" where
  "ascii s = map (\<lambda>c. word_of_nat (of_char c)) s"

section \<open>Encoding\<close>

fun encode_context_value :: "ContextValue \<Rightarrow> bytes" where
  "encode_context_value CNil = [0xF6]"
| "encode_context_value (CBool b) = [if b then 0xF5 else 0xF4]"
| "encode_context_value (CInt i) = encode_int i"
| "encode_context_value (CFloat bits) = 0xFB # write_be 8 bits"
| "encode_context_value (CString s) = encode_string s"
| "encode_context_value (CBytes b) = encode_bytes b"
| "encode_context_value (CArray arr) =
     encode_array (length arr) @ concat (map encode_context_value arr)"
| "encode_context_value (CMap m) =
     encode_map (length m) @ concat (map (\<lambda>(key, elem). encode_string key @ encode_context_value elem) m)"

section \<open>Decoding\<close>

definition decode_simple :: "byte \<Rightarrow> Decoder \<Rightarrow> ContextValue dres \<times> Decoder" where
  "decode_simple ai d =
     (if ai = 20 then (Got (CBool False), advance 1 d)
      else if ai = 21 then (Got (CBool True), advance 1 d)
      else if ai = 22 then (Got CNil, advance 1 d)
      else if ai = 27 then
        if dec_remaining d < 9 then (Fail (cbor_err 700), d)
        else let d1 = advance 1 d
             in (Got (CFloat (fst (read_be 8 (current_view d1)))), advance 8 d1)
      else (Fail (cbor_err 708), d))"

fun decode_value :: "nat \<Rightarrow> nat \<Rightarrow> Decoder \<Rightarrow> ContextValue dres \<times> Decoder"
  and decode_elems :: "nat \<Rightarrow> nat \<Rightarrow> u64 \<Rightarrow> Decoder \<Rightarrow> ContextValue list dres \<times> Decoder"
  and decode_entries :: "nat \<Rightarrow> nat \<Rightarrow> u64 \<Rightarrow> (bytes \<times> ContextValue) list \<Rightarrow> Decoder \<Rightarrow>
        (bytes \<times> ContextValue) list dres \<times> Decoder" where
  "decode_value lim 0 d = (OutOfFuel, d)"
| "decode_value lim (Suc f) d =
     (if dec_done d then (Fail (cbor_err 700), d)
      else
        let major = peek_major d;
            ib = dec_data d ! unat (dec_pos d)
        in if major = 7 then decode_simple (ib AND 0x1F) d
           else if major = 0 then dbind (decode_uint d) (\<lambda>u d. (Got (CInt u), d))
           else if major = 1 then dbind (decode_int d) (\<lambda>i d. (Got (CInt i), d))
           else if major = 2 then
             dbind (decode_bytes d) (\<lambda>v d. dbind (copy_view v d) (\<lambda>b d. (Got (CBytes b), d)))
           else if major = 3 then dbind (decode_string d) (\<lambda>s d. (Got (CString s), d))
           else if major = 4 then
             dbind (decode_array_size d) (\<lambda>n d.
               if lim < unat n then (Fault, d)
               else dbind (decode_elems lim f n d) (\<lambda>arr d. (Got (CArray arr), d)))
           else if major = 5 then
             dbind (decode_map_size d) (\<lambda>n d.
               dbind (decode_entries lim f n [] d) (\<lambda>m d. (Got (CMap m), d)))
           else (Fail (cbor_err 708), d))"
| "decode_elems lim 0 n d = (OutOfFuel, d)"
| "decode_elems lim (Suc f) n d =
     (if n = 0 then (Got [], d)
      else dbind (decode_value lim f d) (\<lambda>x d.
             dbind (decode_elems lim f (n - 1) d) (\<lambda>xs d. (Got (x # xs), d))))"
| "decode_entries lim 0 n m d = (OutOfFuel, d)"
| "decode_entries lim (Suc f) n m d =
     (if n = 0 then (Got m, d)
      else dbind (decode_string d) (\<lambda>key d.
             dbind (decode_value lim f d) (\<lambda>val.
               decode_entries lim f (n - 1) (map_emplace key val m))))"

text \<open>Every call of decode_value consumes a byte, so twice the remaining bytes are
  enough fuel (see decode_total).\<close>

definition decode_context_value :: "nat \<Rightarrow> Decoder \<Rightarrow> ContextValue dres \<times> Decoder" where
  "decode_context_value lim d = decode_value lim (2 * length (current_view d) + 1) d"

definition kContentTypeContextValue :: byte where "kContentTypeContextValue = 0x01"
definition kContentTypeContractInput :: byte where "kContentTypeContractInput = 0x02"
definition kContentTypeContractResult :: byte where "kContentTypeContractResult = 0x03"

definition encode_context_value_bytes :: "ContextValue \<Rightarrow> byte \<Rightarrow> bytes" where
  "encode_context_value_bytes val content_type = content_type # encode_context_value val"

definition decode_context_value_bytes :: "nat \<Rightarrow> bytes \<Rightarrow> byte \<Rightarrow> ContextValue dres" where
  "decode_context_value_bytes lim data expected =
     (if data = [] then Fail (cbor_err 700)
      else if hd data \<noteq> expected then Fail (cbor_err 710)
      else fst (decode_context_value lim (decoder (tl data))))"

section \<open>Ordered maps\<close>

lemma map_of_emplace:
  "sorted_wrt (<) (map fst m) \<Longrightarrow>
   map_of (map_emplace k v m) k' = (if k' = k \<and> map_of m k = None then Some v else map_of m k')"
proof (induction k v m rule: map_emplace.induct)
  case (2 k v k1 v1 m)
  have "map_of m k = None" if "k < k1"
    using 2(2) that by (auto simp: map_of_eq_None_iff)
  with 2 show ?case by (auto split: if_splits)
qed auto

lemma set_emplace: "set (map fst (map_emplace k v m)) = insert k (set (map fst m))"
  by (induction k v m rule: map_emplace.induct) auto

lemma sorted_emplace:
  "sorted_wrt (<) (map fst m) \<Longrightarrow> sorted_wrt (<) (map fst (map_emplace k v m))"
proof (induction k v m rule: map_emplace.induct)
  case (2 k v k1 v1 m)
  then show ?case using set_emplace [of k v m] by (fastforce dest: less_trans)
qed auto

lemma emplace_last:
  "(\<And>k'. k' \<in> set (map fst m) \<Longrightarrow> k' < k) \<Longrightarrow> map_emplace k v m = m @ [(k, v)]"
  by (induction k v m rule: map_emplace.induct) (auto dest: less_not_sym)

text \<open>What a client of std::map relies on.\<close>

locale ordered_map =
  fixes emplace :: "'k::linorder \<Rightarrow> 'v \<Rightarrow> 'm \<Rightarrow> 'm"
    and lookup :: "'m \<Rightarrow> 'k \<rightharpoonup> 'v"
    and invar :: "'m \<Rightarrow> bool"
  assumes lookup_emplace:
      "invar m \<Longrightarrow> lookup (emplace k v m) k' = (if k' = k \<and> lookup m k = None then Some v else lookup m k')"
    and invar_emplace: "invar m \<Longrightarrow> invar (emplace k v m)"
begin

text \<open>Filling a map from a list: the first entry of a key stays.\<close>

lemma lookup_fold:
  "invar m \<Longrightarrow> lookup (fold (\<lambda>(k, v). emplace k v) es m) k =
     (case lookup m k of Some v \<Rightarrow> Some v | None \<Rightarrow> map_of es k)"
proof (induction es arbitrary: m)
  case (Cons e es)
  obtain a b where e: "e = (a, b)" by fastforce
  show ?case
    using Cons.IH [of "emplace a b m"] Cons.prems
    by (auto simp: e lookup_emplace invar_emplace split: option.splits)
qed (simp split: option.splits)

end

interpretation context_map: ordered_map map_emplace map_of "\<lambda>m. sorted_wrt (<) (map fst m)"
  by unfold_locales (simp_all add: map_of_emplace sorted_emplace)

lemma fold_emplace_sorted:
  "sorted_wrt (<) (map fst (m @ es)) \<Longrightarrow> fold (\<lambda>(k, v). map_emplace k v) es m = m @ es"
proof (induction es arbitrary: m)
  case (Cons e es)
  obtain a b where e: "e = (a, b)" by fastforce
  have "map_emplace a b m = m @ [(a, b)]"
    using Cons.prems by (intro emplace_last) (auto simp: e sorted_wrt_append)
  then show ?case using Cons.IH [of "m @ [(a, b)]"] Cons.prems by (simp add: e)
qed simp

section \<open>Byte strings that decode as a value\<close>

definition decodes :: "nat \<Rightarrow> bytes \<Rightarrow> ContextValue \<Rightarrow> bool" where
  "decodes lim bs v \<longleftrightarrow> bs \<noteq> [] \<and>
     (\<forall>d r f. dec_ok d \<longrightarrow> current_view d = bs @ r \<longrightarrow> 2 * length bs < f \<longrightarrow>
        (\<exists>d'. decode_value lim f d = (Got v, d') \<and> moved d r d'))"

lemma decodesI:
  assumes "bs \<noteq> []"
    and "\<And>d r f. dec_ok d \<Longrightarrow> current_view d = bs @ r \<Longrightarrow> 2 * length bs \<le> f \<Longrightarrow>
        \<exists>d'. decode_value lim (Suc f) d = (Got v, d') \<and> moved d r d'"
  shows "decodes lim bs v"
  unfolding decodes_def
proof (intro conjI allI impI)
  fix d r f assume a: "dec_ok d" "current_view d = bs @ r" "2 * length bs < f"
  then obtain f' where "f = Suc f'" "2 * length bs \<le> f'" by (cases f) auto
  then show "\<exists>d'. decode_value lim f d = (Got v, d') \<and> moved d r d'" using assms(2) a by blast
qed (rule assms(1))

lemma decodesE:
  assumes "decodes lim bs v" "dec_ok d" "current_view d = bs @ r" "2 * length bs < f"
  obtains d' where "decode_value lim f d = (Got v, d')" "moved d r d'"
  using assms unfolding decodes_def by blast

lemma decodes_Cons: "decodes lim bs v \<Longrightarrow> \<exists>b bs'. bs = b # bs'"
  by (cases bs) (simp_all add: decodes_def)

lemma decodes_uint: "decodes lim (encode_uint n) (CInt n)"
proof (rule decodesI)
  fix d r f assume d: "dec_ok d" "current_view d = encode_uint n @ r"
  then obtain d' where "decode_uint d = (Got n, d')" "moved d r d'" by (rule decode_uint_at)
  moreover note peek_at [OF d(1) d(2) [unfolded encode_uint_def]]
  ultimately show "\<exists>d'. decode_value lim (Suc f) d = (Got (CInt n), d') \<and> moved d r d'"
    by (simp add: Let_def)
qed (simp add: encode_uint_def encode_head_nonempty)

lemma decodes_int: "decodes lim (encode_int i) (CInt i)"
proof (cases "0 \<le> sint i")
  case True
  then show ?thesis using decodes_uint by (simp add: encode_int_def)
next
  case False
  then have enc: "encode_int i = encode_head 1 (- 1 - i)" by (simp add: encode_int_def)
  show ?thesis
  proof (rule decodesI)
    fix d r f assume d: "dec_ok d" "current_view d = encode_int i @ r"
    then obtain d' where "decode_int d = (Got i, d')" "moved d r d'" by (rule decode_int_at)
    moreover note peek_at [OF d(1) d(2) [unfolded enc]]
    ultimately show "\<exists>d'. decode_value lim (Suc f) d = (Got (CInt i), d') \<and> moved d r d'"
      by (simp add: Let_def)
  qed (simp add: enc encode_head_nonempty)
qed

lemma decodes_string: "decodes lim (encode_string s) (CString s)"
proof (rule decodesI)
  fix d r f assume d: "dec_ok d" "current_view d = encode_string s @ r"
  then obtain d' where "decode_string d = (Got s, d')" "moved d r d'" by (rule decode_string_at)
  moreover note peek_at [OF d(1) d(2) [unfolded encode_string_def append_assoc]]
  ultimately show "\<exists>d'. decode_value lim (Suc f) d = (Got (CString s), d') \<and> moved d r d'"
    by (simp add: Let_def)
qed (simp add: encode_string_def encode_head_nonempty)

lemma decodes_bytes: "decodes lim (encode_bytes s) (CBytes s)"
proof (rule decodesI)
  fix d r f assume d: "dec_ok d" "current_view d = encode_bytes s @ r"
  then obtain d' p where "decode_bytes d = (Got (p, word_of_nat (length s)), d')" "moved d r d'"
      "copy_view (p, word_of_nat (length s)) d' = (Got s, d')"
    by (rule decode_bytes_at)
  moreover note peek_at [OF d(1) d(2) [unfolded encode_bytes_def append_assoc]]
  ultimately show "\<exists>d'. decode_value lim (Suc f) d = (Got (CBytes s), d') \<and> moved d r d'"
    by (simp add: Let_def)
qed (simp add: encode_bytes_def encode_head_nonempty)

lemma decode_value_simple:
  assumes "dec_ok d" and "current_view d = b # r" and "drop_bit 5 b = 7"
  shows "decode_value lim (Suc f) d = decode_simple (b AND 0x1F) d"
  using assms nth_pos [OF assms(2)] by (simp add: dec_done_iff peek_major_def Let_def)

lemma decodes_single:
  assumes "drop_bit 5 b = 7" and "\<And>d. decode_simple (b AND 0x1F) d = (Got v, advance 1 d)"
  shows "decodes lim [b] v"
  by (rule decodesI) (use assms in \<open>auto simp: decode_value_simple simp del: decode_value.simps
      intro!: moved_advance [of _ "[b]"]\<close>)

lemma decodes_nil: "decodes lim [0xF6] CNil"
  by (rule decodes_single) (simp_all add: decode_simple_def)

lemma decodes_bool: "decodes lim [if b then 0xF5 else 0xF4] (CBool b)"
  by (cases b) (auto intro!: decodes_single simp: decode_simple_def)

lemma decodes_float: "decodes lim (0xFB # write_be 8 bits) (CFloat bits)"
proof (rule decodesI)
  fix d r f assume d: "dec_ok d" "current_view d = (0xFB # write_be 8 bits) @ r"
  let ?d1 = "advance 1 d"
  have m1: "moved d (write_be 8 bits @ r) ?d1"
    using d(2) by (intro moved_advance [OF d(1), of "[0xFB]"]) auto
  have m2: "moved ?d1 r (advance 8 ?d1)"
    by (rule moved_advance [OF moved_ok [OF m1] moved_view [OF m1]]) simp
  have "length (current_view d) = 9 + length r" using d(2) by simp
  then have "unat (dec_size d) - unat (dec_pos d) \<ge> 9" "unat (dec_pos d) \<le> unat (dec_size d)"
    using d(1) by (simp_all add: dec_size_nat length_current_view dec_ok_def)
  then have "\<not> dec_remaining d < 9"
    by (simp add: dec_remaining_def word_less_nat_alt unat_sub word_le_nat_alt)
  then have "decode_value lim (Suc f) d = (Got (CFloat bits), advance 8 ?d1)"
    using d moved_view [OF m1]
    by (simp add: decode_value_simple decode_simple_def Let_def wire_simps del: decode_value.simps)
  then show "\<exists>d'. decode_value lim (Suc f) d = (Got (CFloat bits), d') \<and> moved d r d'"
    using moved_trans [OF m1 m2] by blast
qed simp

lemma decode_elems_at:
  assumes "list_all2 (decodes lim) bss vs" and "dec_ok d" and "current_view d = concat bss @ r"
    and "2 * length (concat bss) + 1 < f" and "length vs < 2 ^ 64"
  obtains d' where "decode_elems lim f (word_of_nat (length vs)) d = (Got vs, d')" "moved d r d'"
proof -
  have "\<exists>d'. decode_elems lim f (word_of_nat (length vs)) d = (Got vs, d') \<and> moved d r d'"
    using assms
  proof (induction bss vs arbitrary: d f rule: list_all2_induct)
    case Nil
    then show ?case by (cases f) (simp_all add: moved_def)
  next
    case (Cons bs bss v vs)
    obtain f' where f: "f = Suc f'" using Cons.prems by (cases f) auto
    have "2 * length bs < f'" using Cons.prems f by simp
    with Cons obtain d1 where d1: "decode_value lim f' d = (Got v, d1)" "moved d (concat bss @ r) d1"
      by (auto elim!: decodesE)
    have "2 * length (concat bss) + 1 < f'"
      using Cons.prems f decodes_Cons [OF Cons.hyps(1)] by auto
    then obtain d2 where
      d2: "decode_elems lim f' (word_of_nat (length vs)) d1 = (Got vs, d2)" "moved d1 r d2"
      using Cons.IH [OF moved_ok [OF d1(2)] moved_view [OF d1(2)], of f'] Cons.prems(4) by auto
    have "(word_of_nat (length (v # vs)) :: u64) \<noteq> 0"
      using Cons.prems(4) by (metis length_Cons nat.distinct(1) unat_0 unat_u64)
    then show ?case using d1 d2 f moved_trans [OF d1(2) d2(2)] by simp
  qed
  then show ?thesis using that by blast
qed

lemma decodes_array:
  assumes "list_all2 (decodes lim) bss vs" and "length vs \<le> lim"
  shows "decodes lim (encode_array (length vs) @ concat bss) (CArray vs)"
proof (rule decodesI)
  fix d r f assume d: "dec_ok d" "current_view d = (encode_array (length vs) @ concat bss) @ r"
    and f: "2 * length (encode_array (length vs) @ concat bss) \<le> f"
  then obtain d1 where d1: "decode_array_size d = (Got (word_of_nat (length vs)), d1)"
      "moved d (concat bss @ r) d1"
    by (metis append_assoc decode_array_size_at)
  have "length vs \<le> length (concat bss)"
    using assms(1) by (induction rule: list_all2_induct) (auto dest!: decodes_Cons)
  also have "length (concat bss) \<le> length (dec_data d1)"
    using arg_cong [OF moved_view [OF d1(2)], of length] by (simp add: current_view_def)
  also have "\<dots> < 2 ^ 63" using moved_ok [OF d1(2)] by (simp add: dec_ok_def)
  finally have len: "length vs < 2 ^ 64" by simp
  have "encode_array (length vs) \<noteq> []" by (simp add: encode_array_def encode_head_nonempty)
  then have "2 * length (concat bss) + 1 < f"
    using f by (cases "encode_array (length vs)") simp_all
  then obtain d2 where d2: "decode_elems lim f (word_of_nat (length vs)) d1 = (Got vs, d2)" "moved d1 r d2"
    using decode_elems_at [OF assms(1) moved_ok [OF d1(2)] moved_view [OF d1(2)] _ len] by blast
  have "\<not> lim < unat (word_of_nat (length vs) :: u64)"
    using assms(2) len by (simp add: unat_u64)
  moreover note peek_at [OF d(1) d(2) [unfolded encode_array_def append_assoc]]
  ultimately show "\<exists>d'. decode_value lim (Suc f) d = (Got (CArray vs), d') \<and> moved d r d'"
    using d1(1) d2(1) moved_trans [OF d1(2) d2(2)] by (simp add: Let_def)
qed (simp add: encode_array_def encode_head_nonempty)

text \<open>Entries are pairs of a key and the bytes of its value.\<close>

abbreviation encode_entry :: "bytes \<times> bytes \<Rightarrow> bytes" where
  "encode_entry e \<equiv> encode_string (fst e) @ snd e"

abbreviation same_entry :: "nat \<Rightarrow> bytes \<times> bytes \<Rightarrow> bytes \<times> ContextValue \<Rightarrow> bool" where
  "same_entry lim e kv \<equiv> fst e = fst kv \<and> decodes lim (snd e) (snd kv)"

lemma decode_entries_at:
  assumes "list_all2 (same_entry lim) es kvs" and "dec_ok d"
    and "current_view d = concat (map encode_entry es) @ r"
    and "2 * length (concat (map encode_entry es)) + 1 < f" and "length kvs < 2 ^ 64"
  obtains d' where
    "decode_entries lim f (word_of_nat (length kvs)) m d = (Got (fold (\<lambda>(k, v). map_emplace k v) kvs m), d')"
    "moved d r d'"
proof -
  have "\<exists>d'. decode_entries lim f (word_of_nat (length kvs)) m d =
      (Got (fold (\<lambda>(k, v). map_emplace k v) kvs m), d') \<and> moved d r d'"
    using assms
  proof (induction es kvs arbitrary: d f m rule: list_all2_induct)
    case Nil
    then show ?case by (cases f) (simp_all add: moved_def)
  next
    case (Cons e es kv kvs)
    obtain k v where kv: "kv = (k, v)" by fastforce
    with Cons.hyps(1) have e: "fst e = k" "decodes lim (snd e) v" by simp_all
    obtain f' where f: "f = Suc f'" using Cons.prems by (cases f) auto
    have "current_view d = encode_string k @ snd e @ concat (map encode_entry es) @ r"
      using Cons.prems(2) e(1) by simp
    then obtain d1 where d1: "decode_string d = (Got k, d1)"
        "moved d (snd e @ concat (map encode_entry es) @ r) d1"
      using decode_string_at [OF Cons.prems(1)] by blast
    have len: "2 * length (snd e) < f'" "2 * length (concat (map encode_entry es)) + 1 < f'"
      using Cons.prems(3) f decodes_Cons [OF e(2)] by auto
    obtain d2 where d2: "decode_value lim f' d1 = (Got v, d2)" "moved d1 (concat (map encode_entry es) @ r) d2"
      using decodesE [OF e(2) moved_ok [OF d1(2)] moved_view [OF d1(2)] len(1)] by blast
    obtain d3 where d3: "decode_entries lim f' (word_of_nat (length kvs)) (map_emplace k v m) d2 =
        (Got (fold (\<lambda>(k, v). map_emplace k v) kvs (map_emplace k v m)), d3)" "moved d2 r d3"
      using Cons.IH [OF moved_ok [OF d2(2)] moved_view [OF d2(2)] len(2)] Cons.prems(4) by auto
    have "(word_of_nat (length (kv # kvs)) :: u64) \<noteq> 0"
      using Cons.prems(4) by (metis length_Cons nat.distinct(1) unat_0 unat_u64)
    then show ?case
      using d1(1) d2(1) d3(1) f kv moved_trans [OF moved_trans [OF d1(2) d2(2)] d3(2)] by simp
  qed
  then show ?thesis using that by blast
qed

lemma decodes_map:
  assumes "list_all2 (same_entry lim) es kvs"
  shows "decodes lim (encode_map (length kvs) @ concat (map encode_entry es))
           (CMap (fold (\<lambda>(k, v). map_emplace k v) kvs []))"
proof (rule decodesI)
  let ?body = "concat (map encode_entry es)"
  fix d r f assume d: "dec_ok d" "current_view d = (encode_map (length kvs) @ ?body) @ r"
    and f: "2 * length (encode_map (length kvs) @ ?body) \<le> f"
  have "current_view d = encode_map (length kvs) @ (?body @ r)" using d(2) by simp
  then obtain d1 where d1: "decode_map_size d = (Got (word_of_nat (length kvs)), d1)"
      "moved d (?body @ r) d1"
    by (rule decode_map_size_at [OF d(1)])
  have "length kvs \<le> length ?body"
    using assms by (induction rule: list_all2_induct) (auto dest!: decodes_Cons)
  also have "length ?body \<le> length (dec_data d1)"
    using arg_cong [OF moved_view [OF d1(2)], of length] by (simp add: current_view_def)
  also have "\<dots> < 2 ^ 63" using moved_ok [OF d1(2)] by (simp add: dec_ok_def)
  finally have len: "length kvs < 2 ^ 64" by simp
  have "encode_map (length kvs) \<noteq> []" by (simp add: encode_map_def encode_head_nonempty)
  then have "2 * length ?body + 1 < f"
    using f by (cases "encode_map (length kvs)") simp_all
  then obtain d2 where d2: "decode_entries lim f (word_of_nat (length kvs)) [] d1 =
      (Got (fold (\<lambda>(k, v). map_emplace k v) kvs []), d2)" "moved d1 r d2"
    using decode_entries_at [OF assms moved_ok [OF d1(2)] moved_view [OF d1(2)] _ len] by blast
  note peek_at [OF d(1) d(2) [unfolded encode_map_def append_assoc]]
  then show "\<exists>d'. decode_value lim (Suc f) d =
      (Got (CMap (fold (\<lambda>(k, v). map_emplace k v) kvs [])), d') \<and> moved d r d'"
    using d1(1) d2(1) moved_trans [OF d1(2) d2(2)] by (simp add: Let_def)
qed (simp add: encode_map_def encode_head_nonempty)

text \<open>Values the C++ types can hold: map keys are sorted and distinct, and arrays
  have a length the allocator can serve.\<close>

fun wf_value :: "nat \<Rightarrow> ContextValue \<Rightarrow> bool" where
  "wf_value lim (CArray arr) = (length arr \<le> lim \<and> list_all (wf_value lim) arr)"
| "wf_value lim (CMap m) = (sorted_wrt (<) (map fst m) \<and> list_all (\<lambda>(k, v). wf_value lim v) m)"
| "wf_value lim v = True"

lemma decodes_encode: "wf_value lim v \<Longrightarrow> decodes lim (encode_context_value v) v"
proof (induction v rule: encode_context_value.induct)
  case (7 arr)
  then have "list_all2 (decodes lim) (map encode_context_value arr) arr"
    by (simp add: list_all2_conv_all_nth list_all_length)
  with 7(2) show ?case using decodes_array [of lim "map encode_context_value arr" arr] by simp
next
  case (8 m)
  let ?es = "map (\<lambda>(k, v). (k, encode_context_value v)) m"
  have "same_entry lim (?es ! i) (m ! i)" if "i < length m" for i
  proof -
    obtain k v where kv: "m ! i = (k, v)" by fastforce
    then have "(k, v) \<in> set m" using that by (metis nth_mem)
    then have "decodes lim (encode_context_value v) v"
      using 8 by (fastforce simp: list_all_iff)
    then show ?thesis using kv that by simp
  qed
  then have "list_all2 (same_entry lim) ?es m" by (simp add: list_all2_conv_all_nth)
  moreover have "map encode_entry ?es = map (\<lambda>(k, v). encode_string k @ encode_context_value v) m"
    by auto
  moreover have "fold (\<lambda>(k, v). map_emplace k v) m [] = m"
    using 8(2) fold_emplace_sorted [of "[]" m] by simp
  ultimately show ?case
    using decodes_map [of lim ?es m] by (simp only: encode_context_value.simps)
qed (simp_all add: decodes_nil decodes_bool decodes_int decodes_float decodes_string decodes_bytes
    del: encode_context_value.simps(2) add: encode_context_value.simps(2))

text \<open>From a byte string that decodes to a whole message.\<close>

lemma decode_context_value_decodes:
  assumes "decodes lim bs v" and "length bs < 2 ^ 63"
  shows "decode_context_value_bytes lim (ct # bs) ct = Got v"
proof -
  have "dec_ok (decoder bs)" "current_view (decoder bs) = bs @ []"
    using assms(2) by (simp_all add: dec_ok_def decoder_def current_view_def)
  then obtain d' where "decode_value lim (2 * length bs + 1) (decoder bs) = (Got v, d')"
    by (rule decodesE [OF assms(1), where f = "2 * length bs + 1"]) simp_all
  then show ?thesis
    by (simp add: decode_context_value_bytes_def decode_context_value_def decoder_def current_view_def
        del: decode_value.simps)
qed

section \<open>Termination on arbitrary data\<close>

lemma decode_simple_shrinks [progress]:
  assumes "dec_ok d" and "\<not> dec_done d" and "decode_simple ai d = (Got x, d')"
  shows "shrinks d d'"
proof -
  have s: "shrinks d (advance 1 d)" using assms(1,2) by (rule shrinks_advance)
  have "keeps (advance 1 d) (advance 8 (advance 1 d))" if "\<not> dec_remaining d < 9"
  proof (rule keeps_advance [OF shrinks_ok [OF s]])
    have "9 \<le> length (dec_data d) - unat (dec_pos d)"
      using that assms(1)
      by (simp add: dec_remaining_def word_less_nat_alt unat_sub word_le_nat_alt dec_size_nat dec_ok_def)
    moreover have "unat (dec_pos d + 9) = unat (dec_pos d) + 9"
      using pos_add [OF assms(1), of 9] by simp
    ultimately show "\<not> dec_size (advance 1 d) < dec_pos (advance 1 d) + 8"
      using assms(1) by (simp add: advance_def dec_size_def word_less_nat_alt unat_u64 dec_ok_def add.assoc)
  qed simp
  with assms(3) s show ?thesis
    by (auto simp: decode_simple_def Let_def split: if_splits intro: shrinks_keeps)
qed

lemma decode_simple_fuel [simp]: "fst (decode_simple ai d) \<noteq> OutOfFuel"
  by (simp add: decode_simple_def Let_def)

lemma decode_value_Got:
  assumes "decode_value lim (Suc f) d = (Got v, d')"
  obtains (simple) ai where "\<not> dec_done d" "decode_simple ai d = (Got v, d')"
  | (uint) u where "decode_uint d = (Got u, d')"
  | (int) i where "decode_int d = (Got i, d')"
  | (bytes) w d1 b where "decode_view 2 704 d = (Got w, d1)" "copy_view w d1 = (Got b, d')"
  | (string) s where "decode_string d = (Got s, d')"
  | (array) n d1 arr where "decode_array_size d = (Got n, d1)" "decode_elems lim f n d1 = (Got arr, d')"
      "\<not> dec_done d" "peek_major d = 4" "\<not> lim < unat n"
  | (map) n d1 m where "decode_map_size d = (Got n, d1)" "decode_entries lim f n [] d1 = (Got m, d')"
      "\<not> dec_done d" "peek_major d = 5"
  using assms
  by (auto simp: Let_def dbind_Got_iff decode_bytes_def split: if_splits)

lemma decode_progress:
  "dec_ok d \<Longrightarrow> decode_value lim f d = (Got v, d') \<Longrightarrow> shrinks d d'"
  "dec_ok d \<Longrightarrow> decode_elems lim f n d = (Got vs, d') \<Longrightarrow> keeps d d'"
  "dec_ok d \<Longrightarrow> decode_entries lim f n m d = (Got m', d') \<Longrightarrow> keeps d d'"
proof (induction lim f d and lim f n d and lim f n m d arbitrary: v d' and vs d' and m' d'
    rule: decode_value_decode_elems_decode_entries.induct)
  case (2 lim f d)
  from 2(4) show ?case
  proof (cases rule: decode_value_Got)
    case (array n d1 arr)
    have "shrinks d d1" using 2(3) array(1) by (rule progress)
    moreover have "keeps d1 d'"
      by (rule 2(1)) (use array shrinks_ok [OF \<open>shrinks d d1\<close>] in simp_all)
    ultimately show ?thesis by (rule shrinks_keeps)
  next
    case (map n d1 m)
    have "shrinks d d1" using 2(3) map(1) by (rule progress)
    moreover have "keeps d1 d'"
      by (rule 2(2)) (use map shrinks_ok [OF \<open>shrinks d d1\<close>] in simp_all)
    ultimately show ?thesis by (rule shrinks_keeps)
  qed (use 2(3) in \<open>auto intro: progress decode_view_shrinks\<close>)
next
  case (4 lim f n d)
  show ?case
  proof (cases "n = 0")
    case False
    with 4(4) obtain x d1 xs where x: "decode_value lim f d = (Got x, d1)"
        "decode_elems lim f (n - 1) d1 = (Got xs, d')"
      by (auto simp: dbind_Got_iff)
    have "shrinks d d1" using False 4(3) x(1) by (rule 4(1))
    moreover have "keeps d1 d'" using False shrinks_ok [OF \<open>shrinks d d1\<close>] x(2) by (rule 4(2))
    ultimately show ?thesis using keeps_trans shrinks_imp_keeps by blast
  qed (use 4 in \<open>auto intro: progress\<close>)
next
  case (6 lim f n m d)
  show ?case
  proof (cases "n = 0")
    case False
    with 6(4) obtain k d1 x d2 where x: "decode_string d = (Got k, d1)" "decode_value lim f d1 = (Got x, d2)"
        "decode_entries lim f (n - 1) (map_emplace k x m) d2 = (Got m', d')"
      by (auto simp: dbind_Got_iff)
    have s1: "shrinks d d1" using 6(3) x(1) by (rule progress)
    have s2: "shrinks d1 d2" using False shrinks_ok [OF s1] x(2) by (rule 6(1))
    have "keeps d2 d'" using False shrinks_ok [OF s2] x(3) by (rule 6(2))
    then show ?thesis using s1 s2 keeps_trans shrinks_imp_keeps by blast
  qed (use 6 in \<open>auto intro: progress\<close>)
qed auto

lemma decode_total:
  "dec_ok d \<Longrightarrow> 2 * length (current_view d) < f \<Longrightarrow> fst (decode_value lim f d) \<noteq> OutOfFuel"
  "dec_ok d \<Longrightarrow> 2 * length (current_view d) + 1 < f \<Longrightarrow> fst (decode_elems lim f n d) \<noteq> OutOfFuel"
  "dec_ok d \<Longrightarrow> 2 * length (current_view d) + 1 < f \<Longrightarrow> fst (decode_entries lim f n m d) \<noteq> OutOfFuel"
proof (induction lim f d and lim f n d and lim f n m d
    rule: decode_value_decode_elems_decode_entries.induct)
  case (2 lim f d)
  have "fst (decode_elems lim f n d1) \<noteq> OutOfFuel"
    if "\<not> dec_done d" "peek_major d = 4" "decode_array_size d = (Got n, d1)" "\<not> lim < unat n" for n d1
  proof -
    have "shrinks d d1" using 2(3) that(3) by (rule progress)
    then show ?thesis
      using that 2(4) shrinks_length [OF 2(3) \<open>shrinks d d1\<close>] shrinks_ok
      by (intro 2(1)) simp_all
  qed
  moreover have "fst (decode_entries lim f n [] d1) \<noteq> OutOfFuel"
    if "\<not> dec_done d" "peek_major d = 5" "decode_map_size d = (Got n, d1)" for n d1
  proof -
    have "shrinks d d1" using 2(3) that(3) by (rule progress)
    then show ?thesis
      using that 2(4) shrinks_length [OF 2(3) \<open>shrinks d d1\<close>] shrinks_ok
      by (intro 2(2)) simp_all
  qed
  ultimately show ?case by (auto simp: Let_def dbind_fuel split: if_splits)
next
  case (4 lim f n d)
  have "fst (decode_elems lim f (n - 1) d1) \<noteq> OutOfFuel"
    if "n \<noteq> 0" "decode_value lim f d = (Got x, d1)" for x d1
  proof -
    have "shrinks d d1" using 4(3) that(2) by (rule decode_progress(1))
    then show ?thesis
      using that 4(4) shrinks_length [OF 4(3) \<open>shrinks d d1\<close>] shrinks_ok
      by (intro 4(2)) simp_all
  qed
  moreover have "n \<noteq> 0 \<Longrightarrow> fst (decode_value lim f d) \<noteq> OutOfFuel"
    using 4(3,4) by (intro 4(1)) simp_all
  ultimately show ?case by (auto simp: dbind_fuel)
next
  case (6 lim f n m d)
  have v: "fst (decode_value lim f d1) \<noteq> OutOfFuel"
    if "n \<noteq> 0" "decode_string d = (Got k, d1)" for k d1
  proof -
    have "shrinks d d1" using 6(3) that(2) by (rule progress)
    then show ?thesis
      using that 6(4) shrinks_length [OF 6(3) \<open>shrinks d d1\<close>] shrinks_ok
      by (intro 6(1)) simp_all
  qed
  have "fst (decode_entries lim f (n - 1) (map_emplace k x m) d2) \<noteq> OutOfFuel"
    if "n \<noteq> 0" "decode_string d = (Got k, d1)" "decode_value lim f d1 = (Got x, d2)" for k d1 x d2
  proof -
    have s1: "shrinks d d1" using 6(3) that(2) by (rule progress)
    have s2: "shrinks d1 d2" using shrinks_ok [OF s1] that(3) by (rule decode_progress(1))
    show ?thesis
      using that 6(4) shrinks_length [OF 6(3) s1] shrinks_length [OF shrinks_ok [OF s1] s2] shrinks_ok [OF s2]
      by (intro 6(2)) simp_all
  qed
  with v show ?case by (auto simp: dbind_fuel)
qed auto

section \<open>What the codec guarantees\<close>

text \<open>
  C9. Round trip: decoding the encoding of a value (nested to any depth) gives the
  value back, whatever the content type, as long as its arrays fit the
  allocator and the encoding is shorter than the largest object.
\<close>

theorem context_value_roundtrip:
  assumes "wf_value lim v" and "length (encode_context_value v) < 2 ^ 63"
  shows "decode_context_value_bytes lim (encode_context_value_bytes v ct) ct = Got v"
  unfolding encode_context_value_bytes_def
  using decodes_encode [OF assms(1)] assms(2) by (rule decode_context_value_decodes)

definition demo_value :: ContextValue where
  "demo_value = CMap [(ascii ''a'', CArray [CInt (- 5), CBool True, CNil]), (ascii ''b'', CString (ascii ''x''))]"

theorem context_value_roundtrip_witness:
  "decode_context_value_bytes 100 (encode_context_value_bytes demo_value 1) 1 = Got demo_value"
proof (rule context_value_roundtrip)
  show "wf_value 100 demo_value"
    by (simp add: demo_value_def ascii_def of_char_def)
  show "length (encode_context_value demo_value) < 2 ^ 63"
    by (simp add: demo_value_def ascii_def encode_map_def encode_array_def encode_string_def encode_int_def
        encode_uint_def encode_head_def)
qed

text \<open>
  C20. Decoding always returns: on any byte string, however deeply nested or
  malformed, the decoder ends with a value, an error or a fault; the fuel of the
  model is never used up.
\<close>

theorem context_value_decode_returns:
  assumes "length data < 2 ^ 63"
  shows "decode_context_value_bytes lim data ct \<noteq> OutOfFuel"
proof -
  have "dec_ok (decoder (tl data))"
    using assms by (simp add: dec_ok_def decoder_def)
  then have "fst (decode_context_value lim (decoder (tl data))) \<noteq> OutOfFuel"
    unfolding decode_context_value_def by (rule decode_total(1)) simp
  then show ?thesis by (simp add: decode_context_value_bytes_def)
qed

theorem context_value_decode_returns_witness:
  "decode_context_value_bytes 10 [1, 0x82, 0x01] 1 \<noteq> OutOfFuel"
  by (rule context_value_decode_returns) simp

text \<open>
  The bounds check of a byte string can be passed by wrap-around: a head that
  announces 2^64 - 1 bytes makes pos + n wrap below the data size, and the decoder
  copies out of the data.
\<close>

lemma byte_string_length_wraps:
  assumes "length rest < 2 ^ 62"
  shows "decode_context_value_bytes lim (ct # 0x5B # replicate 8 0xFF @ rest) ct = Fault"
proof -
  let ?d = "decoder (0x5B # replicate 8 0xFF @ rest)"
  let ?d9 = "advance 8 (advance 1 ?d)"
  have ff: "replicate 8 (0xFF :: byte) = write_be 8 (- 1 :: u64)"
    using write_be_minus_1 [of 8, where 'a = 64] by simp
  have u: "unat (word_of_nat (9 + length rest) :: u64) = 9 + length rest"
    using assms by (intro unat_u64) simp
  have size: "dec_size (advance w ?d) = word_of_nat (9 + length rest)" for w
    by (simp add: dec_size_def advance_def decoder_def)
  have "current_view (advance 1 ?d) = write_be 8 (- 1 :: u64) @ rest"
    unfolding ff by (simp add: current_view_def advance_def decoder_def)
  then have "fst (read_be 8 (current_view (advance 1 ?d)) :: u64 \<times> bytes) = - 1"
    by (simp add: wire_simps)
  moreover have "\<not> dec_done ?d" "\<not> dec_size (advance 1 ?d) < dec_pos (advance 1 ?d) + 8"
    using u by (simp_all only: dec_done_def size word_le_nat_alt word_less_nat_alt)
      (simp_all add: decoder_def dec_size_def advance_def)
  ultimately have head: "decode_head ?d = (Got (2, - 1), ?d9)"
    by (simp add: decode_head_def Let_def decoder_def extra_bytes_def)
  have "dec_pos ?d9 + - 1 = 8" by (simp add: advance_def decoder_def)
  moreover have "\<not> dec_size ?d9 < 8"
    using u size by (simp add: word_less_nat_alt advance_def dec_size_def decoder_def)
  ultimately have "decode_bytes ?d = (Got (9, - 1), advance (- 1) ?d9)"
    using head by (simp add: decode_bytes_def decode_view_def)
  moreover have "copy_view (9, - 1) d = (Fault, d)" if "dec_data d = dec_data ?d" for d
    using that assms
    by (simp add: copy_view_def decoder_def unsigned_minus_1_eq_mask mask_eq_exp_minus_1)
  ultimately have "fst (decode_value lim (Suc f) ?d) = Fault" for f
    using \<open>\<not> dec_done ?d\<close> by (simp add: Let_def peek_major_def) (simp add: decoder_def advance_def)
  then show ?thesis
    by (simp add: decode_context_value_bytes_def decode_context_value_def del: decode_value.simps)
qed

lemma byte_string_length_wraps_example:
  "decode_context_value_bytes 10 (1 # 0x5B # replicate 8 0xFF @ []) 1 = Fault"
  by (rule byte_string_length_wraps) simp

end
