(* ===== verification/Contract_Messages.thy ===== *)
theory Contract_Messages
  imports Context_Value
begin

text \<open>
  The messages of the contract runtime and the schema registry
  (core/cbor/context_value.hpp, .cpp), on top of the ContextValue codec.
\<close>

section \<open>Contract messages\<close>

record ContractInput =
  ci_contract_id :: bytes
  ci_method :: bytes
  ci_params :: ContextValue
  ci_caller_id :: bytes
  ci_timestamp :: i64
  ci_nonce :: u64

definition contract_input_to_cbor :: "ContractInput \<Rightarrow> bytes" where
  "contract_input_to_cbor c =
     kContentTypeContractInput # encode_map 6 @
     encode_string_key (ascii ''contract_id'') @ encode_string (ci_contract_id c) @
     encode_string_key (ascii ''method'') @ encode_string (ci_method c) @
     encode_string_key (ascii ''params'') @ encode_context_value (ci_params c) @
     encode_string_key (ascii ''caller_id'') @ encode_string (ci_caller_id c) @
     encode_string_key (ascii ''timestamp'') @ encode_uint (ci_timestamp c) @
     encode_string_key (ascii ''nonce'') @ encode_uint (ci_nonce c)"

text \<open>map.find(key), with the type test the code makes on the value found.\<close>

definition find_any :: "u16 \<Rightarrow> string \<Rightarrow> (bytes \<times> ContextValue) list \<Rightarrow> ContextValue result" where
  "find_any code key m =
     (case map_of m (ascii key) of Some v \<Rightarrow> Ok v | None \<Rightarrow> Err (cbor_err code))"

definition find_string :: "u16 \<Rightarrow> string \<Rightarrow> (bytes \<times> ContextValue) list \<Rightarrow> bytes result" where
  "find_string code key m =
     (case map_of m (ascii key) of Some (CString s) \<Rightarrow> Ok s | _ \<Rightarrow> Err (cbor_err code))"

definition find_int :: "u16 \<Rightarrow> string \<Rightarrow> (bytes \<times> ContextValue) list \<Rightarrow> i64 result" where
  "find_int code key m =
     (case map_of m (ascii key) of Some (CInt i) \<Rightarrow> Ok i | _ \<Rightarrow> Err (cbor_err code))"

primrec dres_of :: "'a result \<Rightarrow> 'a dres" where
  "dres_of (Ok x) = Got x"
| "dres_of (Err e) = Fail e"

definition contract_input_of_map :: "(bytes \<times> ContextValue) list \<Rightarrow> ContractInput result" where
  "contract_input_of_map m =
     rbind (find_string 711 ''contract_id'' m) (\<lambda>contract_id.
     rbind (find_string 711 ''method'' m) (\<lambda>method.
     rbind (find_any 711 ''params'' m) (\<lambda>params.
     rbind (find_string 711 ''caller_id'' m) (\<lambda>caller_id.
     rbind (find_int 711 ''timestamp'' m) (\<lambda>timestamp.
     rbind (find_int 711 ''nonce'' m) (\<lambda>nonce.
       Ok \<lparr>ci_contract_id = contract_id, ci_method = method, ci_params = params,
           ci_caller_id = caller_id, ci_timestamp = timestamp, ci_nonce = nonce\<rparr>))))))"

definition contract_input_from_cbor :: "nat \<Rightarrow> bytes \<Rightarrow> ContractInput dres" where
  "contract_input_from_cbor lim data =
     (case decode_context_value_bytes lim data kContentTypeContractInput of
        Got (CMap m) \<Rightarrow> dres_of (contract_input_of_map m)
      | Got _ \<Rightarrow> Fail (cbor_err 711)
      | Fail e \<Rightarrow> Fail e
      | Fault \<Rightarrow> Fault
      | OutOfFuel \<Rightarrow> OutOfFuel)"

text \<open>ContractResult::Status has uint8_t as underlying type.\<close>

record ContractResult =
  cr_status :: byte
  cr_result :: ContextValue
  cr_error_code :: bytes
  cr_error_message :: bytes
  cr_gas_used :: i64
  cr_timestamp :: i64

definition contract_result_to_cbor :: "ContractResult \<Rightarrow> bytes" where
  "contract_result_to_cbor c =
     kContentTypeContractResult # encode_map 6 @
     encode_string_key (ascii ''status'') @ encode_uint (ucast (cr_status c)) @
     encode_string_key (ascii ''result'') @ encode_context_value (cr_result c) @
     encode_string_key (ascii ''error_code'') @ encode_string (cr_error_code c) @
     encode_string_key (ascii ''error_message'') @ encode_string (cr_error_message c) @
     encode_string_key (ascii ''gas_used'') @ encode_uint (cr_gas_used c) @
     encode_string_key (ascii ''timestamp'') @ encode_uint (cr_timestamp c)"

definition contract_result_of_map :: "(bytes \<times> ContextValue) list \<Rightarrow> ContractResult result" where
  "contract_result_of_map m =
     rbind (find_int 712 ''status'' m) (\<lambda>status.
     rbind (find_any 712 ''result'' m) (\<lambda>res.
     rbind (find_string 712 ''error_code'' m) (\<lambda>error_code.
     rbind (find_string 712 ''error_message'' m) (\<lambda>error_message.
     rbind (find_int 712 ''gas_used'' m) (\<lambda>gas_used.
     rbind (find_int 712 ''timestamp'' m) (\<lambda>timestamp.
       Ok \<lparr>cr_status = ucast status, cr_result = res, cr_error_code = error_code,
           cr_error_message = error_message, cr_gas_used = gas_used, cr_timestamp = timestamp\<rparr>))))))"

definition contract_result_from_cbor :: "nat \<Rightarrow> bytes \<Rightarrow> ContractResult dres" where
  "contract_result_from_cbor lim data =
     (case decode_context_value_bytes lim data kContentTypeContractResult of
        Got (CMap m) \<Rightarrow> dres_of (contract_result_of_map m)
      | Got _ \<Rightarrow> Fail (cbor_err 712)
      | Fail e \<Rightarrow> Fail e
      | Fault \<Rightarrow> Fault
      | OutOfFuel \<Rightarrow> OutOfFuel)"

text \<open>The fields of a message in wire order, and the map they decode to.\<close>

lemma decode_message:
  assumes "list_all2 (same_entry lim) es kvs"
    and "length (encode_map (length kvs) @ concat (map encode_entry es)) < 2 ^ 63"
  obtains m where
    "decode_context_value_bytes lim (ct # encode_map (length kvs) @ concat (map encode_entry es)) ct = Got (CMap m)"
    "\<And>k. map_of m k = map_of kvs k"
  using that decode_context_value_decodes [OF decodes_map [OF assms(1)] assms(2)]
    context_map.lookup_fold [of "[]" kvs] by simp

lemma ascii_inject [simp]: "ascii s = ascii t \<longleftrightarrow> s = t"
proof -
  have "inj (\<lambda>c. word_of_nat (of_char c) :: byte)"
  proof (rule injI)
    fix c c' :: char
    assume eq: "(word_of_nat (of_char c) :: byte) = word_of_nat (of_char c')"
    have "of_char c < (256 :: nat)" "of_char c' < (256 :: nat)" by simp_all
    then have "unat (word_of_nat (of_char c) :: byte) = of_char c"
        "unat (word_of_nat (of_char c') :: byte) = of_char c'"
      by (simp_all add: unat_of_nat_lt)
    with eq show "c = c'" by (metis of_char_eq_iff)
  qed
  then show ?thesis unfolding ascii_def by (simp add: inj_map_eq_map)
qed

text \<open>
  A contract input is decoded exactly as it was encoded: all six fields,
  including negative timestamps and nonces with the top bit set.
\<close>

lemma contract_input_roundtrip:
  assumes "wf_value lim (ci_params c)" and "length (contract_input_to_cbor c) < 2 ^ 63"
  shows "contract_input_from_cbor lim (contract_input_to_cbor c) = Got c"
proof -
  let ?es = "[(ascii ''contract_id'', encode_string (ci_contract_id c)),
    (ascii ''method'', encode_string (ci_method c)),
    (ascii ''params'', encode_context_value (ci_params c)),
    (ascii ''caller_id'', encode_string (ci_caller_id c)),
    (ascii ''timestamp'', encode_uint (ci_timestamp c)), (ascii ''nonce'', encode_uint (ci_nonce c))]"
  let ?kvs = "[(ascii ''contract_id'', CString (ci_contract_id c)),
    (ascii ''method'', CString (ci_method c)),
    (ascii ''params'', ci_params c), (ascii ''caller_id'', CString (ci_caller_id c)),
    (ascii ''timestamp'', CInt (ci_timestamp c)), (ascii ''nonce'', CInt (ci_nonce c))]"
  have enc: "contract_input_to_cbor c =
      kContentTypeContractInput # encode_map (length ?kvs) @ concat (map encode_entry ?es)"
    by (simp add: contract_input_to_cbor_def encode_string_key_def eval_nat_numeral)
  have l: "list_all2 (same_entry lim) ?es ?kvs"
    using assms(1) by (simp add: decodes_string decodes_uint decodes_encode)
  have len: "length (encode_map (length ?kvs) @ concat (map encode_entry ?es)) < 2 ^ 63"
    using assms(2) unfolding enc by simp
  from decode_message [OF l len] obtain m where
    m: "decode_context_value_bytes lim (contract_input_to_cbor c) kContentTypeContractInput = Got (CMap m)"
      "\<And>k. map_of m k = map_of ?kvs k"
    unfolding enc by blast
  show ?thesis
    by (simp add: contract_input_from_cbor_def m(1) contract_input_of_map_def find_string_def find_any_def
        find_int_def m(2))
qed

definition demo_input :: ContractInput where
  "demo_input = \<lparr>ci_contract_id = ascii ''c'', ci_method = ascii ''m'', ci_params = CMap [],
     ci_caller_id = [], ci_timestamp = - 1, ci_nonce = 7\<rparr>"

lemma contract_input_roundtrip_example:
  "contract_input_from_cbor 10 (contract_input_to_cbor demo_input) = Got demo_input"
  by (rule contract_input_roundtrip)
    (simp_all add: demo_input_def contract_input_to_cbor_def encode_string_key_def encode_string_def
      encode_uint_def encode_map_def encode_head_def ascii_def)

text \<open>
  A contract result is decoded exactly as it was encoded.
\<close>

lemma contract_result_roundtrip:
  assumes "wf_value lim (cr_result c)" and "length (contract_result_to_cbor c) < 2 ^ 63"
  shows "contract_result_from_cbor lim (contract_result_to_cbor c) = Got c"
proof -
  let ?es = "[(ascii ''status'', encode_uint (ucast (cr_status c))),
    (ascii ''result'', encode_context_value (cr_result c)),
    (ascii ''error_code'', encode_string (cr_error_code c)),
    (ascii ''error_message'', encode_string (cr_error_message c)),
    (ascii ''gas_used'', encode_uint (cr_gas_used c)), (ascii ''timestamp'', encode_uint (cr_timestamp c))]"
  let ?kvs = "[(ascii ''status'', CInt (ucast (cr_status c))),
    (ascii ''result'', cr_result c), (ascii ''error_code'', CString (cr_error_code c)),
    (ascii ''error_message'', CString (cr_error_message c)),
    (ascii ''gas_used'', CInt (cr_gas_used c)), (ascii ''timestamp'', CInt (cr_timestamp c))]"
  have enc: "contract_result_to_cbor c =
      kContentTypeContractResult # encode_map (length ?kvs) @ concat (map encode_entry ?es)"
    by (simp add: contract_result_to_cbor_def encode_string_key_def eval_nat_numeral)
  have l: "list_all2 (same_entry lim) ?es ?kvs"
    using assms(1) by (simp add: decodes_string decodes_uint decodes_encode)
  have len: "length (encode_map (length ?kvs) @ concat (map encode_entry ?es)) < 2 ^ 63"
    using assms(2) unfolding enc by simp
  have st: "(ucast (ucast (cr_status c) :: u64) :: byte) = cr_status c"
    by (rule bit_word_eqI) (simp add: bit_simps)
  from decode_message [OF l len] obtain m where
    m: "decode_context_value_bytes lim (contract_result_to_cbor c) kContentTypeContractResult = Got (CMap m)"
      "\<And>k. map_of m k = map_of ?kvs k"
    unfolding enc by blast
  show ?thesis
    by (simp add: contract_result_from_cbor_def m(1) contract_result_of_map_def find_string_def find_any_def
        find_int_def m(2) st)
qed

definition demo_result :: ContractResult where
  "demo_result = \<lparr>cr_status = 2, cr_result = CNil, cr_error_code = ascii ''E'', cr_error_message = [],
     cr_gas_used = 21000, cr_timestamp = 5\<rparr>"

lemma contract_result_roundtrip_example:
  "contract_result_from_cbor 10 (contract_result_to_cbor demo_result) = Got demo_result"
  by (rule contract_result_roundtrip)
    (simp_all add: demo_result_def contract_result_to_cbor_def encode_string_key_def encode_string_def
      encode_uint_def encode_map_def encode_head_def ascii_def)

end
