(* ===== verification/Cbor_Skip.thy ===== *)
theory Cbor_Skip
  imports Context_Value
begin

text \<open>
  Decoder::skip and the field lookup of core/bootstrap/cbor.cpp on encoded data:
  skip passes over exactly one encoded value, and the field decoders find a key
  the way a lookup in the list of encoded fields does.
\<close>

definition skips :: "bytes \<Rightarrow> bool" where
  "skips bs \<longleftrightarrow> bs \<noteq> [] \<and>
     (\<forall>d r f. dec_ok d \<longrightarrow> current_view d = bs @ r \<longrightarrow> 2 * length bs < f \<longrightarrow>
        (\<exists>d'. skip_value f d = (Got (), d') \<and> moved d r d'))"

lemma skipsI:
  assumes "bs \<noteq> []"
    and "\<And>d r f. dec_ok d \<Longrightarrow> current_view d = bs @ r \<Longrightarrow> 2 * length bs \<le> f \<Longrightarrow>
        \<exists>d'. skip_value (Suc f) d = (Got (), d') \<and> moved d r d'"
  shows "skips bs"
  unfolding skips_def
proof (intro conjI allI impI)
  fix d r f assume a: "dec_ok d" "current_view d = bs @ r" "2 * length bs < f"
  then obtain f' where "f = Suc f'" "2 * length bs \<le> f'" by (cases f) auto
  then show "\<exists>d'. skip_value f d = (Got (), d') \<and> moved d r d'" using assms(2) a by blast
qed (rule assms(1))

lemma skipsE:
  assumes "skips bs" "dec_ok d" "current_view d = bs @ r" "2 * length bs < f"
  obtains d' where "skip_value f d = (Got (), d')" "moved d r d'"
  using assms unfolding skips_def by blast

lemma skips_Cons: "skips bs \<Longrightarrow> \<exists>b bs'. bs = b # bs'"
  by (cases bs) (simp_all add: skips_def)

lemma skips_head:
  assumes "major = 0 \<or> major = 1 \<or> major = 7"
  shows "skips (encode_head major n)"
proof (rule skipsI)
  fix d r f assume d: "dec_ok d" "current_view d = encode_head major n @ r"
  have major: "major < 8" using assms by auto
  obtain d' where "decode_head d = (Got (major, n), d')" "moved d r d'"
    using d major by (rule decode_head_at)
  with peek_at [OF d major] assms
  show "\<exists>d'. skip_value (Suc f) d = (Got (), d') \<and> moved d r d'" by (auto simp: Let_def)
qed (rule encode_head_nonempty)

lemma skips_int: "skips (encode_int i)"
  using skips_head by (simp add: encode_int_def encode_uint_def)

lemma skips_string: "skips (encode_string s)"
proof (rule skipsI)
  fix d r f assume d: "dec_ok d" "current_view d = encode_string s @ r"
  then obtain d' where "decode_string d = (Got s, d')" "moved d r d'" by (rule decode_string_at)
  moreover note peek_at [OF d(1) d(2) [unfolded encode_string_def append_assoc]]
  ultimately show "\<exists>d'. skip_value (Suc f) d = (Got (), d') \<and> moved d r d'" by (simp add: Let_def)
qed (simp add: encode_string_def encode_head_nonempty)

lemma skips_bytes: "skips (encode_bytes s)"
proof (rule skipsI)
  fix d r f assume d: "dec_ok d" "current_view d = encode_bytes s @ r"
  then obtain d' p where "decode_bytes d = (Got (p, word_of_nat (length s)), d')" "moved d r d'"
    by (rule decode_bytes_at)
  moreover note peek_at [OF d(1) d(2) [unfolded encode_bytes_def append_assoc]]
  ultimately show "\<exists>d'. skip_value (Suc f) d = (Got (), d') \<and> moved d r d'" by (simp add: Let_def)
qed (simp add: encode_bytes_def encode_head_nonempty)

lemma skips_float: "skips (0xFB # write_be 8 bits)"
proof (rule skipsI)
  fix d r f assume d: "dec_ok d" "current_view d = (0xFB # write_be 8 bits) @ r"
  let ?d1 = "advance 1 d"
  have m1: "moved d (write_be 8 bits @ r) ?d1"
    using d(2) by (intro moved_advance [OF d(1), of "[0xFB]"]) auto
  have m2: "moved ?d1 r (advance 8 ?d1)"
    by (rule moved_advance [OF moved_ok [OF m1] moved_view [OF m1]]) simp
  have nd: "\<not> dec_done d" using d by (simp add: dec_done_iff)
  have at: "dec_data d ! unat (dec_pos d) = 0xFB" using d(2) by (intro nth_pos) simp
  have "unat (dec_pos (advance 8 ?d1)) \<le> length (dec_data ?d1)"
    using m2 unfolding moved_def dec_ok_def by metis
  then have "\<not> dec_size ?d1 < dec_pos ?d1 + 8"
    using dec_size_nat [OF moved_ok [OF m1]] by (simp add: advance_def word_less_nat_alt)
  then have "snd (decode_head d) = advance 8 ?d1"
    using nd at by (simp add: decode_head_def Let_def extra_bytes_def)
  then show "\<exists>d'. skip_value (Suc f) d = (Got (), d') \<and> moved d r d'"
    using nd at moved_trans [OF m1 m2] by (simp add: Let_def)
qed simp

lemma skip_values_at:
  assumes "list_all skips bss" and "dec_ok d" and "current_view d = concat bss @ r"
    and "2 * length (concat bss) + 1 < f" and "length bss < 2 ^ 64"
  shows "\<exists>d'. skip_values f (word_of_nat (length bss)) d = (Got (), d') \<and> moved d r d'"
  using assms
proof (induction bss arbitrary: d f)
  case Nil
  then show ?case by (cases f) (simp_all add: moved_def)
next
  case (Cons bs bss)
  have sk: "skips bs" using Cons.prems(1) by simp
  obtain f' where f: "f = Suc f'" using Cons.prems by (cases f) auto
  have len: "2 * length bs < f'" "2 * length (concat bss) + 1 < f'"
    using Cons.prems f skips_Cons [OF sk] by auto
  obtain d1 where d1: "skip_value f' d = (Got (), d1)" "moved d (concat bss @ r) d1"
    using skipsE [OF sk Cons.prems(2) _ len(1)] Cons.prems(3) by auto
  obtain d2 where d2: "skip_values f' (word_of_nat (length bss)) d1 = (Got (), d2)" "moved d1 r d2"
    using Cons.IH [OF _ moved_ok [OF d1(2)] moved_view [OF d1(2)] len(2)] Cons.prems(1,5) by auto
  have "(word_of_nat (length (bs # bss)) :: u64) \<noteq> 0"
    using Cons.prems(5) by (metis length_Cons nat.distinct(1) unat_0 unat_u64)
  then show ?case using d1(1) d2(1) f moved_trans [OF d1(2) d2(2)] by simp
qed

text \<open>An array of n or a map of n/2 values: the count the loop runs to.\<close>

lemma skip_body:
  assumes d: "dec_ok d" "current_view d = (encode_head major n @ concat bss) @ r" and major: "major < 8"
    and sk: "list_all skips bss" and f: "2 * length (encode_head major n @ concat bss) \<le> f"
  obtains d1 d' where "decode_head d = (Got (major, n), d1)"
    "skip_values f (word_of_nat (length bss)) d1 = (Got (), d')" "moved d r d'"
proof -
  have "current_view d = encode_head major n @ (concat bss @ r)" using d(2) by simp
  then obtain d1 where d1: "decode_head d = (Got (major, n), d1)" "moved d (concat bss @ r) d1"
    using decode_head_at [OF d(1) _ major] by blast
  have "length bss \<le> length (concat bss)"
    using sk by (induction bss) (auto dest!: skips_Cons)
  also have "\<dots> \<le> length (dec_data d1)"
    using arg_cong [OF moved_view [OF d1(2)], of length] by (simp add: current_view_def)
  also have "\<dots> < 2 ^ 63" using moved_ok [OF d1(2)] by (simp add: dec_ok_def)
  finally have "length bss < 2 ^ 64" by simp
  moreover have "2 * length (concat bss) + 1 < f"
    using f encode_head_nonempty [of major n] by (cases "encode_head major n") simp_all
  ultimately obtain d' where "skip_values f (word_of_nat (length bss)) d1 = (Got (), d')" "moved d1 r d'"
    using skip_values_at [OF sk moved_ok [OF d1(2)] moved_view [OF d1(2)]] by blast
  then show ?thesis using that d1 moved_trans by blast
qed

lemma skips_array:
  assumes "list_all skips bss"
  shows "skips (encode_array (length bss) @ concat bss)"
proof (rule skipsI)
  fix d r f assume d: "dec_ok d" "current_view d = (encode_array (length bss) @ concat bss) @ r"
    and f: "2 * length (encode_array (length bss) @ concat bss) \<le> f"
  note e = encode_array_def
  obtain d1 d' where "decode_head d = (Got (4, word_of_nat (length bss)), d1)"
      "skip_values f (word_of_nat (length bss)) d1 = (Got (), d')" "moved d r d'"
    using skip_body [OF d(1) d(2) [unfolded e] _ assms f [unfolded e]] by auto
  moreover note peek_at [OF d(1) d(2) [unfolded e append_assoc]]
  ultimately show "\<exists>d'. skip_value (Suc f) d = (Got (), d') \<and> moved d r d'"
    by (simp add: Let_def decode_array_size_def)
qed (simp add: encode_array_def encode_head_nonempty)

lemma skips_map:
  assumes "list_all skips bss" and "length bss = 2 * n"
  shows "skips (encode_map n @ concat bss)"
proof (rule skipsI)
  fix d r f assume d: "dec_ok d" "current_view d = (encode_map n @ concat bss) @ r"
    and f: "2 * length (encode_map n @ concat bss) \<le> f"
  note e = encode_map_def
  obtain d1 d' where "decode_head d = (Got (5, word_of_nat n), d1)"
      "skip_values f (word_of_nat (length bss)) d1 = (Got (), d')" "moved d r d'"
    using skip_body [OF d(1) d(2) [unfolded e] _ assms(1) f [unfolded e]] by auto
  moreover have "(word_of_nat (length bss) :: u64) = word_of_nat n * 2"
    using assms(2) by (simp add: mult.commute)
  moreover note peek_at [OF d(1) d(2) [unfolded e append_assoc]]
  ultimately show "\<exists>d'. skip_value (Suc f) d = (Got (), d') \<and> moved d r d'"
    by (simp add: Let_def decode_map_size_def)
qed (simp add: encode_map_def encode_head_nonempty)

lemma skips_encode: "skips (encode_context_value v)"
proof (induction v rule: encode_context_value.induct)
  case 1
  then show ?case using skips_head [of 7 22] by (simp add: encode_head_def)
next
  case (2 b)
  then show ?case using skips_head [of 7 20] skips_head [of 7 21] by (simp add: encode_head_def)
next
  case (7 arr)
  then have "list_all skips (map encode_context_value arr)" by (simp add: list_all_iff)
  then show ?case using skips_array [of "map encode_context_value arr"] by simp
next
  case (8 m)
  let ?bss = "concat (map (\<lambda>(k, v). [encode_string k, encode_context_value v]) m)"
  have "list_all skips ?bss" using 8 by (auto simp: list_all_iff skips_string)
  moreover have "length ?bss = 2 * length m" by (induction m) auto
  ultimately have "skips (encode_map (length m) @ concat ?bss)" by (rule skips_map)
  moreover have "concat ?bss = concat (map (\<lambda>(k, v). encode_string k @ encode_context_value v) m)"
    by (induction m) auto
  ultimately show ?case by simp
qed (simp_all add: skips_int skips_float skips_string skips_bytes)

section \<open>Field lookup\<close>

definition encode_fields :: "(u64 \<times> ContextValue) list \<Rightarrow> bytes" where
  "encode_fields kvs = concat (map (\<lambda>(k, v). encode_uint_key k @ encode_context_value v) kvs)"

lemma encode_fields_Cons:
  "encode_fields ((k, v) # kvs) = encode_head 0 k @ encode_context_value v @ encode_fields kvs"
  by (simp add: encode_fields_def encode_uint_key_def encode_uint_def)

text \<open>One round of the loop: the key is read; it is the target, or its value is
  passed over.\<close>

lemma decode_field_round:
  assumes ok: "dec_ok d" and view: "current_view d = encode_fields ((k, v) # kvs)"
    and f: "2 * length (encode_fields ((k, v) # kvs)) \<le> f"
  obtains d1 d2 where "moved d (encode_context_value v @ encode_fields kvs) d1"
    "moved d (encode_fields kvs) d2"
    "decode_field value (Suc f) t d = (if k = t then value d1 else decode_field value f t d2)"
proof -
  have view': "current_view d = encode_uint k @ encode_context_value v @ encode_fields kvs"
    using view by (simp add: encode_fields_Cons encode_uint_def)
  from ok view' obtain d1 where d1: "decode_uint d = (Got k, d1)"
      "moved d (encode_context_value v @ encode_fields kvs) d1"
    by (rule decode_uint_at)
  have "2 * length (encode_context_value v) < f"
    using f encode_head_nonempty [of 0 k] by (cases "encode_head 0 k") (simp_all add: encode_fields_Cons)
  then obtain d2 where d2: "skip_value f d1 = (Got (), d2)" "moved d1 (encode_fields kvs) d2"
    using skipsE [OF skips_encode moved_ok [OF d1(2)] moved_view [OF d1(2)]] by blast
  have "\<not> dec_done d" "peek_major d = 0"
    using peek_at [OF ok view' [unfolded encode_uint_def]] by simp_all
  then have "decode_field value (Suc f) t d = (if k = t then value d1 else decode_field value f t d2)"
    using d1(1) d2(1) by simp
  then show ?thesis using that d1(2) moved_trans [OF d1(2) d2(2)] by blast
qed

lemma decode_field_found:
  assumes "map_of kvs t = Some v" and "dec_ok d" and "current_view d = encode_fields kvs"
    and "2 * length (encode_fields kvs) < f"
  shows "\<exists>d1 r. moved d (encode_context_value v @ r) d1 \<and> decode_field value f t d = value d1"
  using assms
proof (induction kvs arbitrary: d f)
  case (Cons kv kvs)
  obtain k w where kv: "kv = (k, w)" by fastforce
  obtain f' where f: "f = Suc f'" "2 * length (encode_fields ((k, w) # kvs)) \<le> f'"
    using Cons.prems(4) kv by (cases f) auto
  obtain d1 d2 where d: "moved d (encode_context_value w @ encode_fields kvs) d1"
      "moved d (encode_fields kvs) d2"
      "decode_field value f t d = (if k = t then value d1 else decode_field value f' t d2)"
    using decode_field_round [OF Cons.prems(2) _ f(2)] Cons.prems(3) f(1) kv by metis
  show ?case
  proof (cases "k = t")
    case True
    then show ?thesis using Cons.prems(1) d(1,3) kv by auto
  next
    case False
    have "2 * length (encode_fields kvs) < f'"
      using f(2) encode_head_nonempty [of 0 k] by (cases "encode_head 0 k") (simp_all add: encode_fields_Cons)
    then have "\<exists>d1 r. moved d2 (encode_context_value v @ r) d1 \<and> decode_field value f' t d2 = value d1"
      using Cons.IH [OF _ moved_ok [OF d(2)] moved_view [OF d(2)]] Cons.prems(1) False kv by simp
    then show ?thesis using moved_trans [OF d(2)] d(3) False by auto
  qed
qed simp

lemma decode_field_absent:
  assumes "map_of kvs t = None" and "dec_ok d" and "current_view d = encode_fields kvs"
    and "2 * length (encode_fields kvs) < f"
  shows "fst (decode_field value f t d) = Fail (cbor_err 709)"
  using assms
proof (induction kvs arbitrary: d f)
  case Nil
  then obtain f' where "f = Suc f'" by (cases f) auto
  moreover have "dec_done d" using Nil by (simp add: dec_done_iff encode_fields_def)
  ultimately show ?case by simp
next
  case (Cons kv kvs)
  obtain k w where kv: "kv = (k, w)" by fastforce
  obtain f' where f: "f = Suc f'" "2 * length (encode_fields ((k, w) # kvs)) \<le> f'"
    using Cons.prems(4) kv by (cases f) auto
  obtain d1 d2 where d: "moved d (encode_fields kvs) d2"
      "decode_field value f t d = (if k = t then value d1 else decode_field value f' t d2)"
    using decode_field_round [OF Cons.prems(2) _ f(2)] Cons.prems(3) f(1) kv by metis
  have "2 * length (encode_fields kvs) < f'"
    using f(2) encode_head_nonempty [of 0 k] by (cases "encode_head 0 k") (simp_all add: encode_fields_Cons)
  then show ?case
    using Cons.IH [OF _ moved_ok [OF d(1)] moved_view [OF d(1)]] Cons.prems(1) d(2) kv
    by (simp split: if_splits)
qed

text \<open>
  Skipping: on a decoder positioned at the encoding of any value, skip
  succeeds and leaves it right behind the value.
\<close>

lemma skip_passes_one_value:
  assumes "dec_ok d" and "current_view d = encode_context_value v @ r"
  shows "\<exists>d'. skip_value (2 * length (encode_context_value v) + 1) d = (Got (), d') \<and>
           dec_ok d' \<and> current_view d' = r"
proof -
  have "2 * length (encode_context_value v) < 2 * length (encode_context_value v) + 1" by simp
  from skipsE [OF skips_encode assms this] show ?thesis unfolding moved_def by metis
qed

lemma skip_passes_one_value_example:
  "\<exists>d'. skip_value (2 * length (encode_context_value (CArray [CNil, CNil])) + 1) (decoder [0x82, 0xF6, 0xF6, 7]) =
     (Got (), d') \<and> dec_ok d' \<and> current_view d' = [7]"
  by (rule skip_passes_one_value)
    (simp_all add: dec_ok_def decoder_def current_view_def encode_array_def encode_head_def)

text \<open>A byte string is returned as a view: the place of its bytes in the data.\<close>

lemma bytes_at_position:
  assumes "moved d (encode_context_value (CBytes s) @ r) d1"
  shows "\<exists>p. fst (decode_bytes d1) = Got (p, word_of_nat (length s)) \<and>
     take (length s) (drop (unat p) (dec_data d)) = s"
proof -
  have "current_view d1 = encode_bytes s @ r" using moved_view [OF assms] by simp
  with moved_ok [OF assms] obtain d' p where p: "decode_bytes d1 = (Got (p, word_of_nat (length s)), d')"
      "moved d1 r d'" "copy_view (p, word_of_nat (length s)) d' = (Got s, d')"
    by (rule decode_bytes_at)
  define k where "k = unat (word_of_nat (length s) :: u64)"
  have "s = take k (drop (unat p) (dec_data d))"
    using p(2,3) assms by (auto simp: copy_view_def moved_def k_def split: if_splits)
  then have "take (length s) (drop (unat p) (dec_data d)) = s"
    by (metis append_eq_conv_conj append_take_drop_id)
  with p(1) show ?thesis by simp
qed

lemma data_decoder: "dec_data (decoder data) = data"
  by (simp add: decoder_def)

text \<open>
  C32. Field lookup: on a sequence of encoded fields the three field decoders return
  what a lookup in the list of fields gives: the nonnegative number or the string of the
  first field with the key, for a byte string the position and length of its bytes in
  the data, and each of the three error 709 when no field has the key.
\<close>

theorem field_lookup:
  assumes "data = encode_fields kvs" and "length data < 2 ^ 63" and "f = 2 * length data + 1"
  shows "(\<forall>n. map_of kvs t = Some (CInt n) \<and> 0 \<le> sint n \<longrightarrow>
             fst (decode_uint_field f t (decoder data)) = Got n) \<and>
         (\<forall>s. map_of kvs t = Some (CString s) \<longrightarrow>
             fst (decode_string_field f t (decoder data)) = Got s) \<and>
         (\<forall>s. map_of kvs t = Some (CBytes s) \<longrightarrow>
             (\<exists>p. fst (decode_bytes_field f t (decoder data)) = Got (p, word_of_nat (length s)) \<and>
                take (length s) (drop (unat p) data) = s)) \<and>
         (map_of kvs t = None \<longrightarrow>
             fst (decode_uint_field f t (decoder data)) = Fail (cbor_err 709) \<and>
             fst (decode_string_field f t (decoder data)) = Fail (cbor_err 709) \<and>
             fst (decode_bytes_field f t (decoder data)) = Fail (cbor_err 709))"
proof -
  have d: "dec_ok (decoder data)" "current_view (decoder data) = encode_fields kvs"
      "2 * length (encode_fields kvs) < f"
    using assms by (simp_all add: dec_ok_def decoder_def current_view_def)
  have "fst (decode_uint_field f t (decoder data)) = Got n"
    if n: "map_of kvs t = Some (CInt n)" "0 \<le> sint n" for n
  proof -
    obtain d1 r where d1: "moved (decoder data) (encode_context_value (CInt n) @ r) d1"
        "decode_uint_field f t (decoder data) = decode_uint d1"
      using decode_field_found [OF n(1) d] unfolding decode_uint_field_def by blast
    with n(2) have "current_view d1 = encode_uint n @ r" by (simp add: encode_int_def moved_def)
    with moved_ok [OF d1(1)] obtain d' where "decode_uint d1 = (Got n, d')" by (rule decode_uint_at)
    with d1(2) show ?thesis by simp
  qed
  moreover have "fst (decode_string_field f t (decoder data)) = Got s"
    if s: "map_of kvs t = Some (CString s)" for s
  proof -
    obtain d1 r where d1: "moved (decoder data) (encode_context_value (CString s) @ r) d1"
        "decode_string_field f t (decoder data) = decode_string d1"
      using decode_field_found [OF s d] unfolding decode_string_field_def by blast
    then have "current_view d1 = encode_string s @ r" by (simp add: moved_def)
    with moved_ok [OF d1(1)] obtain d' where "decode_string d1 = (Got s, d')" by (rule decode_string_at)
    with d1(2) show ?thesis by simp
  qed
  moreover have "\<exists>p. fst (decode_bytes_field f t (decoder data)) = Got (p, word_of_nat (length s)) \<and>
      take (length s) (drop (unat p) data) = s"
    if s: "map_of kvs t = Some (CBytes s)" for s
    using decode_field_found [OF s d] unfolding decode_bytes_field_def by (metis bytes_at_position data_decoder)
  ultimately show ?thesis
    unfolding decode_uint_field_def decode_string_field_def decode_bytes_field_def
    using decode_field_absent [OF _ d, of t decode_uint] decode_field_absent [OF _ d, of t decode_string]
      decode_field_absent [OF _ d, of t decode_bytes]
    by blast
qed

definition sample_fields :: "(u64 \<times> ContextValue) list" where
  "sample_fields = [(1, CString [65]), (2, CInt 9), (3, CBytes [6, 7]), (2, CNil)]"

theorem field_lookup_witness:
  "let data = encode_fields sample_fields; f = 2 * length data + 1
   in fst (decode_uint_field f 2 (decoder data)) = Got 9 \<and>
      (\<exists>p. fst (decode_bytes_field f 3 (decoder data)) = Got (p, 2) \<and> take 2 (drop (unat p) data) = [6, 7]) \<and>
      fst (decode_string_field f 4 (decoder data)) = Fail (cbor_err 709)"
proof -
  have len: "length (encode_fields sample_fields) < 2 ^ 63"
    by (simp add: sample_fields_def encode_fields_def encode_uint_key_def encode_uint_def encode_head_def
        encode_string_def encode_bytes_def encode_int_def)
  have "map_of sample_fields 2 = Some (CInt 9)" "map_of sample_fields 3 = Some (CBytes [6, 7])"
      "map_of sample_fields 4 = None"
    by (simp_all add: sample_fields_def)
  then show ?thesis
    using field_lookup [OF refl len refl, of 2] field_lookup [OF refl len refl, of 3]
      field_lookup [OF refl len refl, of 4]
    by (simp add: Let_def numeral_2_eq_2)
qed

section \<open>A position that wraps around\<close>

lemma moved_unique:
  assumes "dec_ok d" "current_view d = xs @ r" "moved d r d'"
  shows "d' = advance (word_of_nat (length xs)) d"
proof -
  have m: "moved d r (advance (word_of_nat (length xs)) d)" using moved_advance [OF assms(1,2) refl] .
  have pos: "unat (dec_pos e) = length (dec_data e) - length r" if "moved d r e" for e
    using that arg_cong [of "current_view e" r length] by (auto simp: moved_def dec_ok_def current_view_def)
  have "unat (dec_pos d') = unat (dec_pos (advance (word_of_nat (length xs)) d))"
    using pos [OF assms(3)] pos [OF m] assms(3) m by (simp add: moved_def)
  then have "dec_pos d' = dec_pos (advance (word_of_nat (length xs)) d)" by (simp add: word_unat_eq_iff)
  moreover have "dec_data d' = dec_data (advance (word_of_nat (length xs)) d)"
    using assms(3) m by (simp add: moved_def)
  ultimately show ?thesis by simp
qed

definition endless :: bytes where
  "endless = encode_array 2 @ encode_head 2 (- 10)"

lemma endless_bytes: "endless = [0x82, 0x5B, 0xFF, 0xFF, 0xFF, 0xFF, 0xFF, 0xFF, 0xFF, 0xF6]"
  by code_simp

lemma decode_endless:
  assumes "dec_ok d" "current_view d = endless @ r"
  obtains d1 where "decode_array_size d = (Got 2, d1)" "\<not> dec_done d" "peek_major d = 4"
    "\<not> dec_done d1" "peek_major d1 = 2"
    "decode_bytes d1 = (Got (dec_pos d + 10, - 10), d)"
proof -
  have view: "current_view d = encode_array 2 @ encode_head 2 (- 10) @ r" using assms(2) by (simp add: endless_def)
  obtain d1 where d1: "decode_array_size d = (Got (word_of_nat 2), d1)" "moved d (encode_head 2 (- 10) @ r) d1"
    using assms(1) view by (rule decode_array_size_at)
  obtain d2 where d2: "decode_head d1 = (Got (2, - 10), d2)" "moved d1 r d2"
    using moved_ok [OF d1(2)] moved_view [OF d1(2)] by (rule decode_head_at) simp
  have "moved d r d2" using d1(2) d2(2) by (rule moved_trans)
  with assms have d2': "d2 = advance (word_of_nat (length endless)) d" by (rule moved_unique)
  have len: "length endless = 10" by (simp add: endless_bytes)
  have pos: "dec_pos d2 = dec_pos d + 10" and data: "dec_data d2 = dec_data d"
    by (simp_all add: d2' len advance_def)
  have "advance (- 10) d2 = d" by (simp add: advance_def pos data)
  moreover have "\<not> dec_size d2 < dec_pos d2 + (- 10)"
    using assms(1) by (simp add: pos data dec_size_def word_less_nat_alt dec_ok_def unat_u64)
  ultimately have "decode_bytes d1 = (Got (dec_pos d + 10, - 10), d)"
    by (simp add: decode_bytes_def decode_view_def d2(1) pos)
  moreover have "\<not> dec_done d" "peek_major d = 4"
    using peek_at [OF assms(1) view [unfolded encode_array_def]] by simp_all
  moreover have "\<not> dec_done d1" "peek_major d1 = 2"
    using peek_at [OF moved_ok [OF d1(2)] moved_view [OF d1(2)]] by simp_all
  ultimately show ?thesis using that d1(1) by simp
qed

text \<open>
  A ten-byte input on which skip never returns: an array of two whose first
  element is a byte string of length 2^64 - 10.  The bounds check of the string
  wraps around and passes, the position wraps back to the array, and skip calls
  itself on the same bytes again, without end: no fuel is enough.
\<close>

lemma skip_endless:
  assumes "dec_ok d" "current_view d = endless @ r"
  shows "fst (skip_value f d) = OutOfFuel"
proof -
  from assms obtain d1 where d1: "decode_array_size d = (Got 2, d1)" "\<not> dec_done d" "peek_major d = 4"
      "\<not> dec_done d1" "peek_major d1 = 2" "decode_bytes d1 = (Got (dec_pos d + 10, - 10), d)"
    by (rule decode_endless)
  show ?thesis
  proof (induction f rule: less_induct)
    case (less f)
    show ?case
    proof (cases f)
      case (Suc g)
      have "skip_value (Suc k) d1 = (Got (), d)" for k using d1 by (simp add: peek_major_def)
      then have "fst (skip_values g 2 d1) = OutOfFuel"
        using less.IH Suc
        by (cases g; cases "g - 1") (auto simp: dbind_fuel)
      then show ?thesis using Suc d1 by (simp add: peek_major_def)
    qed simp
  qed
qed

lemma skip_endless_example:
  "fst (skip_value 1000 (decoder [0x82, 0x5B, 0xFF, 0xFF, 0xFF, 0xFF, 0xFF, 0xFF, 0xFF, 0xF6])) = OutOfFuel"
  by (rule skip_endless [where r = "[]"]) (simp_all add: dec_ok_def decoder_def current_view_def endless_bytes)

end
