(* ===== verification/Schema_Registry.thy ===== *)
theory Schema_Registry
  imports Context_Value
begin

text \<open>
  SchemaRegistry (core/cbor/context_value.hpp, .cpp): named schemas for map
  values.  The registry is a std::map, kept as a sorted list of entries.
\<close>

record FieldSchema =
  fs_name :: bytes
  fs_type :: CType
  fs_required :: bool
  fs_description :: bytes

datatype Schema =
  Schema (schema_name: bytes) (schema_version: bytes) (schema_fields: "FieldSchema list")
    (schema_nested: "(bytes \<times> Schema) list")

type_synonym SchemaRegistry = "(bytes \<times> Schema) list"

definition register_schema :: "Schema \<Rightarrow> SchemaRegistry \<Rightarrow> SchemaRegistry \<times> unit result" where
  "register_schema schema reg =
     (if map_of reg (schema_name schema) \<noteq> None then (reg, Err (cbor_err 720))
      else if list_ex (\<lambda>field. fs_name field = []) (schema_fields schema) then (reg, Err (cbor_err 721))
      else (map_emplace (schema_name schema) schema reg, Ok ()))"

text \<open>validate_fields is the loop over the fields of a schema.  A field of map
  type with an entry in nested_schemas is validated against the schema that is
  registered under the entry's key, the field name.\<close>

lemma map_of_size: "map_of m k = Some v \<Longrightarrow> size v < size (CMap m)"
  by (induction m) (auto split: if_splits)

function validate :: "SchemaRegistry \<Rightarrow> ContextValue \<Rightarrow> bytes \<Rightarrow> unit result"
  and validate_fields ::
    "SchemaRegistry \<Rightarrow> (bytes \<times> ContextValue) list \<Rightarrow> Schema \<Rightarrow> FieldSchema list \<Rightarrow> unit result" where
  "validate reg val name =
     (case map_of reg name of
        None \<Rightarrow> Err (cbor_err 722)
      | Some schema \<Rightarrow>
          (case val of
             CMap m \<Rightarrow> validate_fields reg m schema (schema_fields schema)
           | _ \<Rightarrow> Err (cbor_err 723)))"
| "validate_fields reg m schema [] = Ok ()"
| "validate_fields reg m schema (field # fs) =
     (case map_of m (fs_name field) of
        None \<Rightarrow> if fs_required field then Err (cbor_err 724) else validate_fields reg m schema fs
      | Some v \<Rightarrow>
          if cv_type v \<noteq> fs_type field then Err (cbor_err 725)
          else if fs_type field = TMap \<and> map_of (schema_nested schema) (fs_name field) \<noteq> None
          then rbind (validate reg v (fs_name field)) (\<lambda>_. validate_fields reg m schema fs)
          else validate_fields reg m schema fs)"
  by pat_completeness auto
termination
  by (relation "measures [\<lambda>x. case x of Inl (reg, v, n) \<Rightarrow> size v | Inr (reg, m, s, fs) \<Rightarrow> size (CMap m),
        \<lambda>x. case x of Inl _ \<Rightarrow> 1 | Inr _ \<Rightarrow> 0,
        \<lambda>x. case x of Inl _ \<Rightarrow> 0 | Inr (reg, m, s, fs) \<Rightarrow> length fs]")
    (auto dest: map_of_size)

definition has_schema :: "bytes \<Rightarrow> SchemaRegistry \<Rightarrow> bool" where
  "has_schema name reg = (map_of reg name \<noteq> None)"

definition get_schema :: "bytes \<Rightarrow> SchemaRegistry \<Rightarrow> Schema option" where
  "get_schema name reg = map_of reg name"

definition list_schemas :: "SchemaRegistry \<Rightarrow> bytes list" where
  "list_schemas reg = map fst reg"

declare validate.simps [simp del]

text \<open>What a schema asks of a field.\<close>

definition field_ok ::
  "SchemaRegistry \<Rightarrow> (bytes \<times> ContextValue) list \<Rightarrow> Schema \<Rightarrow> FieldSchema \<Rightarrow> bool" where
  "field_ok reg m schema field \<longleftrightarrow>
     (case map_of m (fs_name field) of
        None \<Rightarrow> \<not> fs_required field
      | Some v \<Rightarrow> cv_type v = fs_type field \<and>
          (fs_type field = TMap \<and> map_of (schema_nested schema) (fs_name field) \<noteq> None \<longrightarrow>
             validate reg v (fs_name field) = Ok ()))"

lemma validate_fields_iff:
  "validate_fields reg m schema fs = Ok () \<longleftrightarrow> (\<forall>field \<in> set fs. field_ok reg m schema field)"
proof (induction fs)
  case (Cons field fs)
  then show ?case
    by (cases "map_of m (fs_name field)") (auto simp: field_ok_def rbind_eq_Ok)
qed simp

text \<open>
  Validation is exact: a value passes a registered schema exactly when it is a
  map in which every required field is present, every present field has its
  declared type, and every nested map field that the schema marks passes the
  schema registered under the field's name.
\<close>

lemma validate_iff:
  assumes "map_of reg name = Some schema"
  shows "validate reg val name = Ok () \<longleftrightarrow>
    (\<exists>m. val = CMap m \<and> (\<forall>field \<in> set (schema_fields schema). field_ok reg m schema field))"
proof (cases val)
  case (CMap m)
  then show ?thesis using assms by (simp add: validate.simps validate_fields_iff)
qed (simp_all add: assms validate.simps)

definition demo_schema :: Schema where
  "demo_schema = Schema (ascii ''s'') [] [\<lparr>fs_name = ascii ''a'', fs_type = TInt, fs_required = True,
     fs_description = []\<rparr>] []"

lemma validate_iff_example:
  "validate [(ascii ''s'', demo_schema)] (CMap [(ascii ''a'', CInt 1)]) (ascii ''s'') = Ok () \<and>
   validate [(ascii ''s'', demo_schema)] (CMap []) (ascii ''s'') \<noteq> Ok ()"
proof -
  have "map_of [(ascii ''s'', demo_schema)] (ascii ''s'') = Some demo_schema" by simp
  from validate_iff [OF this] show ?thesis by (simp add: demo_schema_def field_ok_def)
qed

text \<open>
  Registration: registering a schema under a fresh name keeps the registry
  sorted, makes exactly that name resolve to it, and fails without any change for
  a name that is taken or a schema with an unnamed field.
\<close>

lemma register_schema_spec:
  assumes "sorted_wrt (<) (map fst reg)"
  shows "case register_schema schema reg of (reg', r) \<Rightarrow>
    sorted_wrt (<) (list_schemas reg') \<and>
    (r = Ok () \<longleftrightarrow> \<not> has_schema (schema_name schema) reg \<and> (\<forall>field \<in> set (schema_fields schema). fs_name field \<noteq> [])) \<and>
    (r = Ok () \<longrightarrow> get_schema n reg' = (if n = schema_name schema then Some schema else get_schema n reg)) \<and>
    (r \<noteq> Ok () \<longrightarrow> reg' = reg)"
  using assms
  by (auto simp: register_schema_def list_schemas_def has_schema_def get_schema_def sorted_emplace
      context_map.lookup_emplace list_ex_iff)

lemma register_schema_spec_example:
  "get_schema (ascii ''s'') (fst (register_schema demo_schema [])) = Some demo_schema"
proof -
  have "case register_schema demo_schema [] of (reg', r) \<Rightarrow>
    sorted_wrt (<) (list_schemas reg') \<and>
    (r = Ok () \<longleftrightarrow> \<not> has_schema (schema_name demo_schema) [] \<and> (\<forall>field \<in> set (schema_fields demo_schema). fs_name field \<noteq> [])) \<and>
    (r = Ok () \<longrightarrow> get_schema (ascii ''s'') reg' =
       (if ascii ''s'' = schema_name demo_schema then Some demo_schema else get_schema (ascii ''s'') [])) \<and>
    (r \<noteq> Ok () \<longrightarrow> reg' = [])"
    by (rule register_schema_spec) simp
  then show ?thesis by (auto simp: demo_schema_def has_schema_def ascii_def split: prod.splits)
qed

end
