(* ===== verification/Opcode_Registry.thy ===== *)
theory Opcode_Registry
  imports Smo_Prelude
begin

text \<open>
  Opcodes and their registry (core/opcode/opcode.h, opcode_registry.hpp, .cpp) and
  the packet routes derived from it (protocol/packet/packet_route.hpp, .cpp).  An
  Opcode is a byte, since plugins use values outside of the enumerators; the
  process-wide registry instance is an argument of the route functions.
\<close>

section \<open>Opcodes\<close>

datatype OpcodeName =
    LS | PUT | GET | EXEC | QUARANTINE | MKDIR | RM | CP | REVOKE_CERT | EPOCH_INCREMENT
  | RECOVERY_SESSION | CRL_SYNC | GOV_PROPOSE | GOV_VOTE | GOV_COMMIT | ECHO
  | SESSION_OPEN | SESSION_CLOSE | SESSION_RENEW | BOOTSTRAP_SNAPSHOT | BOOTSTRAP_INFO
  | JOIN | LEAVE | JOIN_INFO | GOV_LIST | GOV_STATUS | GOV_INFO | RECOVERY | FILE_OP
  | PROCESS | CONTRACT_MGMT | WITNESS | CHANNEL_OPEN | CHANNEL_CHUNK | CHANNEL_ACK
  | CHANNEL_NACK | CHANNEL_FIN | CHANNEL_CANCEL | CHANNEL_WINDOW_UPDATE | CUSTOM

type_synonym Opcode = byte

primrec opcode :: "OpcodeName \<Rightarrow> Opcode" where
  "opcode LS = 0x01"
| "opcode PUT = 0x02"
| "opcode GET = 0x03"
| "opcode EXEC = 0x04"
| "opcode QUARANTINE = 0x05"
| "opcode MKDIR = 0x10"
| "opcode RM = 0x11"
| "opcode CP = 0x12"
| "opcode REVOKE_CERT = 0x20"
| "opcode EPOCH_INCREMENT = 0x21"
| "opcode RECOVERY_SESSION = 0x22"
| "opcode CRL_SYNC = 0x23"
| "opcode GOV_PROPOSE = 0x24"
| "opcode GOV_VOTE = 0x25"
| "opcode GOV_COMMIT = 0x26"
| "opcode ECHO = 0x06"
| "opcode SESSION_OPEN = 0x40"
| "opcode SESSION_CLOSE = 0x41"
| "opcode SESSION_RENEW = 0x42"
| "opcode BOOTSTRAP_SNAPSHOT = 0x30"
| "opcode BOOTSTRAP_INFO = 0x31"
| "opcode JOIN = 0x33"
| "opcode LEAVE = 0x34"
| "opcode JOIN_INFO = 0x35"
| "opcode GOV_LIST = 0x27"
| "opcode GOV_STATUS = 0x28"
| "opcode GOV_INFO = 0x29"
| "opcode RECOVERY = 0x2A"
| "opcode FILE_OP = 0x2B"
| "opcode PROCESS = 0x2C"
| "opcode CONTRACT_MGMT = 0x2D"
| "opcode WITNESS = 0x2E"
| "opcode CHANNEL_OPEN = 0x60"
| "opcode CHANNEL_CHUNK = 0x61"
| "opcode CHANNEL_ACK = 0x62"
| "opcode CHANNEL_NACK = 0x63"
| "opcode CHANNEL_FIN = 0x64"
| "opcode CHANNEL_CANCEL = 0x65"
| "opcode CHANNEL_WINDOW_UPDATE = 0x66"
| "opcode CUSTOM = 0xFF"

record OpcodeInfo =
  info_code :: Opcode
  info_name :: string
  info_idempotent :: bool
  info_capability_mask :: u32

primrec builtin_info :: "OpcodeName \<Rightarrow> string \<times> bool \<times> u32" where
  "builtin_info LS = (''ls'', True, 0x01)"
| "builtin_info PUT = (''put'', True, 0x01)"
| "builtin_info GET = (''get'', True, 0x01)"
| "builtin_info EXEC = (''exec'', False, 0x01)"
| "builtin_info QUARANTINE = (''quarantine'', False, 0x01)"
| "builtin_info MKDIR = (''mkdir'', True, 0x01)"
| "builtin_info RM = (''rm'', False, 0x01)"
| "builtin_info CP = (''cp'', True, 0x01)"
| "builtin_info REVOKE_CERT = (''revoke_cert'', False, 0x01)"
| "builtin_info EPOCH_INCREMENT = (''epoch_increment'', False, 0x01)"
| "builtin_info RECOVERY_SESSION = (''recovery_session'', False, 0x01)"
| "builtin_info CRL_SYNC = (''crl_sync'', True, 0x01)"
| "builtin_info GOV_PROPOSE = (''gov_propose'', False, 0x01)"
| "builtin_info GOV_VOTE = (''gov_vote'', False, 0x01)"
| "builtin_info GOV_COMMIT = (''gov_commit'', True, 0x01)"
| "builtin_info ECHO = (''echo'', True, 0x01)"
| "builtin_info SESSION_OPEN = (''session_open'', False, 0x01)"
| "builtin_info SESSION_CLOSE = (''session_close'', True, 0x01)"
| "builtin_info SESSION_RENEW = (''session_renew'', False, 0x01)"
| "builtin_info BOOTSTRAP_SNAPSHOT = (''bootstrap_snapshot'', True, 0x01)"
| "builtin_info BOOTSTRAP_INFO = (''bootstrap_info'', True, 0x01)"
| "builtin_info JOIN = (''join'', False, 0x01)"
| "builtin_info LEAVE = (''leave'', True, 0x01)"
| "builtin_info JOIN_INFO = (''join_info'', True, 0x01)"
| "builtin_info GOV_LIST = (''gov_list'', True, 0x01)"
| "builtin_info GOV_STATUS = (''gov_status'', True, 0x01)"
| "builtin_info GOV_INFO = (''gov_info'', True, 0x01)"
| "builtin_info RECOVERY = (''recovery'', False, 0x01)"
| "builtin_info FILE_OP = (''file_op'', False, 0x01)"
| "builtin_info PROCESS = (''process'', False, 0x01)"
| "builtin_info CONTRACT_MGMT = (''contract_mgmt'', False, 0x01)"
| "builtin_info WITNESS = (''witness'', False, 0x01)"
| "builtin_info CHANNEL_OPEN = (''channel_open'', False, 0x01)"
| "builtin_info CHANNEL_CHUNK = (''channel_chunk'', False, 0x01)"
| "builtin_info CHANNEL_ACK = (''channel_ack'', True, 0x01)"
| "builtin_info CHANNEL_NACK = (''channel_nack'', False, 0x01)"
| "builtin_info CHANNEL_FIN = (''channel_fin'', True, 0x01)"
| "builtin_info CHANNEL_CANCEL = (''channel_cancel'', False, 0x01)"
| "builtin_info CHANNEL_WINDOW_UPDATE = (''channel_window_update'', True, 0x01)"
| "builtin_info CUSTOM = (''custom'', False, 0x01)"

definition all_opcodes :: "OpcodeName list" where
  "all_opcodes = [LS, PUT, GET, EXEC, QUARANTINE, MKDIR, RM, CP, REVOKE_CERT, EPOCH_INCREMENT,
    RECOVERY_SESSION, CRL_SYNC, GOV_PROPOSE, GOV_VOTE, GOV_COMMIT, ECHO, SESSION_OPEN,
    SESSION_CLOSE, SESSION_RENEW, BOOTSTRAP_SNAPSHOT, BOOTSTRAP_INFO, JOIN, LEAVE, JOIN_INFO,
    GOV_LIST, GOV_STATUS, GOV_INFO, RECOVERY, FILE_OP, PROCESS, CONTRACT_MGMT, WITNESS,
    CHANNEL_OPEN, CHANNEL_CHUNK, CHANNEL_ACK, CHANNEL_NACK, CHANNEL_FIN, CHANNEL_CANCEL,
    CHANNEL_WINDOW_UPDATE, CUSTOM]"

definition opcode_info :: "Opcode \<Rightarrow> OpcodeInfo" where
  "opcode_info code =
     (case find (\<lambda>n. opcode n = code) all_opcodes of
        Some n \<Rightarrow> (case builtin_info n of (s, idem, cap) \<Rightarrow>
          \<lparr>info_code = code, info_name = s, info_idempotent = idem, info_capability_mask = cap\<rparr>)
      | None \<Rightarrow> \<lparr>info_code = code, info_name = ''unknown'', info_idempotent = False, info_capability_mask = 0\<rparr>)"

section \<open>The wire table\<close>

definition kNamespaceDiscovery :: byte where "kNamespaceDiscovery = 0x01"
definition kNamespaceControl :: byte where "kNamespaceControl = 0x02"
definition kNamespaceExecution :: byte where "kNamespaceExecution = 0x03"
definition kNamespaceData :: byte where "kNamespaceData = 0x04"

record WireOpcodeEntry =
  we_code :: Opcode
  we_ns :: byte
  we_message_id :: u16
  we_name :: string
  we_functional_group :: string
  we_capability_mask :: u32
  we_idempotent :: bool

abbreviation wire_row :: "OpcodeName \<Rightarrow> byte \<Rightarrow> u16 \<Rightarrow> string \<Rightarrow> string \<Rightarrow> u32 \<Rightarrow> bool \<Rightarrow> WireOpcodeEntry" where
  "wire_row n ns m name grp cap idem \<equiv>
     \<lparr>we_code = opcode n, we_ns = ns, we_message_id = m, we_name = name,
      we_functional_group = grp, we_capability_mask = cap, we_idempotent = idem\<rparr>"

definition kWireTable :: "WireOpcodeEntry list" where
  "kWireTable =
    [wire_row LS kNamespaceDiscovery 0x0101 ''ls'' ''discovery'' 0x01 True,
     wire_row PUT kNamespaceDiscovery 0x0102 ''put'' ''discovery'' 0x01 True,
     wire_row GET kNamespaceDiscovery 0x0103 ''get'' ''discovery'' 0x01 True,
     wire_row ECHO kNamespaceDiscovery 0x0104 ''echo'' ''discovery'' 0x01 True,
     wire_row SESSION_OPEN kNamespaceControl 0x0010 ''session_open'' ''session'' 0x01 False,
     wire_row SESSION_CLOSE kNamespaceControl 0x0011 ''session_close'' ''session'' 0x01 True,
     wire_row SESSION_RENEW kNamespaceControl 0x0012 ''session_renew'' ''session'' 0x01 False,
     wire_row GOV_PROPOSE kNamespaceControl 0x0020 ''gov_propose'' ''governance'' 0x01 False,
     wire_row GOV_VOTE kNamespaceControl 0x0021 ''gov_vote'' ''governance'' 0x01 False,
     wire_row GOV_COMMIT kNamespaceControl 0x0022 ''gov_commit'' ''governance'' 0x01 True,
     wire_row GOV_LIST kNamespaceControl 0x0023 ''gov_list'' ''governance'' 0x01 True,
     wire_row GOV_STATUS kNamespaceControl 0x0024 ''gov_status'' ''governance'' 0x01 True,
     wire_row GOV_INFO kNamespaceControl 0x0025 ''gov_info'' ''governance'' 0x01 True,
     wire_row REVOKE_CERT kNamespaceControl 0x0030 ''revoke_cert'' ''certificate'' 0x01 False,
     wire_row EPOCH_INCREMENT kNamespaceControl 0x0031 ''epoch_increment'' ''certificate'' 0x01 False,
     wire_row CRL_SYNC kNamespaceControl 0x0032 ''crl_sync'' ''certificate'' 0x01 True,
     wire_row RECOVERY_SESSION kNamespaceControl 0x0040 ''recovery_session'' ''recovery'' 0x01 False,
     wire_row RECOVERY kNamespaceControl 0x0041 ''recovery'' ''recovery'' 0x01 False,
     wire_row CONTRACT_MGMT kNamespaceControl 0x0050 ''contract_mgmt'' ''contract_mgmt'' 0x01 False,
     wire_row WITNESS kNamespaceControl 0x0051 ''witness'' ''contract_mgmt'' 0x01 False,
     wire_row EXEC kNamespaceExecution 0x0201 ''exec'' ''execution'' 0x01 False,
     wire_row QUARANTINE kNamespaceExecution 0x0202 ''quarantine'' ''execution'' 0x01 False,
     wire_row MKDIR kNamespaceExecution 0x0203 ''mkdir'' ''execution'' 0x01 True,
     wire_row RM kNamespaceExecution 0x0204 ''rm'' ''execution'' 0x01 False,
     wire_row CP kNamespaceExecution 0x0205 ''cp'' ''execution'' 0x01 True,
     wire_row FILE_OP kNamespaceExecution 0x0206 ''file_op'' ''execution'' 0x01 False,
     wire_row PROCESS kNamespaceExecution 0x0207 ''process'' ''execution'' 0x01 False,
     wire_row CUSTOM kNamespaceExecution 0x02FF ''custom'' ''execution'' 0x01 False,
     wire_row CHANNEL_OPEN kNamespaceData 0x0001 ''channel_open'' ''channel'' 0x01 False,
     wire_row CHANNEL_CHUNK kNamespaceData 0x0002 ''channel_chunk'' ''channel'' 0x01 False,
     wire_row CHANNEL_ACK kNamespaceData 0x0003 ''channel_ack'' ''channel'' 0x01 True,
     wire_row CHANNEL_NACK kNamespaceData 0x0004 ''channel_nack'' ''channel'' 0x01 False,
     wire_row CHANNEL_FIN kNamespaceData 0x0005 ''channel_fin'' ''channel'' 0x01 True,
     wire_row CHANNEL_CANCEL kNamespaceData 0x0006 ''channel_cancel'' ''channel'' 0x01 False,
     wire_row CHANNEL_WINDOW_UPDATE kNamespaceData 0x0007 ''channel_window_update'' ''channel'' 0x01 True]"

record OpcodeEntry =
  oe_id :: Opcode
  oe_name :: string
  oe_semver :: string
  oe_capability_mask :: u32
  oe_idempotent :: bool
  oe_contract_id :: string
  oe_plugin_id :: string
  oe_supported_arches :: "string list"
  oe_ns :: byte
  oe_message_id :: u16
  oe_functional_group :: string

definition wire_key :: "byte \<Rightarrow> u16 \<Rightarrow> u32" where
  "wire_key ns message_id = push_bit 16 (ucast ns) OR ucast message_id"

section \<open>The registry\<close>

record OpcodeRegistry =
  by_code :: "Opcode \<rightharpoonup> OpcodeEntry"
  by_name :: "string \<rightharpoonup> Opcode"
  by_wire :: "u32 \<rightharpoonup> OpcodeEntry"
  next_msg_id :: "string \<rightharpoonup> u16"

text \<open>The update of next_msg_id_ that every registration makes: entry.message_id + 1
  is an int that is stored in sixteen bits.\<close>

definition bump_next :: "string \<Rightarrow> u16 \<Rightarrow> (string \<rightharpoonup> u16) \<Rightarrow> (string \<rightharpoonup> u16)" where
  "bump_next grp message_id nxt =
     (case nxt grp of
        None \<Rightarrow> nxt(grp \<mapsto> message_id + 1)
      | Some n \<Rightarrow> if n \<le> message_id then nxt(grp \<mapsto> message_id + 1) else nxt)"

definition entry_of_wire :: "WireOpcodeEntry \<Rightarrow> OpcodeEntry" where
  "entry_of_wire e =
     \<lparr>oe_id = we_code e, oe_name = we_name e, oe_semver = ''1.0.0'',
      oe_capability_mask = we_capability_mask e, oe_idempotent = we_idempotent e,
      oe_contract_id = [], oe_plugin_id = [], oe_supported_arches = [''x86_64'', ''aarch64''],
      oe_ns = we_ns e, oe_message_id = we_message_id e, oe_functional_group = we_functional_group e\<rparr>"

definition register_wire :: "WireOpcodeEntry \<Rightarrow> OpcodeRegistry \<Rightarrow> OpcodeRegistry" where
  "register_wire e reg =
     (let oe = entry_of_wire e
      in reg\<lparr>by_code := (by_code reg)(we_code e \<mapsto> oe),
             by_name := (by_name reg)(we_name e \<mapsto> we_code e),
             by_wire := (if we_ns e \<noteq> 0 \<and> we_message_id e \<noteq> 0
                         then (by_wire reg)(wire_key (we_ns e) (we_message_id e) \<mapsto> oe) else by_wire reg),
             next_msg_id := bump_next (we_functional_group e) (we_message_id e) (next_msg_id reg)\<rparr>)"

definition builtin_entry :: "Opcode \<Rightarrow> string \<Rightarrow> u32 \<Rightarrow> bool \<Rightarrow> OpcodeEntry" where
  "builtin_entry code name cap idem =
     (let (ns, message_id, grp) =
            (case find (\<lambda>we. we_code we = code) kWireTable of
               Some we \<Rightarrow> (we_ns we, we_message_id we, we_functional_group we)
             | None \<Rightarrow> (0, 0, []))
      in \<lparr>oe_id = code, oe_name = name, oe_semver = ''1.0.0'', oe_capability_mask = cap,
          oe_idempotent = idem, oe_contract_id = [], oe_plugin_id = [],
          oe_supported_arches = [''x86_64'', ''aarch64''], oe_ns = ns, oe_message_id = message_id,
          oe_functional_group = grp\<rparr>)"

definition register_builtin :: "Opcode \<Rightarrow> string \<Rightarrow> u32 \<Rightarrow> bool \<Rightarrow> OpcodeRegistry \<Rightarrow> OpcodeRegistry" where
  "register_builtin code name cap idem reg =
     (let e = builtin_entry code name cap idem
      in reg\<lparr>by_code := (by_code reg)(code \<mapsto> e),
             by_name := (by_name reg)(name \<mapsto> code),
             by_wire := (by_wire reg)(wire_key (oe_ns e) (oe_message_id e) \<mapsto> e),
             next_msg_id := bump_next (oe_functional_group e) (oe_message_id e) (next_msg_id reg)\<rparr>)"

definition empty_registry :: OpcodeRegistry where
  "empty_registry = \<lparr>by_code = Map.empty, by_name = Map.empty, by_wire = Map.empty, next_msg_id = Map.empty\<rparr>"

definition opcode_registry_new :: OpcodeRegistry where
  "opcode_registry_new =
     register_builtin (opcode JOIN_INFO) ''join_info'' 0x01 True
    (register_builtin (opcode LEAVE) ''leave'' 0x01 True
    (register_builtin (opcode JOIN) ''join'' 0x01 False
    (register_builtin (opcode BOOTSTRAP_INFO) ''bootstrap_info'' 0x01 True
    (register_builtin (opcode BOOTSTRAP_SNAPSHOT) ''bootstrap_snapshot'' 0x01 True
    (fold register_wire kWireTable empty_registry)))))"

abbreviation err_opcode :: error_code where
  "err_opcode \<equiv> smo_err CatCrypto 8 SevError NoRetry RecNone"

definition register_plugin_opcode :: "OpcodeEntry \<Rightarrow> OpcodeRegistry \<Rightarrow> OpcodeRegistry \<times> unit result" where
  "register_plugin_opcode e reg =
     (if oe_id e < 0xFB \<or> 0xFE < oe_id e then (reg, Err err_opcode)
      else if by_code reg (oe_id e) \<noteq> None then (reg, Err err_opcode)
      else if by_name reg (oe_name e) \<noteq> None then (reg, Err err_opcode)
      else
        let reg1 = reg\<lparr>by_code := (by_code reg)(oe_id e \<mapsto> e), by_name := (by_name reg)(oe_name e \<mapsto> oe_id e)\<rparr>
        in if oe_ns e \<noteq> 0 \<and> oe_message_id e \<noteq> 0 then
             let k = wire_key (oe_ns e) (oe_message_id e)
             in if by_wire reg1 k \<noteq> None then (reg1, Err err_opcode)
                else (reg1\<lparr>by_wire := (by_wire reg1)(k \<mapsto> e),
                           next_msg_id := bump_next (oe_functional_group e) (oe_message_id e) (next_msg_id reg1)\<rparr>,
                      Ok ())
           else (reg1, Ok ()))"

definition resolve :: "Opcode \<Rightarrow> OpcodeRegistry \<Rightarrow> OpcodeEntry result" where
  "resolve code reg = (case by_code reg code of None \<Rightarrow> Err err_opcode | Some e \<Rightarrow> Ok e)"

text \<open>by_code_.at throws when the name maps to a code without entry: None.\<close>

definition resolve_by_name :: "string \<Rightarrow> OpcodeRegistry \<Rightarrow> OpcodeEntry result option" where
  "resolve_by_name name reg =
     (case by_name reg name of
        None \<Rightarrow> Some (Err err_opcode)
      | Some c \<Rightarrow> (case by_code reg c of None \<Rightarrow> None | Some e \<Rightarrow> Some (Ok e)))"

definition resolve_by_wire :: "byte \<Rightarrow> u16 \<Rightarrow> OpcodeRegistry \<Rightarrow> OpcodeEntry result" where
  "resolve_by_wire ns message_id reg =
     (case by_wire reg (wire_key ns message_id) of None \<Rightarrow> Err err_opcode | Some e \<Rightarrow> Ok e)"

definition validate_packet_opcode :: "byte \<Rightarrow> u16 \<Rightarrow> OpcodeRegistry \<Rightarrow> unit result" where
  "validate_packet_opcode ns message_id reg =
     rbind (resolve_by_wire ns message_id reg) (\<lambda>_.
       if ns \<noteq> kNamespaceDiscovery \<and> ns \<noteq> kNamespaceControl \<and>
          ns \<noteq> kNamespaceExecution \<and> ns \<noteq> kNamespaceData
       then Err (smo_err CatProtocol 604 SevError NoRetry RecNone)
       else Ok ())"

definition next_message_id :: "string \<Rightarrow> OpcodeRegistry \<Rightarrow> u16 \<times> OpcodeRegistry" where
  "next_message_id grp reg =
     (case next_msg_id reg grp of
        None \<Rightarrow> (0x0100, reg)
      | Some n \<Rightarrow> (n, reg\<lparr>next_msg_id := (next_msg_id reg)(grp \<mapsto> n + 1)\<rparr>))"

section \<open>Packet routes\<close>

definition to_packet_route :: "OpcodeRegistry \<Rightarrow> Opcode \<Rightarrow> (byte \<times> u16) option" where
  "to_packet_route reg op =
     (case resolve op reg of
        Err _ \<Rightarrow> None
      | Ok e \<Rightarrow> if oe_ns e = 0 \<or> oe_message_id e = 0 then None else Some (oe_ns e, oe_message_id e))"

definition to_packet_route_id :: "OpcodeRegistry \<Rightarrow> u32 \<Rightarrow> (byte \<times> u16) option" where
  "to_packet_route_id reg opcode_id =
     (if opcode_id > 0xFF then None else to_packet_route reg (ucast opcode_id))"

definition from_packet_route :: "OpcodeRegistry \<Rightarrow> byte \<Rightarrow> u16 \<Rightarrow> Opcode option" where
  "from_packet_route reg ns message_id =
     (case resolve_by_wire ns message_id reg of Err _ \<Rightarrow> None | Ok e \<Rightarrow> Some (oe_id e))"

definition is_packet_capable :: "OpcodeRegistry \<Rightarrow> Opcode \<Rightarrow> bool" where
  "is_packet_capable reg op =
     (case resolve op reg of Err _ \<Rightarrow> False | Ok e \<Rightarrow> oe_ns e \<noteq> 0 \<and> oe_message_id e \<noteq> 0)"

section \<open>The invariant of the registry\<close>

lemmas namespaces = kNamespaceDiscovery_def kNamespaceControl_def kNamespaceExecution_def kNamespaceData_def

lemma wire_key_parts:
  "(ucast (wire_key ns m) :: u16) = m" "(ucast (drop_bit 16 (wire_key ns m)) :: byte) = ns"
  by (rule bit_word_eqI; auto simp: wire_key_def bit_simps dest: bit_imp_le_length)+

lemma wire_key_inject [simp]: "wire_key a b = wire_key c d \<longleftrightarrow> a = c \<and> b = d"
  by (metis wire_key_parts)

text \<open>Every index points to entries of the code table.\<close>

definition registry_inv :: "OpcodeRegistry \<Rightarrow> bool" where
  "registry_inv reg \<longleftrightarrow>
     (\<forall>c e. by_code reg c = Some e \<longrightarrow> oe_id e = c) \<and>
     (\<forall>n c. by_name reg n = Some c \<longrightarrow> by_code reg c \<noteq> None) \<and>
     (\<forall>k e. by_wire reg k = Some e \<longrightarrow>
        k = wire_key (oe_ns e) (oe_message_id e) \<and> by_code reg (oe_id e) \<noteq> None)"

text \<open>The code table and the wire table name the same entry for a packet opcode.\<close>

definition routes_agree :: "OpcodeRegistry \<Rightarrow> bool" where
  "routes_agree reg \<longleftrightarrow>
     (\<forall>c e. by_code reg c = Some e \<and> oe_ns e \<noteq> 0 \<and> oe_message_id e \<noteq> 0 \<longrightarrow>
        by_wire reg (wire_key (oe_ns e) (oe_message_id e)) = Some e)"

lemma by_wire_ids:
  "registry_inv reg \<Longrightarrow> by_wire reg (wire_key ns m) = Some e \<Longrightarrow> oe_ns e = ns \<and> oe_message_id e = m"
  by (fastforce simp: registry_inv_def)

lemma registry_inv_wire [inv_intros]: "registry_inv reg \<Longrightarrow> registry_inv (register_wire e reg)"
  by (auto simp: registry_inv_def register_wire_def Let_def entry_of_wire_def)

lemma builtin_entry_id [simp]: "oe_id (builtin_entry c n cap idem) = c"
  by (simp add: builtin_entry_def split: option.splits)

lemma registry_inv_builtin [inv_intros]: "registry_inv reg \<Longrightarrow> registry_inv (register_builtin c n cap idem reg)"
  by (auto simp: registry_inv_def register_builtin_def Let_def)

lemma registry_inv_plugin [inv_intros]: "registry_inv reg \<Longrightarrow> registry_inv (fst (register_plugin_opcode e reg))"
  by (auto simp: registry_inv_def register_plugin_opcode_def Let_def)

lemma registry_inv_next [inv_intros]: "registry_inv reg \<Longrightarrow> registry_inv (snd (next_message_id grp reg))"
  by (auto simp: registry_inv_def next_message_id_def split: option.splits)

lemma registry_inv_fold: "registry_inv reg \<Longrightarrow> registry_inv (fold register_wire es reg)"
  by (induction es arbitrary: reg) (auto intro: inv_intros)

lemma registry_inv_new: "registry_inv opcode_registry_new"
  unfolding opcode_registry_new_def
  by (intro inv_intros registry_inv_fold) (simp add: registry_inv_def empty_registry_def)

lemma routes_agreeD:
  "routes_agree reg \<Longrightarrow> by_code reg c = Some e \<Longrightarrow> oe_ns e \<noteq> 0 \<Longrightarrow> oe_message_id e \<noteq> 0 \<Longrightarrow>
     by_wire reg (wire_key (oe_ns e) (oe_message_id e)) = Some e"
  by (simp add: routes_agree_def)

text \<open>Agreement of the routes along the constructor.\<close>

lemma routes_agree_wire:
  assumes "routes_agree reg" and "by_code reg (we_code e) = None"
    and "by_wire reg (wire_key (we_ns e) (we_message_id e)) = None"
  shows "routes_agree (register_wire e reg)"
  using assms by (fastforce simp: routes_agree_def register_wire_def Let_def entry_of_wire_def)

lemma register_wire_lookup:
  "by_code (register_wire e reg) c = (if c = we_code e then Some (entry_of_wire e) else by_code reg c)"
  "k \<noteq> wire_key (we_ns e) (we_message_id e) \<Longrightarrow> by_wire (register_wire e reg) k = by_wire reg k"
  by (simp_all add: register_wire_def Let_def)

lemma routes_agree_fold:
  assumes "routes_agree reg" and "distinct (map we_code es)"
    and "distinct (map (\<lambda>e. (we_ns e, we_message_id e)) es)"
    and "\<And>e. e \<in> set es \<Longrightarrow> by_code reg (we_code e) = None \<and> by_wire reg (wire_key (we_ns e) (we_message_id e)) = None"
  shows "routes_agree (fold register_wire es reg)"
  using assms
proof (induction es arbitrary: reg)
  case (Cons e es)
  have "routes_agree (register_wire e reg)"
    using Cons.prems by (intro routes_agree_wire) auto
  moreover have "by_code (register_wire e reg) (we_code x) = None \<and>
      by_wire (register_wire e reg) (wire_key (we_ns x) (we_message_id x)) = None" if "x \<in> set es" for x
  proof -
    have "we_code x \<in> set (map we_code es)"
      "(we_ns x, we_message_id x) \<in> set (map (\<lambda>e. (we_ns e, we_message_id e)) es)"
      using that by auto
    then have "we_code x \<noteq> we_code e" "(we_ns x, we_message_id x) \<noteq> (we_ns e, we_message_id e)"
      using Cons.prems(2,3) by (auto simp del: set_map prod.inject)
    then have "we_code x \<noteq> we_code e"
      "wire_key (we_ns x) (we_message_id x) \<noteq> wire_key (we_ns e) (we_message_id e)"
      by simp_all
    then show ?thesis
      using Cons.prems(4) [of x] that register_wire_lookup(2) [of "wire_key (we_ns x) (we_message_id x)" e reg]
      by (simp add: register_wire_lookup(1))
  qed
  moreover have "distinct (map we_code es)" "distinct (map (\<lambda>e. (we_ns e, we_message_id e)) es)"
    using Cons.prems(2,3) by simp_all
  ultimately show ?case
    using Cons.IH [of "register_wire e reg"] by (simp only: fold_simps)
qed simp

lemma wire_table_distinct:
  "distinct (map we_code kWireTable)"
  "distinct (map (\<lambda>e. (we_ns e, we_message_id e)) kWireTable)"
  "distinct (map we_name kWireTable)"
  by (simp_all add: kWireTable_def namespaces)

lemma routes_agree_builtin:
  assumes "routes_agree reg" and "c \<notin> set (map we_code kWireTable)"
  shows "routes_agree (register_builtin c n cap idem reg)"
proof -
  have "find (\<lambda>we. we_code we = c) kWireTable = None"
    using assms(2) by (auto simp: find_None_iff)
  then have "oe_ns (builtin_entry c n cap idem) = 0" "oe_message_id (builtin_entry c n cap idem) = 0"
    by (simp_all add: builtin_entry_def)
  with assms(1) show ?thesis by (auto simp: routes_agree_def register_builtin_def Let_def)
qed

lemma routes_agree_new: "routes_agree opcode_registry_new"
proof -
  have "routes_agree (fold register_wire kWireTable empty_registry)"
    by (intro routes_agree_fold wire_table_distinct) (simp_all add: routes_agree_def empty_registry_def)
  then show ?thesis
    unfolding opcode_registry_new_def
    by (intro routes_agree_builtin) (simp_all add: kWireTable_def)
qed

lemma routes_agree_plugin:
  assumes "routes_agree reg" and "register_plugin_opcode e reg = (reg', Ok ())"
  shows "routes_agree reg'"
  using assms by (fastforce simp: routes_agree_def register_plugin_opcode_def Let_def split: if_splits)

lemma routes_agree_next: "routes_agree reg \<Longrightarrow> routes_agree (snd (next_message_id grp reg))"
  by (auto simp: routes_agree_def next_message_id_def split: option.splits)

text \<open>Reading the constructed registry key by key.\<close>

lemma register_lookup:
  "by_name (register_wire e reg) n = (if n = we_name e then Some (we_code e) else by_name reg n)"
  "by_wire (register_wire e reg) k =
     (if we_ns e \<noteq> 0 \<and> we_message_id e \<noteq> 0 \<and> k = wire_key (we_ns e) (we_message_id e)
      then Some (entry_of_wire e) else by_wire reg k)"
  "by_code (register_builtin c n cap idem reg) c' =
     (if c' = c then Some (builtin_entry c n cap idem) else by_code reg c')"
  "by_name (register_builtin c n cap idem reg) n' = (if n' = n then Some c else by_name reg n')"
  by (simp_all add: register_wire_def register_builtin_def Let_def)

lemmas registry_lookup = register_wire_lookup(1) register_lookup

abbreviation channel_open_wire :: WireOpcodeEntry where
  "channel_open_wire \<equiv> wire_row CHANNEL_OPEN kNamespaceData 0x0001 ''channel_open'' ''channel'' 0x01 False"

lemma channel_open_lookup:
  "by_code opcode_registry_new (opcode CHANNEL_OPEN) = Some (entry_of_wire channel_open_wire)"
  "by_wire opcode_registry_new (wire_key 4 1) = Some (entry_of_wire channel_open_wire)"
proof -
  show "by_code opcode_registry_new (opcode CHANNEL_OPEN) = Some (entry_of_wire channel_open_wire)"
    by (simp add: opcode_registry_new_def kWireTable_def registry_lookup)
  then show "by_wire opcode_registry_new (wire_key 4 1) = Some (entry_of_wire channel_open_wire)"
    using routes_agreeD [OF routes_agree_new] by (fastforce simp: entry_of_wire_def namespaces)
qed

text \<open>A wire id is complete or absent: no entry has a namespace without a message id.\<close>

definition wire_ids_ok :: "OpcodeRegistry \<Rightarrow> bool" where
  "wire_ids_ok reg \<longleftrightarrow> (\<forall>k e. by_wire reg k = Some e \<longrightarrow> (oe_ns e = 0 \<longleftrightarrow> oe_message_id e = 0))"

lemma wire_table_ids: "\<forall>we \<in> set kWireTable. we_ns we \<noteq> 0 \<and> we_message_id we \<noteq> 0"
  by (simp add: kWireTable_def namespaces)

lemma wire_ids_ok_wire: "wire_ids_ok reg \<Longrightarrow> wire_ids_ok (register_wire e reg)"
  by (auto simp: wire_ids_ok_def register_wire_def Let_def entry_of_wire_def)

lemma wire_ids_ok_fold: "wire_ids_ok reg \<Longrightarrow> wire_ids_ok (fold register_wire es reg)"
  by (induction es arbitrary: reg) (auto intro: wire_ids_ok_wire)

lemma builtin_entry_ids: "oe_ns (builtin_entry c n cap idem) = 0 \<longleftrightarrow> oe_message_id (builtin_entry c n cap idem) = 0"
proof (cases "find (\<lambda>we. we_code we = c) kWireTable")
  case (Some we)
  then have "we \<in> set kWireTable" by (auto simp: find_Some_iff in_set_conv_nth)
  with Some wire_table_ids show ?thesis by (simp add: builtin_entry_def)
qed (simp add: builtin_entry_def)

lemma wire_ids_ok_builtin: "wire_ids_ok reg \<Longrightarrow> wire_ids_ok (register_builtin c n cap idem reg)"
  using builtin_entry_ids by (auto simp: wire_ids_ok_def register_builtin_def Let_def)

lemma wire_ids_ok_new: "wire_ids_ok opcode_registry_new"
  unfolding opcode_registry_new_def
  by (intro wire_ids_ok_builtin wire_ids_ok_fold) (simp add: wire_ids_ok_def empty_registry_def)

lemma wire_ids_ok_plugin: "wire_ids_ok reg \<Longrightarrow> wire_ids_ok (fst (register_plugin_opcode e reg))"
  by (auto simp: wire_ids_ok_def register_plugin_opcode_def Let_def)

lemma wire_ids_ok_next: "wire_ids_ok reg \<Longrightarrow> wire_ids_ok (snd (next_message_id grp reg))"
  by (auto simp: wire_ids_ok_def next_message_id_def split: option.splits)

section \<open>What the registry guarantees\<close>

text \<open>A registry in use: constructed, then extended by plugins and asked for message
  ids.  Only successful plugin registrations are followed here.\<close>

inductive registry_reach :: "OpcodeRegistry \<Rightarrow> bool" where
  new: "registry_reach opcode_registry_new"
| plugin: "registry_reach reg \<Longrightarrow> register_plugin_opcode e reg = (reg', Ok ()) \<Longrightarrow> registry_reach reg'"
| next_id: "registry_reach reg \<Longrightarrow> registry_reach (snd (next_message_id grp reg))"

lemma registry_reach_inv: "registry_reach reg \<Longrightarrow> registry_inv reg \<and> routes_agree reg \<and> wire_ids_ok reg"
proof (induction rule: registry_reach.induct)
  case (plugin reg e reg')
  then show ?case
    using registry_inv_plugin [of reg e] wire_ids_ok_plugin [of reg e] routes_agree_plugin by auto
qed (auto intro: registry_inv_new routes_agree_new wire_ids_ok_new registry_inv_next
      routes_agree_next wire_ids_ok_next)

text \<open>A wire id the packet layer accepts belongs to a packet opcode.\<close>

lemma validated_wire_id:
  assumes "registry_reach reg" and "validate_packet_opcode ns m reg = Ok ()"
  shows "m \<noteq> 0 \<and> ns \<in> {1, 2, 3, 4} \<and> (\<exists>op. from_packet_route reg ns m = Some op)"
proof -
  obtain e where e: "by_wire reg (wire_key ns m) = Some e" and ns: "ns \<in> {1, 2, 3, 4}"
    using assms(2) by (auto simp: validate_packet_opcode_def resolve_by_wire_def rbind_eq_Ok namespaces
        split: option.splits if_splits)
  then have "oe_ns e = ns" "oe_message_id e = m" "oe_ns e = 0 \<longleftrightarrow> oe_message_id e = 0"
    using registry_reach_inv [OF assms(1)] by_wire_ids by (auto simp: wire_ids_ok_def)
  with e ns show ?thesis by (auto simp: from_packet_route_def resolve_by_wire_def)
qed

text \<open>
  Routes are consistent: in a registry built by the constructor and extended by
  successful plugin registrations, an opcode with a packet route is the opcode
  that route leads back to, and resolving a name never runs into a missing code.
\<close>

lemma packet_route_roundtrip:
  assumes "registry_reach reg"
  shows "(to_packet_route reg op = Some (ns, m) \<longrightarrow> from_packet_route reg ns m = Some op) \<and>
         (is_packet_capable reg op \<longleftrightarrow> to_packet_route reg op \<noteq> None) \<and>
         resolve_by_name name reg \<noteq> None"
proof -
  have inv: "registry_inv reg" "routes_agree reg" using registry_reach_inv [OF assms] by blast+
  have "from_packet_route reg ns m = Some op" if "to_packet_route reg op = Some (ns, m)"
  proof -
    obtain e where e: "by_code reg op = Some e" "oe_ns e = ns" "oe_message_id e = m" "ns \<noteq> 0" "m \<noteq> 0"
      using \<open>to_packet_route reg op = Some (ns, m)\<close>
      by (auto simp: to_packet_route_def resolve_def split: option.splits if_splits)
    then have "by_wire reg (wire_key ns m) = Some e" "oe_id e = op"
      using inv by (auto simp: routes_agree_def registry_inv_def)
    then show ?thesis by (simp add: from_packet_route_def resolve_by_wire_def)
  qed
  moreover have "is_packet_capable reg op \<longleftrightarrow> to_packet_route reg op \<noteq> None"
    by (auto simp: is_packet_capable_def to_packet_route_def split: result.splits)
  moreover have "resolve_by_name name reg \<noteq> None"
    using inv(1) by (cases "by_name reg name") (auto simp: resolve_by_name_def registry_inv_def split: option.splits)
  ultimately show ?thesis by blast
qed

lemma packet_route_roundtrip_example:
  "registry_reach opcode_registry_new \<and>
   to_packet_route opcode_registry_new (opcode CHANNEL_OPEN) = Some (4, 1) \<and>
   from_packet_route opcode_registry_new 4 1 = Some (opcode CHANNEL_OPEN)"
proof -
  have "to_packet_route opcode_registry_new (opcode CHANNEL_OPEN) = Some (4, 1)"
    using channel_open_lookup(1) by (simp add: to_packet_route_def resolve_def entry_of_wire_def namespaces)
  then show ?thesis
    using packet_route_roundtrip [where reg = opcode_registry_new] registry_reach.new by blast
qed

text \<open>
  A plugin registration that is refused because its wire id is taken is not
  rolled back: the call returns the error, but the opcode resolves from then on,
  has a packet route, and packets sent on that route reach the opcode that owned
  the wire id before.
\<close>

lemma refused_plugin_stays_registered:
  assumes "0xFB \<le> oe_id e" "oe_id e \<le> 0xFE"
    and "by_code reg (oe_id e) = None" "by_name reg (oe_name e) = None"
    and "oe_ns e \<noteq> 0" "oe_message_id e \<noteq> 0"
    and "by_wire reg (wire_key (oe_ns e) (oe_message_id e)) = Some other"
  shows "\<exists>reg'. register_plugin_opcode e reg = (reg', Err err_opcode) \<and>
           resolve (oe_id e) reg' = Ok e \<and>
           resolve_by_name (oe_name e) reg' = Some (Ok e) \<and>
           to_packet_route reg' (oe_id e) = Some (oe_ns e, oe_message_id e) \<and>
           from_packet_route reg' (oe_ns e) (oe_message_id e) = Some (oe_id other)"
  using assms
  by (auto simp: register_plugin_opcode_def resolve_def resolve_by_name_def to_packet_route_def
      from_packet_route_def resolve_by_wire_def not_less)

definition plugin_sample :: OpcodeEntry where
  "plugin_sample = \<lparr>oe_id = 0xFB, oe_name = ''plugin'', oe_semver = [], oe_capability_mask = 1,
     oe_idempotent = False, oe_contract_id = [], oe_plugin_id = [], oe_supported_arches = [],
     oe_ns = kNamespaceData, oe_message_id = 0x0001, oe_functional_group = []\<rparr>"

lemma plugin_sample_fresh:
  "by_code opcode_registry_new 0xFB = None"
  "by_name opcode_registry_new ''plugin'' = None"
  by (simp_all add: opcode_registry_new_def kWireTable_def registry_lookup empty_registry_def)

lemma refused_plugin_stays_registered_example:
  "\<exists>reg'. register_plugin_opcode plugin_sample opcode_registry_new = (reg', Err err_opcode) \<and>
     resolve 0xFB reg' = Ok plugin_sample \<and>
     to_packet_route reg' 0xFB = Some (4, 1) \<and>
     from_packet_route reg' 4 1 = Some (opcode CHANNEL_OPEN)"
  using refused_plugin_stays_registered [of plugin_sample opcode_registry_new "entry_of_wire channel_open_wire"]
    plugin_sample_fresh channel_open_lookup
  by (auto simp: plugin_sample_def namespaces entry_of_wire_def)

end
