(* ===== verification/Packet.thy ===== *)
theory Packet
  imports Wire Opcode_Registry
begin

text \<open>
  The wire packet (protocol/packet/packet.h, packet.cpp) and its data-plane
  protection (packet_crypto.cpp, core/crypto/aead/xchacha20_provider.cpp).  A packet is a
  39-byte big-endian header, a payload and an authentication field whose length
  follows from the namespace and the suite.

  The opcode registry is an argument of the parser and the printer (the code
  asks the singleton).  crypto_aead_lock, crypto_aead_unlock (Monocypher) and
  BLAKE3 are arguments of the sealing functions; what the code relies on is the
  predicate \<open>aead_correct\<close>.  A std::array of sixteen bytes is a byte list of
  length sixteen, stated by \<open>header_wf\<close>.
\<close>

section \<open>Packets\<close>

definition kPacketProtocolVersion :: byte where "kPacketProtocolVersion = 0x03"
definition kPacketHeaderWireSize :: nat where "kPacketHeaderWireSize = 1 + 1 + 1 + 2 + 16 + 8 + 8 + 2"
definition kAeadTagLen :: nat where "kAeadTagLen = 16"
definition kEd25519SigLen :: nat where "kEd25519SigLen = 64"
definition kMlDsa65SigLen :: nat where "kMlDsa65SigLen = 3309"

record PacketHeader =
  protocol_version :: byte
  suite_id :: byte
  ph_ns :: byte
  ph_message_id :: u16
  session_id :: bytes
  timestamp :: i64
  nonce :: u64
  payload_length :: u16

record Packet =
  header :: PacketHeader
  payload :: bytes
  auth :: bytes
  opcode_id :: u32
  intent_id :: bytes

definition header_wf :: "PacketHeader \<Rightarrow> bool" where
  "header_wf h \<longleftrightarrow> length (session_id h) = 16"

definition get_u16 :: "bytes \<Rightarrow> nat \<Rightarrow> u16" where
  "get_u16 data off = push_bit 8 (ucast (data ! off)) OR ucast (data ! (off + 1))"

definition get_u64 :: "bytes \<Rightarrow> nat \<Rightarrow> u64" where
  "get_u64 data off = foldl (\<lambda>v i. push_bit 8 v OR ucast (data ! (off + i))) 0 [0..<8]"

definition expected_auth_length :: "byte \<Rightarrow> byte \<Rightarrow> nat" where
  "expected_auth_length ns suite =
     (if ns = kNamespaceDiscovery \<or> ns = kNamespaceExecution \<or> ns = kNamespaceData then kAeadTagLen
      else if ns = kNamespaceControl then
        (if suite = 1 \<or> suite = 2 then kEd25519SigLen
         else if suite = 3 then kMlDsa65SigLen
         else 0)
      else 0)"

definition serialize_packet_header :: "PacketHeader \<Rightarrow> bytes" where
  "serialize_packet_header h =
     [protocol_version h, suite_id h, ph_ns h,
      ucast (drop_bit 8 (ph_message_id h)), ucast (ph_message_id h AND 0xFF)]
     @ session_id h
     @ map (\<lambda>i. ucast (drop_bit ((7 - i) * 8) (timestamp h))) [0..<8]
     @ map (\<lambda>i. ucast (drop_bit ((7 - i) * 8) (nonce h))) [0..<8]
     @ [ucast (drop_bit 8 (payload_length h)), ucast (payload_length h AND 0xFF)]"

abbreviation err_packet :: "u16 \<Rightarrow> error_code" where
  "err_packet c \<equiv> smo_err CatProtocol c SevError NoRetry RecNone"

definition zero_session :: "bytes \<Rightarrow> bool" where
  "zero_session sid = foldl (\<lambda>z b. z \<and> b = 0) True sid"

definition parse_header :: "bytes \<Rightarrow> PacketHeader" where
  "parse_header wire =
     \<lparr>protocol_version = wire ! 0, suite_id = wire ! 1, ph_ns = wire ! 2,
      ph_message_id = get_u16 wire 3, session_id = take 16 (drop 5 wire),
      timestamp = get_u64 wire 21, nonce = get_u64 wire 29, payload_length = get_u16 wire 37\<rparr>"

definition packet_from_buffer :: "OpcodeRegistry \<Rightarrow> bytes \<Rightarrow> Packet result" where
  "packet_from_buffer reg wire =
     (if length wire < kPacketHeaderWireSize then Err (err_packet 600)
      else if wire ! 0 \<noteq> kPacketProtocolVersion then Err (err_packet 601)
      else
        let h = parse_header wire in
        if nonce h = 0 then Err (err_packet 602)
        else if zero_session (session_id h) then Err (err_packet 603)
        else
          let auth_len = expected_auth_length (ph_ns h) (suite_id h) in
          if auth_len = 0 then Err (err_packet 604)
          else rbind (validate_packet_opcode (ph_ns h) (ph_message_id h) reg) (\<lambda>_.
            let body_end = kPacketHeaderWireSize + unat (payload_length h) in
            if body_end > length wire then Err (err_packet 605)
            else if body_end + auth_len \<noteq> length wire then Err (err_packet 606)
            else
              Ok \<lparr>header = h,
                  payload = take (unat (payload_length h)) (drop kPacketHeaderWireSize wire),
                  auth = drop body_end wire,
                  opcode_id = (case from_packet_route reg (ph_ns h) (ph_message_id h) of
                                 Some op \<Rightarrow> ucast op | None \<Rightarrow> 0),
                  intent_id = replicate 16 0\<rparr>))"

text \<open>packet_to_buffer clears its output first and fills it only when it
  succeeds.\<close>

definition packet_to_buffer :: "OpcodeRegistry \<Rightarrow> Packet \<Rightarrow> bytes \<times> unit result" where
  "packet_to_buffer reg pkt =
     (if protocol_version (header pkt) \<noteq> kPacketProtocolVersion then ([], Err (err_packet 601))
      else if length (payload pkt) > 65535 then ([], Err (err_packet 602))
      else
        case (if ph_message_id (header pkt) = 0 then to_packet_route_id reg (opcode_id pkt)
              else Some (ph_ns (header pkt), ph_message_id (header pkt))) of
          None \<Rightarrow> ([], Err (err_packet 603))
        | Some (ns, message_id) \<Rightarrow>
            (case validate_packet_opcode ns message_id reg of
               Err e \<Rightarrow> ([], Err e)
             | Ok _ \<Rightarrow>
                 let wire_header = (header pkt)
                       \<lparr>protocol_version := kPacketProtocolVersion, ph_ns := ns, ph_message_id := message_id,
                        payload_length := of_nat (length (payload pkt))\<rparr>
                 in (serialize_packet_header wire_header @ payload pkt @ auth pkt, Ok ())))"

section \<open>Data-plane protection\<close>

definition kAeadKeyLen :: nat where "kAeadKeyLen = 32"
definition kAeadNonceLen :: nat where "kAeadNonceLen = 24"

type_synonym aead_lock = "bytes \<Rightarrow> bytes \<Rightarrow> bytes \<Rightarrow> bytes \<Rightarrow> bytes \<times> bytes"
type_synonym aead_unlock = "bytes \<Rightarrow> bytes \<Rightarrow> bytes \<Rightarrow> bytes \<Rightarrow> bytes \<Rightarrow> bytes option"

text \<open>crypto_aead_lock key nonce aad plaintext gives the cipher text and the mac;
  crypto_aead_unlock mac key nonce aad ciphertext gives the plain text, or
  reports a mismatch.  None is an exception.\<close>

definition xchacha20_encrypt :: "aead_lock \<Rightarrow> bytes \<Rightarrow> bytes \<Rightarrow> bytes \<Rightarrow> bytes \<Rightarrow> bytes option" where
  "xchacha20_encrypt lock plaintext aad key nnc =
     (if length key \<noteq> kAeadKeyLen then None
      else if length nnc \<noteq> kAeadNonceLen then None
      else case lock key nnc aad plaintext of (ct, mac) \<Rightarrow> Some (ct @ mac))"

definition xchacha20_decrypt :: "aead_unlock \<Rightarrow> bytes \<Rightarrow> bytes \<Rightarrow> bytes \<Rightarrow> bytes \<Rightarrow> bytes option" where
  "xchacha20_decrypt unlock ciphertext aad key nnc =
     (if length key \<noteq> kAeadKeyLen then None
      else if length nnc \<noteq> kAeadNonceLen then None
      else if length ciphertext < kAeadTagLen then None
      else let pt_len = length ciphertext - kAeadTagLen
           in unlock (drop pt_len ciphertext) key nnc aad (take pt_len ciphertext))"

definition is_zero_session :: "bytes \<Rightarrow> bool" where
  "is_zero_session sid = (\<not> list_ex (\<lambda>b. b \<noteq> 0) sid)"

definition derive_aead_nonce :: "(bytes \<Rightarrow> bytes) \<Rightarrow> bytes \<Rightarrow> u64 \<Rightarrow> bytes" where
  "derive_aead_nonce blake3 sid wire_nonce =
     take kAeadNonceLen
       (blake3 (sid @ map (\<lambda>i. ucast (drop_bit ((7 - i) * 8) wire_nonce)) [0..<8]))"

definition packet_seal_data ::
  "(bytes \<Rightarrow> bytes) \<Rightarrow> aead_lock \<Rightarrow> Packet \<Rightarrow> bytes \<Rightarrow> u64 \<Rightarrow> Packet \<times> unit result" where
  "packet_seal_data blake3 lock pkt key seq =
     (if length key \<noteq> kAeadKeyLen then (pkt, Err (err_packet 610))
      else if seq = 0 then (pkt, Err (err_packet 611))
      else if is_zero_session (session_id (header pkt)) then (pkt, Err (err_packet 612))
      else if length (payload pkt) > 65535 then (pkt, Err (err_packet 613))
      else
        let h = (header pkt)\<lparr>protocol_version := kPacketProtocolVersion, nonce := seq,
                              payload_length := of_nat (length (payload pkt))\<rparr>;
            pkt1 = pkt\<lparr>header := h\<rparr>;
            nnc = derive_aead_nonce blake3 (session_id h) seq;
            aad = serialize_packet_header h
        in case xchacha20_encrypt lock (payload pkt) aad key nnc of
             None \<Rightarrow> (pkt1, Err (err_packet 614))
           | Some combined \<Rightarrow>
               if length combined \<noteq> length (payload pkt) + kAeadTagLen then (pkt1, Err (err_packet 614))
               else let ct_len = length combined - kAeadTagLen
                    in (pkt1\<lparr>auth := drop ct_len combined, payload := take ct_len combined\<rparr>, Ok ()))"

definition packet_open_data ::
  "(bytes \<Rightarrow> bytes) \<Rightarrow> aead_unlock \<Rightarrow> Packet \<Rightarrow> bytes \<Rightarrow> Packet \<times> unit result" where
  "packet_open_data blake3 unlock pkt key =
     (if length key \<noteq> kAeadKeyLen then (pkt, Err (err_packet 610))
      else if nonce (header pkt) = 0 then (pkt, Err (err_packet 611))
      else if length (auth pkt) \<noteq> kAeadTagLen then (pkt, Err (err_packet 615))
      else if unat (payload_length (header pkt)) \<noteq> length (payload pkt) then (pkt, Err (err_packet 616))
      else
        let nnc = derive_aead_nonce blake3 (session_id (header pkt)) (nonce (header pkt));
            aad = serialize_packet_header (header pkt)
        in case xchacha20_decrypt unlock (payload pkt @ auth pkt) aad key nnc of
             None \<Rightarrow> (pkt, Err (err_packet 617))
           | Some plaintext \<Rightarrow> (pkt\<lparr>payload := plaintext, auth := []\<rparr>, Ok ()))"

section \<open>Big-endian fields by offset\<close>

lemma get_u64_read: "off + 8 \<le> length data \<Longrightarrow> get_u64 data off = fst (read_be 8 (drop off data))"
  by (simp add: get_u64_def read_be_def foldl_read_be)

lemma get_u16_read:
  assumes "off + 2 \<le> length data"
  shows "get_u16 data off = fst (read_be 2 (drop off data))"
proof -
  have "drop off data = data ! off # data ! Suc off # drop (Suc (Suc off)) data"
    using assms by (simp add: Cons_nth_drop_Suc)
  then show ?thesis by (simp add: get_u16_def read_be_def numeral_2_eq_2)
qed

section \<open>The header codec\<close>

lemma serialize_header:
  "serialize_packet_header h =
     [protocol_version h, suite_id h, ph_ns h] @ write_be 2 (ph_message_id h) @ session_id h
     @ write_be 8 (timestamp h) @ write_be 8 (nonce h) @ write_be 2 (payload_length h)"
  by (simp add: serialize_packet_header_def shift_loop_8 flip: two_bytes)

lemma length_serialize_header [simp]:
  "header_wf h \<Longrightarrow> length (serialize_packet_header h) = kPacketHeaderWireSize"
  by (simp add: serialize_header header_wf_def kPacketHeaderWireSize_def)

lemma parse_serialize_header:
  assumes "header_wf h"
  shows "parse_header (serialize_packet_header h @ r) = h"
proof -
  have l: "length (session_id h) = 16" using assms by (simp add: header_wf_def)
  let ?w = "serialize_packet_header h @ r"
  have "length ?w \<ge> 39" using assms by (simp add: kPacketHeaderWireSize_def)
  then show ?thesis
    using l by (simp add: parse_header_def get_u16_read get_u64_read serialize_header wire_simps)
qed

lemma take_split: "take (m + n) xs = take m xs @ take n (drop m xs)"
  by (rule take_add)

lemma serialize_parse_header:
  assumes "kPacketHeaderWireSize \<le> length w"
  shows "serialize_packet_header (parse_header w) = take kPacketHeaderWireSize w"
proof -
  have l: "39 \<le> length w" using assms by (simp add: kPacketHeaderWireSize_def)
  have three: "[w ! 0, w ! 1, w ! 2] = take 3 w"
    using l by (cases w; cases "tl w"; cases "tl (tl w)") (auto simp: numeral_eq_Suc)
  have "take 39 w = take 3 w @ take 2 (drop 3 w) @ take 16 (drop 5 w) @ take 8 (drop 21 w)
      @ take 8 (drop 29 w) @ take 2 (drop 37 w)"
    using take_add [of 3 36 w] take_add [of 2 34 "drop 3 w"] take_add [of 16 18 "drop 5 w"]
      take_add [of 8 10 "drop 21 w"] take_add [of 8 2 "drop 29 w"] by simp
  with l three show ?thesis
    by (simp add: serialize_header parse_header_def get_u16_read get_u64_read write_be_read_be
        kPacketHeaderWireSize_def)
qed

interpretation header_codec: stream_codec serialize_packet_header
  "\<lambda>bs. Ok (parse_header bs, drop kPacketHeaderWireSize bs)" header_wf
  by unfold_locales (simp add: parse_serialize_header)

section \<open>Printing and parsing packets\<close>

text \<open>What a packet must satisfy to be sent and accepted as it is.\<close>

definition sendable :: "OpcodeRegistry \<Rightarrow> Packet \<Rightarrow> bool" where
  "sendable reg pkt \<longleftrightarrow>
     header_wf (header pkt) \<and> protocol_version (header pkt) = kPacketProtocolVersion \<and>
     nonce (header pkt) \<noteq> 0 \<and> \<not> zero_session (session_id (header pkt)) \<and>
     ph_message_id (header pkt) \<noteq> 0 \<and>
     validate_packet_opcode (ph_ns (header pkt)) (ph_message_id (header pkt)) reg = Ok () \<and>
     expected_auth_length (ph_ns (header pkt)) (suite_id (header pkt)) = length (auth pkt) \<and> auth pkt \<noteq> [] \<and>
     unat (payload_length (header pkt)) = length (payload pkt)"

text \<open>What the parser makes of a sent packet: the fields that are not on the wire
  are filled in.\<close>

definition received :: "OpcodeRegistry \<Rightarrow> Packet \<Rightarrow> Packet" where
  "received reg pkt =
     pkt\<lparr>opcode_id := (case from_packet_route reg (ph_ns (header pkt)) (ph_message_id (header pkt)) of
                         Some op \<Rightarrow> ucast op | None \<Rightarrow> 0),
         intent_id := replicate 16 0\<rparr>"

lemma zero_session_iff: "zero_session sid \<longleftrightarrow> (\<forall>b \<in> set sid. b = 0)"
proof -
  have "foldl (\<lambda>z b. z \<and> b = 0) z sid \<longleftrightarrow> z \<and> (\<forall>b \<in> set sid. b = 0)" for z
    by (induction sid arbitrary: z) auto
  then show ?thesis by (simp add: zero_session_def)
qed

lemma is_zero_session_eq: "is_zero_session sid = zero_session sid"
  by (auto simp: is_zero_session_def zero_session_iff list_ex_iff)

lemma payload_fits:
  assumes "unat (v :: u16) = length xs"
  shows "length xs \<le> 65535" "of_nat (length xs) = v"
proof -
  show "length xs \<le> 65535" using unsigned_less [of v, where 'a = nat] assms by simp
  show "of_nat (length xs) = v" by (simp flip: assms)
qed

lemma header_same: "protocol_version h = v \<Longrightarrow> h\<lparr>protocol_version := v\<rparr> = h"
  by (cases h) simp

lemma take_drop_join: "take n (drop k xs) @ drop (k + n) xs = drop k xs"
  by (metis add.commute append_take_drop_id drop_drop)

lemma packet_to_buffer_eq:
  assumes "protocol_version (header pkt) = kPacketProtocolVersion"
    and "unat (payload_length (header pkt)) = length (payload pkt)"
    and "ph_message_id (header pkt) \<noteq> 0"
    and "validate_packet_opcode (ph_ns (header pkt)) (ph_message_id (header pkt)) reg = Ok ()"
  shows "packet_to_buffer reg pkt = (serialize_packet_header (header pkt) @ payload pkt @ auth pkt, Ok ())"
  using assms payload_fits [OF assms(2)] by (simp add: packet_to_buffer_def header_same)

lemma packet_from_buffer_eq:
  assumes "sendable reg pkt"
  shows "packet_from_buffer reg (serialize_packet_header (header pkt) @ payload pkt @ auth pkt) = Ok (received reg pkt)"
proof -
  let ?h = "header pkt" and ?w = "serialize_packet_header (header pkt) @ payload pkt @ auth pkt"
  have wf: "header_wf ?h" using assms by (simp add: sendable_def)
  then have h: "parse_header ?w = ?h" by (simp add: parse_serialize_header)
  have len: "length (serialize_packet_header ?h) = kPacketHeaderWireSize" using wf by simp
  have v: "?w ! 0 = kPacketProtocolVersion" using assms by (simp add: sendable_def serialize_header)
  from len have d: "drop kPacketHeaderWireSize ?w = payload pkt @ auth pkt"
    "drop (kPacketHeaderWireSize + length (payload pkt)) ?w = auth pkt" by simp_all
  show ?thesis
    unfolding packet_from_buffer_def h Let_def
    using assms len v d by (simp add: sendable_def received_def)
qed

text \<open>
  Packets survive the wire: a packet that satisfies the protocol's rules is
  printed without error, and parsing the printed bytes gives the packet back with
  the opcode its route belongs to.
\<close>

lemma packet_roundtrip:
  assumes "sendable reg pkt"
  shows "\<exists>w. packet_to_buffer reg pkt = (w, Ok ()) \<and> packet_from_buffer reg w = Ok (received reg pkt)"
  using assms packet_from_buffer_eq [OF assms] packet_to_buffer_eq [of pkt reg]
  by (auto simp: sendable_def)

lemma packet_from_buffer_Ok:
  assumes "packet_from_buffer reg w = Ok pkt"
  shows "header pkt = parse_header w \<and> kPacketHeaderWireSize \<le> length w \<and>
    protocol_version (header pkt) = kPacketProtocolVersion \<and>
    nonce (header pkt) \<noteq> 0 \<and> \<not> zero_session (session_id (header pkt)) \<and>
    validate_packet_opcode (ph_ns (header pkt)) (ph_message_id (header pkt)) reg = Ok () \<and>
    expected_auth_length (ph_ns (header pkt)) (suite_id (header pkt)) = length (auth pkt) \<and> auth pkt \<noteq> [] \<and>
    unat (payload_length (header pkt)) = length (payload pkt) \<and>
    drop kPacketHeaderWireSize w = payload pkt @ auth pkt \<and> received reg pkt = pkt"
  using assms
  by (auto simp: packet_from_buffer_def Let_def rbind_eq_Ok received_def parse_header_def take_drop_join
      split: if_splits)

lemma accepted_is_sendable:
  assumes "registry_reach reg" and "packet_from_buffer reg w = Ok pkt"
  shows "sendable reg pkt \<and> packet_to_buffer reg pkt = (w, Ok ())"
proof -
  note ok = packet_from_buffer_Ok [OF assms(2)]
  have m: "ph_message_id (header pkt) \<noteq> 0" using validated_wire_id [OF assms(1)] ok by blast
  have "39 \<le> length w" using ok unfolding kPacketHeaderWireSize_def by simp
  moreover have "session_id (header pkt) = take 16 (drop 5 w)" using ok by (simp add: parse_header_def)
  ultimately have "header_wf (header pkt)" by (simp add: header_wf_def)
  moreover have "serialize_packet_header (header pkt) @ payload pkt @ auth pkt = w"
    using ok serialize_parse_header [of w] by (metis append_take_drop_id)
  ultimately show ?thesis using ok m packet_to_buffer_eq [of pkt reg] by (auto simp: sendable_def)
qed

text \<open>
  C13. The wire format is canonical and the parser is strict: bytes the parser
  accepts carry protocol version 3, a non-zero nonce and session, a registered
  packet opcode and an authentication field of the length the suite demands; and
  printing the parsed packet gives exactly the same bytes, so no two byte strings
  parse to the same packet.
\<close>

theorem packet_wire_canonical:
  assumes "registry_reach reg" and "packet_from_buffer reg w = Ok pkt"
  shows "sendable reg pkt \<and> packet_to_buffer reg pkt = (w, Ok ())"
  using assms by (rule accepted_is_sendable)

section \<open>Sealed packets\<close>

text \<open>What the code relies on of Monocypher's AEAD and of BLAKE3: unlocking what was
  locked under the same key, nonce and associated data gives the plain text, the
  cipher text is as long as the plain text, a mac has sixteen bytes and a digest
  thirty-two.\<close>

definition aead_correct :: "(bytes \<Rightarrow> bytes) \<Rightarrow> aead_lock \<Rightarrow> aead_unlock \<Rightarrow> bool" where
  "aead_correct blake3 lock unlock \<longleftrightarrow>
     (\<forall>m. length (blake3 m) = 32) \<and>
     (\<forall>key nnc aad pt. length key = 32 \<longrightarrow> length nnc = 24 \<longrightarrow>
        length (fst (lock key nnc aad pt)) = length pt \<and> length (snd (lock key nnc aad pt)) = 16 \<and>
        unlock (snd (lock key nnc aad pt)) key nnc aad (fst (lock key nnc aad pt)) = Some pt)"

lemma xchacha20_roundtrip:
  assumes "aead_correct blake3 lock unlock" "length key = 32"
  shows "\<exists>c. xchacha20_encrypt lock pt aad key (derive_aead_nonce blake3 sid n) = Some c \<and>
           length c = length pt + kAeadTagLen \<and>
           xchacha20_decrypt unlock c aad key (derive_aead_nonce blake3 sid n) = Some pt"
proof -
  let ?n = "derive_aead_nonce blake3 sid n"
  have l: "length ?n = 24" using assms(1) by (simp add: derive_aead_nonce_def aead_correct_def kAeadNonceLen_def)
  obtain ct mac where lm: "lock key ?n aad pt = (ct, mac)" by fastforce
  have "length ct = length pt \<and> length mac = 16 \<and> unlock mac key ?n aad ct = Some pt"
    using assms l lm unfolding aead_correct_def by (metis fst_conv snd_conv)
  with l lm assms(2) show ?thesis
    by (simp add: xchacha20_encrypt_def xchacha20_decrypt_def kAeadKeyLen_def kAeadNonceLen_def kAeadTagLen_def)
qed

text \<open>The packet a successful seal leaves behind.\<close>

lemma packet_seal_data_Ok:
  assumes "aead_correct blake3 lock unlock"
    and "length key = 32" "seq \<noteq> 0" "\<not> zero_session (session_id (header pkt))" "length (payload pkt) \<le> 65535"
  shows "\<exists>pkt'. packet_seal_data blake3 lock pkt key seq = (pkt', Ok ()) \<and>
      header pkt' = (header pkt)\<lparr>protocol_version := kPacketProtocolVersion, nonce := seq,
                                 payload_length := of_nat (length (payload pkt))\<rparr> \<and>
      opcode_id pkt' = opcode_id pkt \<and>
      length (payload pkt') = length (payload pkt) \<and> length (auth pkt') = kAeadTagLen \<and>
      xchacha20_decrypt unlock (payload pkt' @ auth pkt') (serialize_packet_header (header pkt')) key
        (derive_aead_nonce blake3 (session_id (header pkt)) seq) = Some (payload pkt)"
proof -
  let ?h = "(header pkt)\<lparr>protocol_version := kPacketProtocolVersion, nonce := seq,
                          payload_length := of_nat (length (payload pkt))\<rparr>"
  obtain c where c: "xchacha20_encrypt lock (payload pkt) (serialize_packet_header ?h) key
        (derive_aead_nonce blake3 (session_id (header pkt)) seq) = Some c"
      "length c = length (payload pkt) + kAeadTagLen"
      "xchacha20_decrypt unlock c (serialize_packet_header ?h) key
        (derive_aead_nonce blake3 (session_id (header pkt)) seq) = Some (payload pkt)"
    using xchacha20_roundtrip [OF assms(1,2), of "payload pkt" "serialize_packet_header ?h"] by blast
  with assms show ?thesis
    by (simp add: packet_seal_data_def Let_def is_zero_session_eq kAeadKeyLen_def)
qed

lemma route_id_nonzero: "to_packet_route_id reg op = Some (ns, m) \<Longrightarrow> ns \<noteq> 0 \<and> m \<noteq> 0"
  by (auto simp: to_packet_route_id_def to_packet_route_def split: if_splits result.splits)

lemma packet_to_buffer_derived:
  assumes "packet_to_buffer reg pkt = (w, Ok ())" "header_wf (header pkt)" "ph_message_id (header pkt) = 0"
  shows "\<exists>wh. w = serialize_packet_header wh @ payload pkt @ auth pkt \<and> header_wf wh \<and> ph_message_id wh \<noteq> 0"
proof -
  let ?wh = "\<lambda>ns m. (header pkt)\<lparr>protocol_version := kPacketProtocolVersion, ph_ns := ns,
           ph_message_id := m, payload_length := of_nat (length (payload pkt))\<rparr>"
  obtain ns m where r: "to_packet_route_id reg (opcode_id pkt) = Some (ns, m)"
    and w: "w = serialize_packet_header (?wh ns m) @ payload pkt @ auth pkt"
    using assms(1,3) by (auto simp: packet_to_buffer_def Let_def split: if_splits option.splits result.splits)
  have "m \<noteq> 0" using route_id_nonzero [OF r] by simp
  then show ?thesis using w assms(2) by (intro exI [of _ "?wh ns m"]) (simp add: header_wf_def)
qed

lemma sealed_delivery:
  assumes crypto: "aead_correct blake3 lock unlock"
    and key: "length key = 32" and seq: "seq \<noteq> 0"
    and pkt: "header_wf (header pkt)" "\<not> zero_session (session_id (header pkt))" "length (payload pkt) \<le> 65535"
    and route: "ph_message_id (header pkt) \<noteq> 0" "ph_ns (header pkt) \<noteq> kNamespaceControl"
      "validate_packet_opcode (ph_ns (header pkt)) (ph_message_id (header pkt)) reg = Ok ()"
  shows "\<exists>pkt1 w pkt2 pkt3.
     packet_seal_data blake3 lock pkt key seq = (pkt1, Ok ()) \<and>
     packet_to_buffer reg pkt1 = (w, Ok ()) \<and>
     packet_from_buffer reg w = Ok pkt2 \<and>
     packet_open_data blake3 unlock pkt2 key = (pkt3, Ok ()) \<and>
     payload pkt3 = payload pkt \<and> header pkt3 = header pkt1"
proof -
  obtain pkt1 where s: "packet_seal_data blake3 lock pkt key seq = (pkt1, Ok ())"
    and h: "header pkt1 = (header pkt)\<lparr>protocol_version := kPacketProtocolVersion, nonce := seq,
                                 payload_length := of_nat (length (payload pkt))\<rparr>"
    and l: "length (payload pkt1) = length (payload pkt)" "length (auth pkt1) = kAeadTagLen"
    and d: "xchacha20_decrypt unlock (payload pkt1 @ auth pkt1) (serialize_packet_header (header pkt1)) key
        (derive_aead_nonce blake3 (session_id (header pkt)) seq) = Some (payload pkt)"
    using packet_seal_data_Ok [OF crypto key seq pkt(2,3)] by blast
  have n: "unat (of_nat (length (payload pkt)) :: u16) = length (payload pkt)"
    using pkt(3) by (intro unat_of_nat_lt) simp
  have ns: "expected_auth_length (ph_ns (header pkt)) (suite_id (header pkt)) = kAeadTagLen"
    using route(2,3) by (auto simp: validate_packet_opcode_def rbind_eq_Ok expected_auth_length_def split: if_splits)
  have "sendable reg pkt1"
    using pkt seq route h l n ns by (auto simp: sendable_def header_wf_def kAeadTagLen_def)
  then obtain w where "packet_to_buffer reg pkt1 = (w, Ok ())" "packet_from_buffer reg w = Ok (received reg pkt1)"
    using packet_from_buffer_eq [of reg pkt1] packet_to_buffer_eq [of pkt1 reg] by (auto simp: sendable_def)
  moreover have "\<exists>pkt3. packet_open_data blake3 unlock (received reg pkt1) key = (pkt3, Ok ()) \<and>
      payload pkt3 = payload pkt \<and> header pkt3 = header pkt1"
    using key seq h l d n by (simp add: packet_open_data_def received_def kAeadKeyLen_def)
  ultimately show ?thesis using s by blast
qed

text \<open>
  C11. End to end delivery on the data plane: sealing a packet whose route is set
  in its header, printing it, parsing the bytes at the receiver and opening the
  result with the same key gives the payload that was sent, under the correctness
  of the AEAD primitive.
\<close>

theorem sealed_packet_delivery:
  assumes crypto: "aead_correct blake3 lock unlock"
    and key: "length key = 32" and seq: "seq \<noteq> 0"
    and pkt: "header_wf (header pkt)" "\<not> zero_session (session_id (header pkt))" "length (payload pkt) \<le> 65535"
    and route: "ph_message_id (header pkt) \<noteq> 0" "ph_ns (header pkt) \<noteq> kNamespaceControl"
      "validate_packet_opcode (ph_ns (header pkt)) (ph_message_id (header pkt)) reg = Ok ()"
  shows "\<exists>pkt1 w pkt2 pkt3.
     packet_seal_data blake3 lock pkt key seq = (pkt1, Ok ()) \<and>
     packet_to_buffer reg pkt1 = (w, Ok ()) \<and>
     packet_from_buffer reg w = Ok pkt2 \<and>
     packet_open_data blake3 unlock pkt2 key = (pkt3, Ok ()) \<and>
     payload pkt3 = payload pkt \<and> header pkt3 = header pkt1"
  using assms by (rule sealed_delivery)

text \<open>
  The header a packet is sealed under is not the header it is sent with when
  its route is left to the printer: with message id 0 the seal authenticates
  message id 0, the printer fills in the route of opcode_id, and the receiver
  authenticates the header it reads.
\<close>

lemma derived_route_not_authenticated:
  assumes "packet_seal_data blake3 lock pkt key seq = (pkt1, Ok ())"
    and "header_wf (header pkt)" and "ph_message_id (header pkt) = 0"
    and "packet_to_buffer reg pkt1 = (w, Ok ())"
    and "packet_from_buffer reg w = Ok pkt2"
  shows "serialize_packet_header (header pkt2) \<noteq> serialize_packet_header (header pkt1)"
proof -
  have h1: "header_wf (header pkt1)" "ph_message_id (header pkt1) = 0"
    using assms(1-3)
    by (auto simp: packet_seal_data_def Let_def header_wf_def split: if_splits option.splits)
  then obtain wh where wh: "w = serialize_packet_header wh @ payload pkt1 @ auth pkt1"
      "header_wf wh" "ph_message_id wh \<noteq> 0"
    using packet_to_buffer_derived [OF assms(4)] by blast
  have "header pkt2 = wh"
    using packet_from_buffer_Ok [OF assms(5)] wh by (simp add: parse_serialize_header)
  then have "ph_message_id (header pkt2) \<noteq> ph_message_id (header pkt1)" using wh(3) h1(2) by simp
  then show ?thesis using header_codec.prefix_free [of "header pkt2" "header pkt1" "[]" "[]"] h1 wh \<open>header pkt2 = wh\<close> by auto
qed

section \<open>Concrete packets\<close>

definition sample_packet :: "byte \<Rightarrow> u16 \<Rightarrow> Packet" where
  "sample_packet ns m =
     \<lparr>header = \<lparr>protocol_version = 3, suite_id = 1, ph_ns = ns, ph_message_id = m,
                 session_id = replicate 16 7, timestamp = 5, nonce = 9, payload_length = 2\<rparr>,
      payload = [1, 2], auth = replicate 16 0, opcode_id = 0x60, intent_id = replicate 16 0\<rparr>"

lemma channel_open_valid: "validate_packet_opcode 4 1 opcode_registry_new = Ok ()"
  using channel_open_lookup(2) by (simp add: validate_packet_opcode_def resolve_by_wire_def namespaces)

lemma sample_sendable: "sendable opcode_registry_new (sample_packet 4 1)"
  using channel_open_valid
  by (simp add: sendable_def sample_packet_def header_wf_def kPacketProtocolVersion_def zero_session_iff
      expected_auth_length_def namespaces kAeadTagLen_def)

text \<open>A cipher that satisfies what the code relies on: the plain text itself with a
  constant mac.\<close>

lemma aead_sample:
  "aead_correct (\<lambda>_. replicate 32 0) (\<lambda>_ _ _ pt. (pt, replicate 16 0)) (\<lambda>_ _ _ _ ct. Some ct)"
  by (simp add: aead_correct_def)

lemma channel_open_from: "from_packet_route opcode_registry_new 4 1 = Some 0x60"
  using channel_open_lookup(2) by (simp add: from_packet_route_def resolve_by_wire_def entry_of_wire_def)

lemma sample_received: "received opcode_registry_new (sample_packet 4 1) = sample_packet 4 1"
  using channel_open_from by (simp add: received_def sample_packet_def)

lemma packet_roundtrip_example:
  "\<exists>w. packet_to_buffer opcode_registry_new (sample_packet 4 1) = (w, Ok ()) \<and>
       packet_from_buffer opcode_registry_new w = Ok (sample_packet 4 1)"
  using packet_roundtrip [OF sample_sendable] sample_received by simp

lemma sample_accepted:
  "packet_from_buffer opcode_registry_new
     (serialize_packet_header (header (sample_packet 4 1)) @ [1, 2] @ replicate 16 0) = Ok (sample_packet 4 1)"
  using packet_from_buffer_eq [OF sample_sendable] sample_received by (simp add: sample_packet_def)

theorem packet_wire_canonical_witness:
  "packet_to_buffer opcode_registry_new (sample_packet 4 1) =
     (serialize_packet_header (header (sample_packet 4 1)) @ [1, 2] @ replicate 16 0, Ok ())"
  using packet_wire_canonical [OF registry_reach.new sample_accepted] by simp

theorem sealed_packet_delivery_witness:
  "\<exists>pkt1 w pkt2 pkt3.
     packet_seal_data (\<lambda>_. replicate 32 0) (\<lambda>_ _ _ pt. (pt, replicate 16 0)) (sample_packet 4 1) (replicate 32 1) 1
       = (pkt1, Ok ()) \<and>
     packet_to_buffer opcode_registry_new pkt1 = (w, Ok ()) \<and>
     packet_from_buffer opcode_registry_new w = Ok pkt2 \<and>
     packet_open_data (\<lambda>_. replicate 32 0) (\<lambda>_ _ _ _ ct. Some ct) pkt2 (replicate 32 1) = (pkt3, Ok ()) \<and>
     payload pkt3 = [1, 2]"
  using sealed_packet_delivery [OF aead_sample, of "replicate 32 1" 1 "sample_packet 4 1" opcode_registry_new]
    channel_open_valid
  by (auto simp: sample_packet_def header_wf_def zero_session_iff namespaces)

text \<open>A packet that leaves its route to the printer.\<close>

definition unrouted :: Packet where
  "unrouted = (sample_packet 0 0)\<lparr>header := (header (sample_packet 0 0))\<lparr>nonce := 1\<rparr>\<rparr>"

lemma unrouted_sealed:
  "packet_seal_data (\<lambda>_. replicate 32 0) (\<lambda>_ _ _ pt. (pt, replicate 16 0)) (sample_packet 0 0) (replicate 32 1) 1
     = (unrouted, Ok ())"
  by (simp add: packet_seal_data_def unrouted_def sample_packet_def Let_def is_zero_session_eq zero_session_iff
      kAeadKeyLen_def kAeadTagLen_def kAeadNonceLen_def xchacha20_encrypt_def derive_aead_nonce_def
      kPacketProtocolVersion_def)

definition routed :: Packet where
  "routed = (sample_packet 4 1)\<lparr>header := (header (sample_packet 4 1))\<lparr>nonce := 1\<rparr>\<rparr>"

lemma unrouted_sent:
  "packet_to_buffer opcode_registry_new unrouted =
     (serialize_packet_header (header routed) @ payload routed @ auth routed, Ok ())"
  using channel_open_lookup(1) channel_open_valid
  by (simp add: packet_to_buffer_def unrouted_def routed_def sample_packet_def kPacketProtocolVersion_def
      to_packet_route_id_def to_packet_route_def resolve_def entry_of_wire_def namespaces)

lemma routed_accepted:
  "packet_from_buffer opcode_registry_new (serialize_packet_header (header routed) @ payload routed @ auth routed)
     = Ok (received opcode_registry_new routed)"
proof (rule packet_from_buffer_eq)
  show "sendable opcode_registry_new routed"
    using sample_sendable by (simp add: sendable_def routed_def header_wf_def)
qed

lemma derived_route_not_authenticated_example:
  "serialize_packet_header (header (received opcode_registry_new routed)) \<noteq> serialize_packet_header (header unrouted)"
  by (rule derived_route_not_authenticated [OF unrouted_sealed _ _ unrouted_sent routed_accepted])
     (simp_all add: sample_packet_def header_wf_def)

end
