(* ===== verification/Replay.thy ===== *)
theory Replay
  imports Wire
begin

text \<open>
  The nonce cache of protocol/replay/replay.h and replay.cpp: a packet is fresh when its
  timestamp lies within the window and its nonce is not among the remembered
  ones.  The clock is an argument, as in the code's second overload; the first
  passes the wall clock.

  Signed differences are taken on 64-bit words; the properties state when no
  overflow occurs.  Taking the front of an empty deque is undefined: None.
\<close>

section \<open>The protector\<close>

record ReplayConfig =
  max_time_delta_ms :: i64
  max_nonce_cache :: nat

record ReplayProtector =
  cfg :: ReplayConfig
  seen_nonces :: "u64 set"
  fifo :: "u64 list"

definition nonce_to_u64 :: "bytes \<Rightarrow> u64" where
  "nonce_to_u64 nnc = foldl (\<lambda>v i. push_bit 8 v OR ucast (nnc ! i)) 0 [0..<8]"

definition protector_new :: "ReplayConfig \<Rightarrow> ReplayProtector" where
  "protector_new c = \<lparr>cfg = c, seen_nonces = {}, fifo = []\<rparr>"

definition in_time :: "ReplayConfig \<Rightarrow> i64 \<Rightarrow> i64 \<Rightarrow> bool" where
  "in_time c ts now =
     (let delta = now - ts; delta = (if delta <s 0 then - delta else delta)
      in \<not> max_time_delta_ms c <s delta)"

definition accept :: "bytes \<Rightarrow> i64 \<Rightarrow> i64 \<Rightarrow> ReplayProtector \<Rightarrow> (ReplayProtector \<times> bool) option" where
  "accept nnc ts now rp =
     (if \<not> in_time (cfg rp) ts now then Some (rp, False)
      else
        let val = nonce_to_u64 nnc in
        if val \<in> seen_nonces rp then Some (rp, False)
        else
          case (if card (seen_nonces rp) \<ge> max_nonce_cache (cfg rp)
                then (case fifo rp of
                        [] \<Rightarrow> None
                      | oldest # rest \<Rightarrow>
                          Some (rp\<lparr>fifo := rest, seen_nonces := seen_nonces rp - {oldest}\<rparr>))
                else Some rp) of
            None \<Rightarrow> None
          | Some rp' \<Rightarrow>
              Some (rp'\<lparr>fifo := fifo rp' @ [val], seen_nonces := insert val (seen_nonces rp')\<rparr>, True))"

definition clear :: "ReplayProtector \<Rightarrow> ReplayProtector" where
  "clear rp = rp\<lparr>seen_nonces := {}, fifo := []\<rparr>"

definition protector_size :: "ReplayProtector \<Rightarrow> nat" where
  "protector_size rp = card (seen_nonces rp)"

section \<open>What the cache remembers\<close>

text \<open>The specification: the list of all accepted nonces, oldest first, of which the
  last \<open>cap\<close> count.\<close>

definition recent :: "nat \<Rightarrow> 'a list \<Rightarrow> 'a list" where
  "recent cap hist = drop (length hist - cap) hist"

definition protector_rel :: "ReplayProtector \<Rightarrow> u64 list \<Rightarrow> bool" where
  "protector_rel rp hist \<longleftrightarrow>
     fifo rp = recent (max_nonce_cache (cfg rp)) hist \<and> seen_nonces rp = set (fifo rp) \<and> distinct (fifo rp)"

lemma length_recent [simp]: "length (recent cap hist) = min cap (length hist)"
  by (auto simp: recent_def)

lemma recent_snoc_full:
  "0 < cap \<Longrightarrow> cap \<le> length hist \<Longrightarrow> recent cap (hist @ [v]) = tl (recent cap hist) @ [v]"
  by (simp add: recent_def tl_drop Suc_diff_le drop_Suc flip: drop_Suc)

lemma recent_snoc_room: "length hist < cap \<Longrightarrow> recent cap (hist @ [v]) = recent cap hist @ [v]"
  by (simp add: recent_def)

lemma protector_new_rel: "protector_rel (protector_new c) []"
  by (simp add: protector_rel_def protector_new_def recent_def)

lemma nonce_to_u64_inject:
  assumes "length a = 8" "length b = 8" "nonce_to_u64 a = nonce_to_u64 b"
  shows "a = b"
proof -
  have "nonce_to_u64 x = fst (read_be 8 x)" if "length x = 8" for x
    using foldl_read_be [of 0 8 x 0] that by (simp add: nonce_to_u64_def read_be_def)
  then have "write_be 8 (nonce_to_u64 x) = x" if "length x = 8" for x
    using write_be_read_be [where 'a = 64, of 8 x] that by simp
  with assms show ?thesis by metis
qed

text \<open>One call: the decision and the next history.\<close>

lemma accept_step:
  assumes rel: "protector_rel rp hist" and cap: "0 < max_nonce_cache (cfg rp)"
  shows "\<exists>rp' b. accept nnc ts now rp = Some (rp', b) \<and> cfg rp' = cfg rp \<and>
     (b \<longleftrightarrow> in_time (cfg rp) ts now \<and> nonce_to_u64 nnc \<notin> set (recent (max_nonce_cache (cfg rp)) hist)) \<and>
     protector_rel rp' (if b then hist @ [nonce_to_u64 nnc] else hist)"
proof (cases "in_time (cfg rp) ts now \<and> nonce_to_u64 nnc \<notin> seen_nonces rp")
  case False
  then show ?thesis using rel by (auto simp: accept_def protector_rel_def Let_def)
next
  case True
  let ?cap = "max_nonce_cache (cfg rp)" and ?v = "nonce_to_u64 nnc"
  have f: "fifo rp = recent ?cap hist" "seen_nonces rp = set (fifo rp)" "distinct (fifo rp)"
    using rel by (auto simp: protector_rel_def)
  have card: "card (seen_nonces rp) = min ?cap (length hist)"
    using f distinct_card [of "fifo rp"] by simp
  show ?thesis
  proof (cases "?cap \<le> length hist")
    case full: True
    then have "fifo rp \<noteq> []" using f(1) cap by (metis length_recent list.size(3) min.absorb1 less_not_refl)
    then obtain x xs where x: "fifo rp = x # xs" by (cases "fifo rp") auto
    have "recent ?cap (hist @ [?v]) = xs @ [?v]"
      using recent_snoc_full [OF cap full, of ?v] f(1) x by (metis list.sel(3))
    then show ?thesis using True full card x f by (auto simp: accept_def protector_rel_def Let_def)
  next
    case room: False
    then have "recent ?cap (hist @ [?v]) = fifo rp @ [?v]"
      using recent_snoc_room [of hist ?cap ?v] f(1) by simp
    then show ?thesis using True room card f by (auto simp: accept_def protector_rel_def Let_def)
  qed
qed

primrec accept_all :: "(bytes \<times> i64 \<times> i64) list \<Rightarrow> ReplayProtector \<Rightarrow> (ReplayProtector \<times> u64 list) option" where
  "accept_all [] rp = Some (rp, [])"
| "accept_all (p # ps) rp =
     (case p of (nnc, ts, now) \<Rightarrow>
        (case accept nnc ts now rp of
           None \<Rightarrow> None
         | Some (rp', b) \<Rightarrow>
             (case accept_all ps rp' of
                None \<Rightarrow> None
              | Some (rp'', acc) \<Rightarrow> Some (rp'', (if b then [nonce_to_u64 nnc] else []) @ acc))))"

lemma accept_all_rel:
  assumes "protector_rel rp hist" "0 < max_nonce_cache (cfg rp)"
  shows "\<exists>rp' acc. accept_all ps rp = Some (rp', acc) \<and> cfg rp' = cfg rp \<and> protector_rel rp' (hist @ acc)"
  using assms
proof (induction ps arbitrary: rp hist)
  case (Cons p ps)
  obtain nnc ts now where p: "p = (nnc, ts, now)" by (cases p) auto
  obtain rp' b where s: "accept nnc ts now rp = Some (rp', b)" "cfg rp' = cfg rp"
      "protector_rel rp' (if b then hist @ [nonce_to_u64 nnc] else hist)"
    using accept_step [OF Cons.prems] by blast
  with Cons.IH [OF s(3)] Cons.prems(2) p show ?case by (cases b) fastforce+
qed auto

text \<open>
  C33. The nonce cache, however it has been driven since its construction with a
  positive capacity, accepts a packet exactly when its timestamp is in the window
  and its nonce is not among the last max_nonce_cache accepted ones; it never
  takes from an empty queue and never holds more than its capacity.
\<close>

theorem replay_cache_exact:
  assumes "0 < max_nonce_cache c"
  shows "\<exists>rp hist rp' b. accept_all ps (protector_new c) = Some (rp, hist) \<and>
     protector_size rp \<le> max_nonce_cache c \<and>
     accept nnc ts now rp = Some (rp', b) \<and>
     (b \<longleftrightarrow> in_time c ts now \<and> nonce_to_u64 nnc \<notin> set (recent (max_nonce_cache c) hist))"
proof -
  have c: "cfg (protector_new c) = c" by (simp add: protector_new_def)
  obtain rp hist where r: "accept_all ps (protector_new c) = Some (rp, hist)" "cfg rp = c" "protector_rel rp hist"
    using accept_all_rel [OF protector_new_rel [of c], of ps] assms c by auto
  have "protector_size rp \<le> max_nonce_cache c"
    using r(2,3) card_length [of "fifo rp"] by (auto simp: protector_rel_def protector_size_def)
  with r accept_step [OF r(3)] assms show ?thesis by blast
qed

lemma accept_sample:
  "accept_all [(replicate 8 1, 0, 0)] (protector_new \<lparr>max_time_delta_ms = 5000, max_nonce_cache = 1\<rparr>)
     = Some (\<lparr>cfg = \<lparr>max_time_delta_ms = 5000, max_nonce_cache = 1\<rparr>,
              seen_nonces = {nonce_to_u64 (replicate 8 1)}, fifo = [nonce_to_u64 (replicate 8 1)]\<rparr>,
             [nonce_to_u64 (replicate 8 1)])"
  by (simp add: accept_def protector_new_def in_time_def Let_def word_sless_alt)

theorem replay_cache_exact_witness:
  "\<exists>rp hist rp'. accept_all [(replicate 8 1, 0, 0)] (protector_new \<lparr>max_time_delta_ms = 5000, max_nonce_cache = 1\<rparr>)
       = Some (rp, hist) \<and> hist \<noteq> [] \<and> accept (replicate 8 1) 0 0 rp = Some (rp', False)"
  using replay_cache_exact [of "\<lparr>max_time_delta_ms = 5000, max_nonce_cache = 1\<rparr>" "[(replicate 8 1, 0, 0)]"
      "replicate 8 1" 0 0] accept_sample by (auto simp: recent_def)

text \<open>The timestamp test without overflow, and what the wrap-around lets through.\<close>

lemma in_time_iff:
  assumes "- (2 ^ 63) < sint now - sint ts" "sint now - sint ts < 2 ^ 63"
  shows "in_time c ts now \<longleftrightarrow> \<bar>sint now - sint ts\<bar> \<le> sint (max_time_delta_ms c)"
proof -
  have d: "sint (now - ts) = sint now - sint ts"
    using assms by (simp add: sint_word_ariths(2) signed_take_bit_int_eq_self)
  have "sint (- (now - ts)) = - (sint now - sint ts)"
    using assms d by (subst sint_word_ariths(4)) (simp add: signed_take_bit_int_eq_self)
  with d show ?thesis by (auto simp: in_time_def Let_def word_sless_alt not_less)
qed

lemma in_time_wraps: "sint (max_time_delta_ms c) \<ge> 0 \<Longrightarrow> in_time c (now + 2 ^ 63) now"
  by (simp add: in_time_def word_sless_alt)

end
