(* ===== verification/Framing.thy ===== *)
theory Framing
  imports Wire
begin

text \<open>
  Transport framing of core/transport/framing.hpp and framing.cpp: the eleven-byte frame
  header, the version handshake and the length-prefixed fields of the join domain.

  The header is copied as it lies in memory, packed and little-endian on the
  supported machines.  A socket is the list of bytes that can still be read from
  it; reading beyond its end is the closed connection of read_all.  Failing system
  calls are not modelled.
\<close>

section \<open>Frames\<close>

record FrameHeader =
  magic :: u32
  payload_len :: u32
  flags :: byte
  fh_channel_id :: u16

definition kFrameMagic :: u32 where "kFrameMagic = 0x534D4F01"
definition kFrameFlagNone :: byte where "kFrameFlagNone = 0x00"
definition kFrameFlagVersion :: byte where "kFrameFlagVersion = 0x01"
definition kFrameFlagClose :: byte where "kFrameFlagClose = 0x02"
definition kFrameFlagChannel :: byte where "kFrameFlagChannel = 0x04"
definition frame_header_size :: nat where "frame_header_size = 11"

definition frame_header_bytes :: "FrameHeader \<Rightarrow> bytes" where
  "frame_header_bytes h = write_le 4 (magic h) @ write_le 4 (payload_len h) @ [flags h] @ write_le 2 (fh_channel_id h)"

definition frame_header_of :: "bytes \<Rightarrow> FrameHeader" where
  "frame_header_of b =
     \<lparr>magic = read_le 4 b, payload_len = read_le 4 (drop 4 b), flags = b ! 8, fh_channel_id = read_le 2 (drop 9 b)\<rparr>"

definition frame_write :: "bytes \<Rightarrow> byte \<Rightarrow> u16 \<Rightarrow> bytes" where
  "frame_write pl fl ch =
     frame_header_bytes
       \<lparr>magic = kFrameMagic, payload_len = of_nat (length pl),
        flags = (if ch \<noteq> 0 then fl OR kFrameFlagChannel else fl), fh_channel_id = ch\<rparr> @ pl"

text \<open>None for the return value 0: too short, or not a frame.\<close>

definition frame_read :: "bytes \<Rightarrow> (FrameHeader \<times> bytes \<times> nat) option" where
  "frame_read buf =
     (if length buf < frame_header_size then None
      else
        let h = frame_header_of buf in
        if magic h \<noteq> kFrameMagic then None
        else
          let total = frame_header_size + unat (payload_len h) in
          if length buf < total then None
          else Some (h, take (unat (payload_len h)) (drop frame_header_size buf), total))"

section \<open>The version handshake\<close>

definition kTransportVersion :: u32 where "kTransportVersion = 1"

datatype ConnectionType = Data | Join | Sync

primrec connection_type_byte :: "ConnectionType \<Rightarrow> byte" where
  "connection_type_byte Data = 0"
| "connection_type_byte Join = 1"
| "connection_type_byte Sync = 2"

definition read_all :: "nat \<Rightarrow> bytes \<Rightarrow> (bytes \<times> bytes) result" where
  "read_all n inp =
     (if length inp < n then Err (smo_err CatTransport 303 SevError NoRetry RecNone)
      else Ok (take n inp, drop n inp))"

definition client_hello :: "ConnectionType \<Rightarrow> bytes" where
  "client_hello ty = write_le 4 kTransportVersion @ [connection_type_byte ty]"

definition version_handshake_client :: "bytes \<Rightarrow> u32 result" where
  "version_handshake_client inp =
     rbind (read_all 4 inp) (\<lambda>(v, r).
     rbind (read_all 1 r) (\<lambda>(_, _).
       let server_ver = read_le 4 v in
       if server_ver = 0 then Err (smo_err CatTransport 312 SevError NoRetry Reconnect)
       else if server_ver > kTransportVersion then Err (smo_err CatTransport 313 Warn NoRetry Reenroll)
       else Ok server_ver))"

text \<open>The server's side: what it writes, the connection type it reports, and its result.\<close>

definition version_handshake_server :: "bytes \<Rightarrow> bytes \<times> ConnectionType option \<times> u32 result" where
  "version_handshake_server inp =
     (case read_all 4 inp of
        Err e \<Rightarrow> ([], None, Err e)
      | Ok (v, r) \<Rightarrow>
          (case read_all 1 r of
             Err e \<Rightarrow> ([], None, Err e)
           | Ok (t, _) \<Rightarrow>
               let client_ver = read_le 4 v; type_byte = hd t;
                   ty = (if type_byte = connection_type_byte Join then Join
                         else if type_byte = connection_type_byte Sync then Sync else Data);
                   negotiated = (if client_ver \<ge> 1 \<and> client_ver \<le> kTransportVersion then client_ver else 0)
               in (write_le 4 negotiated @ [type_byte], Some ty,
                   if negotiated = 0 then Err (smo_err CatTransport 312 SevError NoRetry Reconnect)
                   else Ok negotiated)))"

section \<open>Length-prefixed fields\<close>

definition write_field :: "bytes \<Rightarrow> bytes" where
  "write_field data =
     [of_nat ((length data div 256) mod 256), of_nat (length data mod 256)] @ data"

definition read_field :: "bytes \<Rightarrow> (bytes \<times> bytes) result" where
  "read_field inp =
     rbind (read_all 2 inp) (\<lambda>(h, r).
       let sz = push_bit 8 (ucast (h ! 0)) OR ucast (h ! 1) :: u16 in
       if sz > 0 then read_all (unat sz) r else Ok ([], r))"

section \<open>Frames and fields are read back\<close>

lemma read_le_prefix: "read_le n (write_le n (v :: 'a::len word) @ r) = v" if "LENGTH('a) \<le> 8 * n"
  using that by (rule read_le_write)

lemma frame_header_roundtrip: "frame_header_of (frame_header_bytes h @ r) = h"
proof -
  have "(write_le 4 (magic h) @ write_le 4 (payload_len h) @ flags h # write_le 2 (fh_channel_id h) @ r) ! 8 = flags h"
    by (simp add: nth_append)
  then show ?thesis
    by (simp add: frame_header_of_def frame_header_bytes_def read_le_prefix)
qed

lemma length_frame_header: "length (frame_header_bytes h) = frame_header_size"
  by (simp add: frame_header_bytes_def frame_header_size_def)

text \<open>A frame is read back from the front of a stream, with its size.\<close>

lemma frame_read_write:
  assumes "length pl < 2 ^ 32"
  shows "\<exists>h. frame_read (frame_write pl fl ch @ r) = Some (h, pl, length (frame_write pl fl ch)) \<and>
           fh_channel_id h = ch \<and> (ch = 0 \<longrightarrow> flags h = fl)"
proof -
  have u: "unat (of_nat (length pl) :: u32) = length pl" using assms by (intro unat_of_nat_lt) simp
  let ?h = "\<lparr>magic = kFrameMagic, payload_len = of_nat (length pl),
        flags = (if ch \<noteq> 0 then fl OR kFrameFlagChannel else fl), fh_channel_id = ch\<rparr>"
  have "frame_header_of (frame_write pl fl ch @ r) = ?h"
    using frame_header_roundtrip [of ?h "pl @ r"] by (simp add: frame_write_def)
  moreover have "drop frame_header_size (frame_write pl fl ch @ r) = pl @ r"
    "length (frame_write pl fl ch) = frame_header_size + length pl"
    using length_frame_header [of ?h] by (simp_all add: frame_write_def)
  ultimately show ?thesis using u by (simp add: frame_read_def Let_def)
qed

interpretation frame_stream: stream_codec "\<lambda>pl. frame_write pl kFrameFlagNone 0"
  "\<lambda>bs. case frame_read bs of None \<Rightarrow> Err (smo_err CatTransport 309 SevError RetrySafe RecNone)
        | Some (_, pl, n) \<Rightarrow> Ok (pl, drop n bs)" "\<lambda>pl. length pl < 2 ^ 32"
proof unfold_locales
  fix pl r :: bytes
  assume "length pl < 2 ^ 32"
  from frame_read_write [OF this, of kFrameFlagNone 0 r]
  show "(case frame_read (frame_write pl kFrameFlagNone 0 @ r) of
      None \<Rightarrow> Err (smo_err CatTransport 309 SevError RetrySafe RecNone)
    | Some (_, pl', n) \<Rightarrow> Ok (pl', drop n (frame_write pl kFrameFlagNone 0 @ r))) = Ok (pl, r)"
    by auto
qed

lemma bytes_to_u16: "n < 65536 \<Longrightarrow>
  (push_bit 8 (ucast (of_nat (n div 256) :: byte)) OR ucast (of_nat (n mod 256) :: byte) :: u16) = of_nat n"
proof (rule bit_word_eqI)
  fix k assume n: "n < 65536" and k: "k < LENGTH(16)"
  show "bit (push_bit 8 (ucast (of_nat (n div 256) :: byte)) OR ucast (of_nat (n mod 256) :: byte) :: u16) k =
      bit (of_nat n :: u16) k"
  proof (cases "k < 8")
    case True
    then show ?thesis using k bit_take_bit_iff [of 8 n k]
      by (auto simp: bit_simps take_bit_eq_mod)
  next
    case False
    then show ?thesis using k bit_drop_bit_eq [of 8 n]
      by (auto simp: bit_simps drop_bit_eq_div)
  qed
qed

lemma write_read_field:
  assumes "length data < 65536"
  shows "read_field (write_field data @ r) = Ok (data, r)"
proof -
  have m: "length data div 256 mod 256 = length data div 256" using assms by simp
  have "unat (of_nat (length data) :: u16) = length data" using assms by (intro unat_of_nat_lt) simp
  moreover have "(of_nat (length data) :: u16) > 0 \<longleftrightarrow> data \<noteq> []"
    using calculation by (metis length_greater_0_conv unat_0 unat_gt_0 word_gt_0)
  ultimately show ?thesis
    using bytes_to_u16 [OF assms] unfolding read_field_def write_field_def m
    by (auto simp: read_all_def)
qed

interpretation join_field: stream_codec write_field read_field "\<lambda>data. length data < 65536"
  by unfold_locales (rule write_read_field)

text \<open>A field of 65536 bytes is announced as empty: its content is left in the stream.\<close>

lemma write_field_truncates: "length data = 65536 \<Longrightarrow> read_field (write_field data @ r) = Ok ([], data @ r)"
  by (simp add: read_field_def write_field_def read_all_def)

text \<open>Client and server agree on the version, and the server on the purpose.\<close>

lemma handshake_agreement:
  "version_handshake_server (client_hello ty) = (write_le 4 kTransportVersion @ [connection_type_byte ty], Some ty, Ok kTransportVersion)"
  "version_handshake_client (fst (version_handshake_server (client_hello ty))) = Ok kTransportVersion"
proof -
  have v: "read_le 4 (write_le 4 kTransportVersion) = kTransportVersion"
    using read_le_prefix [of 4 kTransportVersion "[]"] by simp
  then show s: "version_handshake_server (client_hello ty) =
      (write_le 4 kTransportVersion @ [connection_type_byte ty], Some ty, Ok kTransportVersion)"
    by (cases ty) (simp_all add: version_handshake_server_def client_hello_def read_all_def kTransportVersion_def)
  show "version_handshake_client (fst (version_handshake_server (client_hello ty))) = Ok kTransportVersion"
    using v unfolding s by (simp add: version_handshake_client_def read_all_def kTransportVersion_def)
qed

end
