(* ===== verification/Hex.thy ===== *)
theory Hex
  imports Smo_Prelude
begin

text \<open>
  Hexadecimal text: bytes_to_hex of core/types.hpp, the to_hex members built on the same
  digits, and the reading of two digits with a std::istringstream in
  core/session/session.cpp.
\<close>

definition hex_digits :: string where "hex_digits = ''0123456789abcdef''"

definition hex_digit :: "byte \<Rightarrow> char" where
  "hex_digit b = hex_digits ! unat b"

definition hex_byte :: "byte \<Rightarrow> string" where
  "hex_byte b = [hex_digit (drop_bit 4 b), hex_digit (b AND 0xF)]"

definition bytes_to_hex :: "bytes \<Rightarrow> string" where
  "bytes_to_hex data = concat (map hex_byte data)"

text \<open>What a stream in hexadecimal mode makes of a character.\<close>

definition hex_value :: "char \<Rightarrow> nat option" where
  "hex_value c =
     (let n = of_char c :: nat in
      if 48 \<le> n \<and> n \<le> 57 then Some (n - 48)
      else if 97 \<le> n \<and> n \<le> 102 then Some (n - 87)
      else if 65 \<le> n \<and> n \<le> 70 then Some (n - 55)
      else None)"

section \<open>Facts\<close>

lemma hex_value_digit:
  assumes "n < 16"
  shows "hex_value (hex_digits ! n) = Some n"
proof -
  have "list_all (\<lambda>n. hex_value (hex_digits ! n) = Some n) [0..<16]" by code_simp
  with assms show ?thesis by (simp add: list_all_iff)
qed

lemma nibbles: "unat (drop_bit 4 (b :: byte)) < 16" "unat (b AND 0xF) < 16"
  "16 * unat (drop_bit 4 b) + unat (b AND 0xF) = unat b"
proof -
  have m: "b AND 0xF = take_bit 4 b" by (simp add: take_bit_eq_mask mask_eq_exp_minus_1)
  have d: "unat (drop_bit 4 b) = unat b div 16" by (simp add: drop_bit_eq_div unat_div)
  have t: "unat (b AND 0xF) = unat b mod 16" unfolding m by (simp add: take_bit_eq_mod unat_mod)
  show "unat (drop_bit 4 b) < 16" using d unsigned_less [of b, where 'a = nat] by simp
  show "unat (b AND 0xF) < 16" using t by simp
  show "16 * unat (drop_bit 4 b) + unat (b AND 0xF) = unat b" using d t by simp
qed

lemma length_hex_byte [simp]: "length (hex_byte b) = 2"
  by (simp add: hex_byte_def)

lemma length_bytes_to_hex [simp]: "length (bytes_to_hex bs) = 2 * length bs"
  by (induction bs) (simp_all add: bytes_to_hex_def)

lemma hex_byte_values: "hex_value (hex_byte b ! 0) = Some (unat (drop_bit 4 b))"
  "hex_value (hex_byte b ! 1) = Some (unat (b AND 0xF))"
  using nibbles [of b] by (simp_all add: hex_byte_def hex_digit_def hex_value_digit)

lemma hex_byte_inject: "hex_byte a = hex_byte b \<longleftrightarrow> a = b"
proof
  assume "hex_byte a = hex_byte b"
  then have "unat (drop_bit 4 a) = unat (drop_bit 4 b)" "unat (a AND 0xF) = unat (b AND 0xF)"
    using hex_byte_values [of a] hex_byte_values [of b] by simp_all
  then show "a = b" using nibbles(3) [of a] nibbles(3) [of b] by (metis word_unat_eq_iff)
qed simp

lemma bytes_to_hex_inject [simp]: "bytes_to_hex a = bytes_to_hex b \<longleftrightarrow> a = b"
proof (induction a arbitrary: b)
  case Nil
  then show ?case by (cases b) (auto simp: bytes_to_hex_def hex_byte_def)
next
  case (Cons x a)
  have e: "hex_byte x @ u = hex_byte y @ v \<longleftrightarrow> x = y \<and> u = v" for x y u v
    using hex_byte_inject by simp
  from Cons show ?case by (cases b) (simp_all add: bytes_to_hex_def e, simp add: hex_byte_def)
qed

end
