(* ===== verification/Session_Security.thy ===== *)
theory Session_Security
  imports Wire Hex
begin

text \<open>
  The session identifier (core/session/session_id.hpp, session_id.cpp) and the per-session
  security state (core/session/session_security.hpp, session_security.cpp): the 64-bit
  sliding replay window and the rekey step.

  The window is compared with an abstract specification that remembers every
  sequence number it has accepted: \<open>window_refines_spec\<close> shows that the two words of
  the implementation decide exactly as that unbounded set does.
\<close>

section \<open>Session identifiers\<close>

text \<open>The sixteen bytes of the array; \<open>sid_wf\<close> states their number.\<close>

type_synonym SessionId = bytes

definition kSize :: nat where "kSize = 16"

definition sid_wf :: "SessionId \<Rightarrow> bool" where
  "sid_wf sid \<longleftrightarrow> length sid = kSize"

definition sid_is_zero :: "SessionId \<Rightarrow> bool" where
  "sid_is_zero sid = (\<not> list_ex (\<lambda>b. b \<noteq> 0) sid)"

text \<open>hash is None when the implementation has no hash function.  A digest shorter
  than the identifier leaves the remaining bytes zero.\<close>

definition sid_derive :: "bytes \<Rightarrow> (bytes \<Rightarrow> bytes result) option \<Rightarrow> SessionId result" where
  "sid_derive seed hash =
     (case hash of
        None \<Rightarrow> Err (smo_err CatSession 500 SevError NoRetry Reconnect)
      | Some h \<Rightarrow> rbind (h seed) (\<lambda>d.
          let copy = (if length d < kSize then length d else kSize)
          in Ok (take copy d @ replicate (kSize - copy) 0)))"

definition sid_from_bytes :: "bytes \<Rightarrow> SessionId result" where
  "sid_from_bytes data =
     (if length data < kSize then Err (smo_err CatSession 500 SevError NoRetry Reconnect)
      else Ok (take kSize data))"

definition sid_to_hex :: "SessionId \<Rightarrow> string" where
  "sid_to_hex sid = bytes_to_hex sid"

section \<open>The replay window\<close>

record ReplayWindow =
  highest :: u64
  bitmap :: u64

definition kWindowBits :: u64 where "kWindowBits = 64"

definition is_acceptable :: "ReplayWindow \<Rightarrow> u64 \<Rightarrow> bool" where
  "is_acceptable w seq =
     (if seq = 0 then False
      else if seq > highest w then True
      else
        let diff = highest w - seq in
        if diff = 0 \<or> diff \<ge> kWindowBits then False
        else bitmap w AND push_bit (unat diff) 1 = 0)"

definition window_commit :: "u64 \<Rightarrow> ReplayWindow \<Rightarrow> ReplayWindow \<times> bool" where
  "window_commit seq w =
     (if \<not> is_acceptable w seq then (w, False)
      else if seq > highest w then
        let shift = seq - highest w
        in (w\<lparr>bitmap := (if shift \<ge> kWindowBits then 0
                         else push_bit (unat shift) (bitmap w) OR push_bit (unat shift) 1),
              highest := seq\<rparr>, True)
      else
        let diff = highest w - seq
        in (w\<lparr>bitmap := bitmap w OR push_bit (unat diff) 1\<rparr>, True))"

definition window_restore :: "u64 \<Rightarrow> u64 \<Rightarrow> ReplayWindow \<Rightarrow> ReplayWindow" where
  "window_restore h b w = w\<lparr>highest := h, bitmap := b\<rparr>"

definition window_reset :: "ReplayWindow \<Rightarrow> ReplayWindow" where
  "window_reset w = w\<lparr>highest := 0, bitmap := 0\<rparr>"

definition window_new :: ReplayWindow where
  "window_new = \<lparr>highest = 0, bitmap = 0\<rparr>"

record SessionSecurityState =
  sec_session_id :: SessionId
  epoch :: u64
  tx_sequence :: u64
  rx_epoch :: u64
  rx_window :: ReplayWindow

definition rekey :: "SessionSecurityState \<Rightarrow> SessionSecurityState" where
  "rekey s = s\<lparr>epoch := epoch s + 1, tx_sequence := 0, rx_epoch := epoch s + 1,
               rx_window := window_reset (rx_window s)\<rparr>"

section \<open>Replay filters\<close>

text \<open>The contract of a replay filter: a key that is accepted was not accepted before,
  and is remembered for good.  Whatever is fed to such a filter, it accepts no key
  twice.\<close>

locale replay_filter =
  fixes accept :: "'k \<Rightarrow> 's \<Rightarrow> 's \<times> bool"
    and seen :: "'s \<Rightarrow> 'k set"
    and inv :: "'s \<Rightarrow> bool"
  assumes accept_fresh: "inv s \<Longrightarrow> accept k s = (s', True) \<Longrightarrow> k \<notin> seen s"
    and accept_seen: "inv s \<Longrightarrow> accept k s = (s', True) \<Longrightarrow> insert k (seen s) \<subseteq> seen s'"
    and reject_same: "inv s \<Longrightarrow> accept k s = (s', False) \<Longrightarrow> s' = s"
    and accept_inv: "inv s \<Longrightarrow> accept k s = (s', b) \<Longrightarrow> inv s'"
begin

primrec accepted :: "'k list \<Rightarrow> 's \<Rightarrow> 'k list" where
  "accepted [] s = []"
| "accepted (k # ks) s =
     (case accept k s of (s', b) \<Rightarrow> (if b then [k] else []) @ accepted ks s')"

lemma accepted_fresh: "inv s \<Longrightarrow> set (accepted ks s) \<inter> seen s = {}"
proof (induction ks arbitrary: s)
  case (Cons k ks)
  obtain s' b where a: "accept k s = (s', b)" by fastforce
  have "inv s'" using accept_inv Cons.prems a by blast
  from Cons.IH [OF this] have "set (accepted ks s') \<inter> seen s' = {}" .
  moreover have "k \<notin> seen s \<and> insert k (seen s) \<subseteq> seen s'" if b
    using that a accept_fresh [of s k s'] accept_seen [of s k s'] Cons.prems by simp
  moreover have "s' = s" if "\<not> b" using that a reject_same [of s k s'] Cons.prems by simp
  ultimately show ?case using a by (cases b) auto
qed simp

lemma accepted_distinct: "inv s \<Longrightarrow> distinct (accepted ks s)"
proof (induction ks arbitrary: s)
  case (Cons k ks)
  obtain s' b where a: "accept k s = (s', b)" by fastforce
  have i: "inv s'" using accept_inv Cons.prems a by blast
  have "k \<in> seen s'" if b using that a accept_seen [of s k s'] Cons.prems by simp
  with Cons.IH [OF i] accepted_fresh [OF i] a show ?case by auto
qed simp

end

section \<open>The window as a set\<close>

text \<open>The specification: the set of sequence numbers accepted so far, with the reserved
  number 0.  A number is accepted when it is new and less than 64 below the
  greatest one.\<close>

definition spec_accept :: "nat \<Rightarrow> nat set \<Rightarrow> nat set \<times> bool" where
  "spec_accept n S = (if n \<notin> S \<and> Max S < n + 64 then (insert n S, True) else (S, False))"

text \<open>The abstraction relation: bit j of the bitmap stands for the number j below the
  highest.\<close>

definition window_rel :: "ReplayWindow \<Rightarrow> nat set \<Rightarrow> bool" where
  "window_rel w S \<longleftrightarrow>
     finite S \<and> 0 \<in> S \<and> Max S = unat (highest w) \<and>
     (\<forall>j. 0 < j \<and> j < 64 \<longrightarrow> (bit (bitmap w) j \<longleftrightarrow> j \<le> unat (highest w) \<and> unat (highest w) - j \<in> S))"

lemma and_single_bit: "w AND push_bit n 1 = 0 \<longleftrightarrow> \<not> bit w n" if "n < 64" for w :: u64
proof
  assume a: "w AND push_bit n 1 = 0"
  show "\<not> bit w n"
  proof
    assume "bit w n"
    then have "bit (w AND push_bit n 1) n" using that by (simp add: bit_simps)
    with a show False by simp
  qed
next
  assume "\<not> bit w n"
  then show "w AND push_bit n 1 = 0" by (intro bit_word_eqI) (auto simp: bit_simps)
qed

lemma unat_diff: "b \<le> a \<Longrightarrow> unat (a - b) = unat a - unat b" for a b :: u64
  by (simp add: unat_sub)

lemma window_new_rel: "window_rel window_new {0}"
  by (simp add: window_rel_def window_new_def)

lemma acceptable_iff:
  assumes "window_rel w S"
  shows "is_acceptable w seq \<longleftrightarrow> unat seq \<notin> S \<and> Max S < unat seq + 64"
proof -
  let ?h = "unat (highest w)" and ?s = "unat seq"
  have S: "finite S" "0 \<in> S" "Max S = ?h" using assms by (auto simp: window_rel_def)
  then have le: "\<And>x. x \<in> S \<Longrightarrow> x \<le> ?h" and h: "?h \<in> S"
    using Max_ge [of S] Max_in [of S] by auto
  consider "seq = 0" | "seq \<noteq> 0" "seq > highest w" | "seq \<noteq> 0" "seq \<le> highest w" by fastforce
  then show ?thesis
  proof cases
    case 1 then show ?thesis using S by (simp add: is_acceptable_def)
  next
    case 2
    then have "?h < ?s" by (simp add: word_less_nat_alt)
    moreover from this have "?s \<notin> S" using le [of ?s] by auto
    ultimately show ?thesis using 2 S by (simp add: is_acceptable_def)
  next
    case 3
    then have s: "?s \<le> ?h" by (simp add: word_le_nat_alt)
    define d where "d = ?h - ?s"
    have d: "unat (highest w - seq) = d" using 3 by (simp add: unat_diff d_def)
    then have d0: "highest w - seq = 0 \<longleftrightarrow> d = 0" by (metis unat_eq_zero)
    have d64: "highest w - seq \<ge> kWindowBits \<longleftrightarrow> 64 \<le> d"
      using d by (simp add: word_le_nat_alt kWindowBits_def)
    have "is_acceptable w seq \<longleftrightarrow> 0 < d \<and> d < 64 \<and> \<not> bit (bitmap w) d"
      using 3 d d0 d64 and_single_bit [of d] by (auto simp: is_acceptable_def Let_def)
    moreover have "0 < d \<Longrightarrow> d < 64 \<Longrightarrow> bit (bitmap w) d \<longleftrightarrow> ?s \<in> S"
      using assms s by (simp add: window_rel_def d_def)
    moreover have "d = 0 \<Longrightarrow> ?s \<in> S" using s h by (simp add: d_def)
    moreover have "Max S < ?s + 64 \<longleftrightarrow> d < 64" using S s by (auto simp: d_def)
    ultimately show ?thesis by (cases "d = 0"; cases "d < 64") auto
  qed
qed

lemma window_rel_advance:
  assumes "window_rel w S" and "highest w < seq"
  shows "window_rel (fst (window_commit seq w)) (insert (unat seq) S)"
proof -
  let ?h = "unat (highest w)" and ?s = "unat seq"
  define d where "d = ?s - ?h"
  have S: "finite S" "0 \<in> S" "Max S = ?h" using assms by (auto simp: window_rel_def)
  then have le: "\<And>x. x \<in> S \<Longrightarrow> x \<le> ?h" and h: "?h \<in> S"
    using Max_ge [of S] Max_in [of S] by auto
  have s: "?h < ?s" using assms(2) by (simp add: word_less_nat_alt)
  have d: "unat (seq - highest w) = d" using assms(2) by (simp add: unat_diff d_def)
  have d64: "seq - highest w \<ge> kWindowBits \<longleftrightarrow> 64 \<le> d"
    using d by (simp add: word_le_nat_alt kWindowBits_def)
  have acc: "is_acceptable w seq"
    using assms(2) word_less_nat_alt [of 0 seq] s by (auto simp: is_acceptable_def)
  have w': "fst (window_commit seq w) = w\<lparr>bitmap := (if 64 \<le> d then 0
      else push_bit d (bitmap w) OR push_bit d 1), highest := seq\<rparr>"
    using acc assms(2) d d64 by (simp add: window_commit_def Let_def)
  have below: "?s - j \<notin> insert ?s S" if "0 < j" "j < d" for j
    using le [of "?s - j"] that s by (auto simp: d_def)
  have "Max (insert ?s S) = ?s" using S s by (subst Max_insert) (auto simp: max_def)
  moreover have "bit (bitmap (fst (window_commit seq w))) j \<longleftrightarrow> j \<le> ?s \<and> ?s - j \<in> insert ?s S"
    if j: "0 < j" "j < 64" for j
  proof (cases "j < d")
    case True
    then show ?thesis using below [of j] j w' by (auto simp: bit_simps)
  next
    case False
    then have small: "\<not> 64 \<le> d" using j by simp
    have "bit (bitmap (fst (window_commit seq w))) j \<longleftrightarrow> bit (bitmap w) (j - d) \<or> j = d"
      using w' small False j by (auto simp: bit_simps)
    also have "\<dots> \<longleftrightarrow> j \<le> ?s \<and> ?s - j \<in> S"
    proof (cases "j = d")
      case True then show ?thesis using s h by (simp add: d_def)
    next
      case False
      with \<open>\<not> j < d\<close> have "0 < j - d" "j - d < 64" using j by auto
      then have "bit (bitmap w) (j - d) \<longleftrightarrow> j - d \<le> ?h \<and> ?h - (j - d) \<in> S"
        using assms(1) by (simp add: window_rel_def)
      moreover have "?h - (j - d) = ?s - j" "j - d \<le> ?h \<longleftrightarrow> j \<le> ?s"
        using s \<open>\<not> j < d\<close> by (auto simp: d_def)
      ultimately show ?thesis using False by simp
    qed
    also have "\<dots> \<longleftrightarrow> j \<le> ?s \<and> ?s - j \<in> insert ?s S" using j by auto
    finally show ?thesis .
  qed
  ultimately show ?thesis using S w' by (auto simp: window_rel_def)
qed

lemma window_rel_fill:
  assumes "window_rel w S" and "seq \<le> highest w" and "is_acceptable w seq"
  shows "window_rel (fst (window_commit seq w)) (insert (unat seq) S)"
proof -
  let ?h = "unat (highest w)" and ?s = "unat seq"
  define d where "d = ?h - ?s"
  have S: "finite S" "0 \<in> S" "Max S = ?h" using assms by (auto simp: window_rel_def)
  have s: "?s \<le> ?h" using assms(2) by (simp add: word_le_nat_alt)
  have d: "unat (highest w - seq) = d" using assms(2) by (simp add: unat_diff d_def)
  have w': "fst (window_commit seq w) = w\<lparr>bitmap := bitmap w OR push_bit d 1\<rparr>"
    using assms(2,3) d by (simp add: window_commit_def Let_def)
  have "Max (insert ?s S) = ?h" using S s by (subst Max_insert) (auto simp: max_def)
  moreover have "bit (bitmap w OR push_bit d 1) j \<longleftrightarrow> j \<le> ?h \<and> ?h - j \<in> insert ?s S"
    if "0 < j" "j < 64" for j
  proof -
    have "bit (bitmap w OR push_bit d 1) j \<longleftrightarrow> bit (bitmap w) j \<or> j = d"
      using that by (auto simp: bit_simps)
    also have "\<dots> \<longleftrightarrow> (j \<le> ?h \<and> ?h - j \<in> S) \<or> j = d"
      using assms(1) that by (simp add: window_rel_def)
    also have "\<dots> \<longleftrightarrow> j \<le> ?h \<and> ?h - j \<in> insert ?s S" using s by (auto simp: d_def)
    finally show ?thesis .
  qed
  ultimately show ?thesis using S w' by (auto simp: window_rel_def)
qed

text \<open>One step of the simulation.\<close>

lemma window_commit_sim:
  assumes "window_rel w S"
  shows "snd (window_commit seq w) = snd (spec_accept (unat seq) S) \<and>
         window_rel (fst (window_commit seq w)) (fst (spec_accept (unat seq) S))"
proof (cases "is_acceptable w seq")
  case True
  then have "spec_accept (unat seq) S = (insert (unat seq) S, True)" "snd (window_commit seq w)"
    using acceptable_iff [OF assms] by (auto simp: spec_accept_def window_commit_def Let_def)
  with True window_rel_advance [OF assms] window_rel_fill [OF assms] show ?thesis
    by (cases "highest w < seq") auto
next
  case False
  then have "spec_accept (unat seq) S = (S, False)" "window_commit seq w = (w, False)"
    using acceptable_iff [OF assms] by (auto simp: spec_accept_def window_commit_def)
  with assms show ?thesis by simp
qed

text \<open>The decisions along a sequence of packets.\<close>

primrec decisions :: "('k \<Rightarrow> 's \<Rightarrow> 's \<times> bool) \<Rightarrow> 's \<Rightarrow> 'k list \<Rightarrow> bool list" where
  "decisions acc s [] = []"
| "decisions acc s (k # ks) = (case acc k s of (s', b) \<Rightarrow> b # decisions acc s' ks)"

lemma decisions_refine:
  assumes "window_rel w S"
  shows "decisions window_commit w seqs = decisions spec_accept S (map unat seqs)"
  using assms
proof (induction seqs arbitrary: w S)
  case (Cons k ks)
  obtain w' b where c: "window_commit k w = (w', b)" by fastforce
  obtain S' b' where c': "spec_accept (unat k) S = (S', b')" by fastforce
  have "b = b'" "window_rel w' S'" using window_commit_sim [OF Cons.prems, of k] c c' by auto
  with Cons.IH c c' show ?case by simp
qed simp

text \<open>
  C3. The two-word sliding window refines the unbounded set: on every sequence of
  packet numbers, the window takes the decisions of a receiver that remembers all
  the numbers it ever accepted, refuses 0 and refuses what lies 64 or more below
  the greatest accepted number.
\<close>

theorem window_refines_spec:
  "decisions window_commit window_new seqs = decisions spec_accept {0} (map unat seqs)"
  by (rule decisions_refine [OF window_new_rel])

text \<open>The window is a replay filter: what it has seen is what it refuses.\<close>

definition window_inv :: "ReplayWindow \<Rightarrow> bool" where
  "window_inv w \<longleftrightarrow> (\<exists>S. window_rel w S)"

definition refused :: "ReplayWindow \<Rightarrow> u64 set" where
  "refused w = {n. \<not> is_acceptable w n}"

lemma window_refused:
  assumes "window_rel w S" "window_rel w' (insert (unat k) S)"
  shows "insert k (refused w) \<subseteq> refused w'"
proof -
  have S: "finite S" "S \<noteq> {}" using assms(1) by (auto simp: window_rel_def)
  then have "Max S \<le> Max (insert (unat k) S)" by (intro Max_mono) auto
  then show ?thesis
    using acceptable_iff [OF assms(1)] acceptable_iff [OF assms(2)] by (auto simp: refused_def)
qed

interpretation window: replay_filter window_commit refused window_inv
proof unfold_locales
  fix w k w'
  assume i: "window_inv w" and c: "window_commit k w = (w', True)"
  then have acc: "is_acceptable w k" by (auto simp: window_commit_def split: if_splits)
  then show "k \<notin> refused w" by (simp add: refused_def)
  obtain S where S: "window_rel w S" using i by (auto simp: window_inv_def)
  then have "spec_accept (unat k) S = (insert (unat k) S, True)"
    using acc acceptable_iff [OF S] by (simp add: spec_accept_def)
  then have "window_rel w' (insert (unat k) S)" using window_commit_sim [OF S, of k] c by simp
  with S show "insert k (refused w) \<subseteq> refused w'" by (rule window_refused)
next
  fix w k w'
  assume "window_commit k w = (w', False)"
  then show "w' = w" by (auto simp: window_commit_def Let_def split: if_splits)
next
  fix w k w' b
  assume "window_inv w" and c: "window_commit k w = (w', b)"
  then obtain S where "window_rel w S" by (auto simp: window_inv_def)
  from window_commit_sim [OF this, of k] c show "window_inv w'" by (auto simp: window_inv_def)
qed

lemma window_new_inv: "window_inv window_new"
  using window_new_rel by (auto simp: window_inv_def)

lemma window_reset_new: "window_reset w = window_new"
  by (simp add: window_reset_def window_new_def)

text \<open>The precheck agrees with the commit that follows it, and does not change the
  window.\<close>

lemma commit_iff_acceptable: "snd (window_commit seq w) \<longleftrightarrow> is_acceptable w seq"
  by (simp add: window_commit_def Let_def)

end
