(* ===== verification/Channel.thy ===== *)
theory Channel
  imports Session_Security
begin

text \<open>
  Channels of core/session/channel.hpp and channel.cpp: the four-state machine, flow
  control and the stored form.  The state is stored as a byte and read back with a
  cast, so a value outside the enum is possible; it is \<open>ChInvalid\<close>.
\<close>

section \<open>States and events\<close>

datatype ChannelState = ChClosed | ChOpening | ChOpen | ChClosing | ChInvalid byte

datatype ChannelEvent = FirstData | ExplicitOpen | ChClose | IdleTimeout | WindowUpdate | ChError

definition channel_state_byte :: "ChannelState \<Rightarrow> byte" where
  "channel_state_byte s =
     (case s of ChClosed \<Rightarrow> 0 | ChOpening \<Rightarrow> 1 | ChOpen \<Rightarrow> 2 | ChClosing \<Rightarrow> 3 | ChInvalid b \<Rightarrow> b)"

definition channel_state_of :: "byte \<Rightarrow> ChannelState" where
  "channel_state_of b =
     (if b = 0 then ChClosed else if b = 1 then ChOpening else if b = 2 then ChOpen
      else if b = 3 then ChClosing else ChInvalid b)"

definition is_valid_channel_transition :: "ChannelState \<Rightarrow> ChannelEvent \<Rightarrow> bool" where
  "is_valid_channel_transition from ev =
     (case from of
        ChClosed \<Rightarrow> ev = FirstData \<or> ev = ExplicitOpen
      | ChOpening \<Rightarrow> ev = ChClose \<or> ev = IdleTimeout \<or> ev = ChError
      | ChOpen \<Rightarrow> ev = ChClose \<or> ev = IdleTimeout \<or> ev = WindowUpdate \<or> ev = ChError
      | ChClosing \<Rightarrow> ev = IdleTimeout \<or> ev = ChError
      | ChInvalid _ \<Rightarrow> False)"

definition apply_channel_transition :: "ChannelState \<Rightarrow> ChannelEvent \<Rightarrow> ChannelState" where
  "apply_channel_transition from ev =
     (if \<not> is_valid_channel_transition from ev then from
      else case ev of
        FirstData \<Rightarrow> ChOpen
      | ExplicitOpen \<Rightarrow> ChOpen
      | ChClose \<Rightarrow> ChClosing
      | IdleTimeout \<Rightarrow> ChClosed
      | ChError \<Rightarrow> ChClosed
      | WindowUpdate \<Rightarrow> from)"

section \<open>Flow control\<close>

record ChannelFlowControl =
  window_size :: u64
  window_remaining :: u64

definition can_send :: "u64 \<Rightarrow> ChannelFlowControl \<Rightarrow> bool" where
  "can_send n fc \<longleftrightarrow> n \<le> window_remaining fc"

definition on_send :: "u64 \<Rightarrow> ChannelFlowControl \<Rightarrow> ChannelFlowControl" where
  "on_send n fc = fc\<lparr>window_remaining := window_remaining fc - n\<rparr>"

definition on_window_update :: "u64 \<Rightarrow> ChannelFlowControl \<Rightarrow> ChannelFlowControl" where
  "on_window_update inc fc = fc\<lparr>window_remaining := window_remaining fc + inc\<rparr>"

definition reset_window :: "u64 \<Rightarrow> ChannelFlowControl \<Rightarrow> ChannelFlowControl" where
  "reset_window n fc = fc\<lparr>window_size := n, window_remaining := n\<rparr>"

section \<open>Channels\<close>

record Channel =
  channel_id :: u16
  ch_session_id :: SessionId
  ch_state :: ChannelState
  flow_control :: ChannelFlowControl
  opened_at :: i64
  last_activity_at :: i64
  idle_timeout_ns :: u64

definition channel_create :: "u16 \<Rightarrow> SessionId \<Rightarrow> i64 \<Rightarrow> u64 \<Rightarrow> u64 \<Rightarrow> Channel result" where
  "channel_create cid sid now win idle =
     Ok \<lparr>channel_id = cid, ch_session_id = sid, ch_state = ChOpen,
         flow_control = \<lparr>window_size = win, window_remaining = win\<rparr>,
         opened_at = now, last_activity_at = now, idle_timeout_ns = idle\<rparr>"

definition is_idle :: "i64 \<Rightarrow> Channel \<Rightarrow> bool" where
  "is_idle now ch \<longleftrightarrow> ch_state ch = ChClosed \<or> idle_timeout_ns ch \<le>s now - last_activity_at ch"

definition touch :: "i64 \<Rightarrow> Channel \<Rightarrow> Channel" where
  "touch now ch = ch\<lparr>last_activity_at := now\<rparr>"

definition channel_on_event :: "ChannelEvent \<Rightarrow> i64 \<Rightarrow> Channel \<Rightarrow> Channel \<times> unit result" where
  "channel_on_event ev now ch =
     (if \<not> is_valid_channel_transition (ch_state ch) ev
      then (ch, Err (smo_err CatSession 520 SevError NoRetry RecNone))
      else
        let st = apply_channel_transition (ch_state ch) ev;
            ch' = ch\<lparr>ch_state := st, last_activity_at := now\<rparr>
        in (if st = ChClosed then ch'\<lparr>opened_at := now\<rparr> else ch', Ok ()))"

definition channel_serialize :: "Channel \<Rightarrow> bytes" where
  "channel_serialize ch =
     [ucast (drop_bit 8 (channel_id ch)), ucast (channel_id ch)] @ ch_session_id ch
     @ [channel_state_byte (ch_state ch)]
     @ write_be 8 (window_size (flow_control ch)) @ write_be 8 (window_remaining (flow_control ch))
     @ write_be 8 (opened_at ch) @ write_be 8 (last_activity_at ch) @ write_be 8 (idle_timeout_ns ch)"

abbreviation err_channel :: error_code where
  "err_channel \<equiv> smo_err CatSession 521 SevError NoRetry RecNone"

text \<open>A read guarded by the check that enough bytes remain.\<close>

definition guarded :: "error_code \<Rightarrow> nat \<Rightarrow> bytes \<Rightarrow> (bytes \<Rightarrow> 'a result) \<Rightarrow> 'a result" where
  "guarded e n data f = (if length data < n then Err e else f data)"

definition channel_deserialize :: "bytes \<Rightarrow> Channel result" where
  "channel_deserialize data =
     guarded err_channel 2 data (\<lambda>data. case read_be 2 data of (cid, data) \<Rightarrow>
     guarded err_channel 16 data (\<lambda>data. let sid = take 16 data; data = drop 16 data in
     guarded err_channel 1 data (\<lambda>data. let st = channel_state_of (hd data); data = tl data in
     guarded err_channel 8 data (\<lambda>data. case read_be 8 data of (win, data) \<Rightarrow>
     guarded err_channel 8 data (\<lambda>data. case read_be 8 data of (rem, data) \<Rightarrow>
     guarded err_channel 8 data (\<lambda>data. case read_be 8 data of (op, data) \<Rightarrow>
     guarded err_channel 8 data (\<lambda>data. case read_be 8 data of (act, data) \<Rightarrow>
     guarded err_channel 8 data (\<lambda>data. case read_be 8 data of (idle, data) \<Rightarrow>
       Ok \<lparr>channel_id = cid, ch_session_id = sid, ch_state = st,
           flow_control = \<lparr>window_size = win, window_remaining = rem\<rparr>,
           opened_at = op, last_activity_at = act, idle_timeout_ns = idle\<rparr>))))))))"

section \<open>The stored form is read back\<close>

definition channel_wf :: "Channel \<Rightarrow> bool" where
  "channel_wf ch \<longleftrightarrow> length (ch_session_id ch) = 16 \<and> (\<forall>b. ch_state ch = ChInvalid b \<longrightarrow> 3 < b)"

lemma channel_state_bytes:
  "\<forall>b. s = ChInvalid b \<longrightarrow> 3 < b \<Longrightarrow> channel_state_of (channel_state_byte s) = s"
  by (cases s) (auto simp: channel_state_of_def channel_state_byte_def)

lemma two_bytes_plain: "[ucast (drop_bit 8 v), ucast v] = write_be 2 (v :: u16)"
  by (simp add: numeral_2_eq_2)

lemma read_be_8_only: "read_be 8 (write_be 8 (v :: u64)) = (v, [])"
  using read_be_write_simps(1) [of v "[]"] by simp

lemma channel_serialize_be:
  "channel_serialize ch = write_be 2 (channel_id ch) @ ch_session_id ch @ channel_state_byte (ch_state ch) #
     write_be 8 (window_size (flow_control ch)) @ write_be 8 (window_remaining (flow_control ch))
     @ write_be 8 (opened_at ch) @ write_be 8 (last_activity_at ch) @ write_be 8 (idle_timeout_ns ch)"
  by (simp add: channel_serialize_def flip: two_bytes_plain)

interpretation channel_codec: codec channel_serialize channel_deserialize channel_wf
proof unfold_locales
  fix ch assume "channel_wf ch"
  then show "channel_deserialize (channel_serialize ch) = Ok ch"
    by (simp add: channel_deserialize_def channel_serialize_be guarded_def channel_wf_def wire_simps
        channel_state_bytes read_be_8_only)
qed

section \<open>What the channel machine does\<close>

text \<open>A channel made by the code is open, closing or closed: the Opening state of the
  enum is never entered.\<close>

inductive channel_reach :: "Channel \<Rightarrow> bool" where
  create: "channel_create cid sid now win idle = Ok ch \<Longrightarrow> channel_reach ch"
| event: "channel_reach ch \<Longrightarrow> channel_reach (fst (channel_on_event ev now ch))"
| touch: "channel_reach ch \<Longrightarrow> channel_reach (touch now ch)"

lemma channel_reach_states: "channel_reach ch \<Longrightarrow> ch_state ch \<in> {ChOpen, ChClosing, ChClosed}"
proof (induction rule: channel_reach.induct)
  case (event ch ev now)
  then show ?case
    by (cases ev) (auto simp: channel_on_event_def apply_channel_transition_def Let_def)
qed (auto simp: channel_create_def touch_def)

lemma channel_after_close:
  assumes "ch_state ch = ChClosing" "channel_on_event ev now ch = (ch', Ok ())"
  shows "ch_state ch' = ChClosed \<and> ev \<in> {IdleTimeout, ChError}"
  using assms
  by (cases ev) (auto simp: channel_on_event_def is_valid_channel_transition_def apply_channel_transition_def
      Let_def split: if_splits)

text \<open>Guarded sends never wrap the window: along any schedule of permitted sends and
  updates that stay below 2^64, the remaining window is what was granted less
  what was sent.\<close>

inductive flow :: "ChannelFlowControl \<Rightarrow> nat \<Rightarrow> nat \<Rightarrow> ChannelFlowControl \<Rightarrow> bool" for fc where
  start: "flow fc 0 0 fc"
| send: "flow fc g s fc' \<Longrightarrow> can_send n fc' \<Longrightarrow> flow fc g (s + unat n) (on_send n fc')"
| update: "flow fc g s fc' \<Longrightarrow> unat (window_remaining fc') + unat inc < 2 ^ 64 \<Longrightarrow>
     flow fc (g + unat inc) s (on_window_update inc fc')"

lemma flow_balance:
  "flow fc g s fc' \<Longrightarrow> unat (window_remaining fc') + s = unat (window_remaining fc) + g"
proof (induction rule: flow.induct)
  case (send g s fc' n)
  then show ?case by (simp add: can_send_def on_send_def unat_diff word_le_nat_alt)
next
  case (update g s fc' inc)
  then show ?case by (simp add: on_window_update_def unat_word_ariths)
qed simp

text \<open>
  C30. Flow control is exact: along every schedule of sends the window permits and
  of window updates that do not overflow, the bytes sent never exceed the bytes
  granted, and the remaining window is their difference.
\<close>

theorem flow_control_exact:
  assumes "flow fc granted sent fc'"
  shows "sent \<le> unat (window_remaining fc) + granted \<and>
         unat (window_remaining fc') = unat (window_remaining fc) + granted - sent"
  using flow_balance [OF assms] by linarith

theorem flow_control_exact_witness:
  "\<exists>fc'. flow \<lparr>window_size = 10, window_remaining = 10\<rparr> 5 7 fc' \<and> unat (window_remaining fc') = 8"
proof -
  let ?fc = "\<lparr>window_size = 10, window_remaining = 10\<rparr>"
  have "flow ?fc (0 + unat (5 :: u64)) (0 + unat (7 :: u64)) (on_window_update 5 (on_send 7 ?fc))"
    by (intro flow.intros) (simp_all add: can_send_def on_send_def)
  then have "flow ?fc 5 7 (on_window_update 5 (on_send 7 ?fc))" by simp
  then show ?thesis using flow_control_exact [of ?fc 5 7] by fastforce
qed

text \<open>A send that was not checked first wraps around to a window of almost 2^64.\<close>

lemma unchecked_send_wraps:
  "window_remaining (on_send 1 \<lparr>window_size = 65536, window_remaining = 0\<rparr>) = - 1"
  by (simp add: on_send_def)

end
