(* ===== verification/Certificate.thy ===== *)
theory Certificate
  imports Wire Hex
begin

text \<open>
  Certificates, certificate chains and signing requests of core/certificate/certificate.hpp
  and certificate.cpp.  The signer and the hash of the crypto provider are arguments: a
  signature check takes the body, the signature and the public key and returns a
  Result, and a provider without one is None.

  A role is the byte its enum stores: deserialize casts any byte to Role.  Readers
  take the bytes from the code's offset on; the length prefix is the 32-bit one of
  the code, so a field of 2^32 bytes or more does not survive.
\<close>

section \<open>Primitive fields\<close>

definition append_u32 :: "u32 \<Rightarrow> bytes" where
  "append_u32 v = [ucast (drop_bit 24 v), ucast (drop_bit 16 v), ucast (drop_bit 8 v), ucast v]"

definition append_u64 :: "u64 \<Rightarrow> bytes" where
  "append_u64 v = append_u32 (ucast (drop_bit 32 v)) @ append_u32 (ucast v)"

definition append_bytes :: "bytes \<Rightarrow> bytes" where
  "append_bytes data = append_u32 (of_nat (length data)) @ data"

definition read_u32 :: "bytes \<Rightarrow> (u32 \<times> bytes) option" where
  "read_u32 data =
     (if length data < 4 then None
      else Some (push_bit 24 (ucast (data ! 0)) OR push_bit 16 (ucast (data ! 1))
                 OR push_bit 8 (ucast (data ! 2)) OR ucast (data ! 3), drop 4 data))"

definition read_u64 :: "bytes \<Rightarrow> (u64 \<times> bytes) option" where
  "read_u64 data =
     (case read_u32 data of
        None \<Rightarrow> None
      | Some (hi, r) \<Rightarrow>
          (case read_u32 r of
             None \<Rightarrow> None
           | Some (lo, r') \<Rightarrow> Some (push_bit 32 (ucast hi) OR ucast lo, r')))"

definition read_bytes :: "bytes \<Rightarrow> (bytes \<times> bytes) option" where
  "read_bytes data =
     (case read_u32 data of
        None \<Rightarrow> None
      | Some (len, r) \<Rightarrow> if length r < unat len then None else Some (take (unat len) r, drop (unat len) r))"

text \<open>The early return with the error of the failing field.\<close>

definition need :: "error_code \<Rightarrow> ('a \<times> bytes) option \<Rightarrow> ('a \<Rightarrow> bytes \<Rightarrow> 'b result) \<Rightarrow> 'b result" where
  "need e r f = (case r of None \<Rightarrow> Err e | Some (x, rest) \<Rightarrow> f x rest)"

section \<open>Certificates\<close>

type_synonym Role = byte

definition Role_Root :: Role where "Role_Root = 0"
definition Role_Authority :: Role where "Role_Authority = 1"
definition Role_Contributor :: Role where "Role_Contributor = 2"
definition Role_Reader :: Role where "Role_Reader = 3"
definition Role_Observer :: Role where "Role_Observer = 4"
definition Role_Member :: Role where "Role_Member = 5"
definition Role_Recovery :: Role where "Role_Recovery = 6"

definition role_to_string :: "Role \<Rightarrow> string" where
  "role_to_string r =
     (if r = Role_Root then ''Root''
      else if r = Role_Authority then ''Authority''
      else if r = Role_Contributor then ''Contributor''
      else if r = Role_Reader then ''Reader''
      else if r = Role_Observer then ''Observer''
      else ''Unknown'')"

definition role_deprecate_reader :: "Role \<Rightarrow> bool \<Rightarrow> Role \<times> bool" where
  "role_deprecate_reader r warned = (if r = Role_Reader then (Role_Member, True) else (r, warned))"

record Certificate =
  subject_pubkey :: bytes
  issuer_pubkey :: bytes
  mesh_id :: bytes
  role :: Role
  display_name :: bytes
  capabilities :: bytes
  cert_epoch :: u64
  not_before :: i64
  not_after :: i64
  signature :: bytes

abbreviation err_cert :: error_code where
  "err_cert \<equiv> smo_err CatCertificate 203 SevError NoRetry Reenroll"

definition cert_serialize :: "Certificate \<Rightarrow> bytes" where
  "cert_serialize c =
     append_bytes (mesh_id c) @ append_bytes (subject_pubkey c) @ append_bytes (issuer_pubkey c)
     @ [role c] @ append_bytes (display_name c) @ append_bytes (capabilities c)
     @ append_u64 (cert_epoch c) @ append_u64 (not_before c) @ append_u64 (not_after c)"

definition cert_serialize_full :: "Certificate \<Rightarrow> bytes" where
  "cert_serialize_full c = cert_serialize c @ append_bytes (signature c)"

definition read_byte :: "bytes \<Rightarrow> (byte \<times> bytes) option" where
  "read_byte data = (case data of [] \<Rightarrow> None | b # r \<Rightarrow> Some (b, r))"

definition cert_deserialize :: "bytes \<Rightarrow> Certificate result" where
  "cert_deserialize data =
     need err_cert (read_bytes data) (\<lambda>mesh r.
     need err_cert (read_bytes r) (\<lambda>subject r.
     need err_cert (read_bytes r) (\<lambda>issuer r.
     need err_cert (read_byte r) (\<lambda>rl r.
     need err_cert (read_bytes r) (\<lambda>dn r.
     need err_cert (read_bytes r) (\<lambda>caps r.
     need err_cert (read_u64 r) (\<lambda>ep r.
     need err_cert (read_u64 r) (\<lambda>nb r.
     need err_cert (read_u64 r) (\<lambda>na r.
       let c = \<lparr>subject_pubkey = subject, issuer_pubkey = issuer, mesh_id = mesh, role = rl,
                display_name = dn, capabilities = caps, cert_epoch = ep, not_before = nb, not_after = na,
                signature = []\<rparr>
       in if r \<noteq> [] then need err_cert (read_bytes r) (\<lambda>sig _. Ok (c\<lparr>signature := sig\<rparr>))
          else Ok c)))))))))"

type_synonym verify_fn = "bytes \<Rightarrow> bytes \<Rightarrow> bytes \<Rightarrow> bool result"

definition cert_hash :: "(bytes \<Rightarrow> bytes result) \<Rightarrow> Certificate \<Rightarrow> bytes result" where
  "cert_hash hash c = hash (cert_serialize c)"

definition cert_verify :: "verify_fn \<Rightarrow> Certificate \<Rightarrow> bool result" where
  "cert_verify vf c =
     (if signature c = [] then Err (smo_err CatCertificate 204 Alert NoRetry RecNone)
      else vf (cert_serialize c) (signature c) (issuer_pubkey c))"

definition cert_valid_at :: "i64 \<Rightarrow> Certificate \<Rightarrow> bool" where
  "cert_valid_at ts c \<longleftrightarrow> not_before c \<le>s ts \<and> ts \<le>s not_after c"

section \<open>Chains\<close>

type_synonym CertificateChain = "Certificate list"

text \<open>The loop of both verifications; they differ in the test on the issuer of the last
  certificate.\<close>

fun chain_loop :: "verify_fn \<Rightarrow> (bytes \<Rightarrow> bool) \<Rightarrow> CertificateChain \<Rightarrow> unit result" where
  "chain_loop vf anchor [] = Ok ()"
| "chain_loop vf anchor (c # cs) =
     rbind (vf (cert_serialize c) (signature c) (issuer_pubkey c)) (\<lambda>ok.
       if \<not> ok then Err (smo_err CatCertificate 204 Alert NoRetry RecNone)
       else case cs of
         nxt # _ \<Rightarrow>
           if issuer_pubkey c \<noteq> subject_pubkey nxt
           then Err (smo_err CatCertificate 217 SevError NoRetry ManualIntervention)
           else chain_loop vf anchor cs
       | [] \<Rightarrow>
           if \<not> anchor (issuer_pubkey c)
           then Err (smo_err CatCertificate 218 Alert NoRetry ManualIntervention)
           else Ok ())"

definition chain_verify :: "verify_fn option \<Rightarrow> bytes \<Rightarrow> CertificateChain \<Rightarrow> unit result" where
  "chain_verify vf root certs =
     (if certs = [] then Err (smo_err CatCertificate 200 SevError NoRetry Reenroll)
      else case vf of
        None \<Rightarrow> Err err_cert
      | Some v \<Rightarrow> chain_loop v (\<lambda>issuer. issuer = root) certs)"

definition trusted_issuers :: "i64 \<Rightarrow> bytes \<Rightarrow> Certificate list \<Rightarrow> (string \<rightharpoonup> bytes)" where
  "trusted_issuers now root inters =
     foldl (\<lambda>m c. if cert_valid_at now c then m(bytes_to_hex (subject_pubkey c) \<mapsto> subject_pubkey c) else m)
       [bytes_to_hex root \<mapsto> root] inters"

definition chain_verify_with_intermediates ::
  "verify_fn option \<Rightarrow> i64 \<Rightarrow> bytes \<Rightarrow> Certificate list \<Rightarrow> CertificateChain \<Rightarrow> unit result" where
  "chain_verify_with_intermediates vf now root inters certs =
     (if certs = [] then Err (smo_err CatCertificate 200 SevError NoRetry Reenroll)
      else case vf of
        None \<Rightarrow> Err err_cert
      | Some v \<Rightarrow> chain_loop v (\<lambda>issuer. trusted_issuers now root inters (bytes_to_hex issuer) \<noteq> None) certs)"

definition chain_valid_at :: "i64 \<Rightarrow> CertificateChain \<Rightarrow> bool" where
  "chain_valid_at ts certs = list_all (cert_valid_at ts) certs"

section \<open>Signing requests\<close>

record CertificateSigningRequest =
  new_public_key :: bytes
  csr_mesh_id :: bytes
  old_cert_hash :: bytes
  csr_display_name :: bytes
  platform :: bytes
  version :: bytes
  csr_timestamp :: i64
  csr_signature :: bytes

abbreviation err_csr :: error_code where
  "err_csr \<equiv> smo_err CatCertificate 209 Alert NoRetry RecNone"

definition csr_serialize_body :: "CertificateSigningRequest \<Rightarrow> bytes" where
  "csr_serialize_body r =
     append_bytes (new_public_key r) @ append_bytes (csr_mesh_id r) @ append_bytes (old_cert_hash r)
     @ append_bytes (csr_display_name r) @ append_bytes (platform r) @ append_bytes (version r)
     @ append_u64 (csr_timestamp r)"

definition csr_serialize :: "CertificateSigningRequest \<Rightarrow> bytes" where
  "csr_serialize r = csr_serialize_body r @ append_bytes (csr_signature r)"

definition csr_deserialize :: "bytes \<Rightarrow> CertificateSigningRequest result" where
  "csr_deserialize data =
     need err_csr (read_bytes data) (\<lambda>pk r.
     need err_csr (read_bytes r) (\<lambda>mesh r.
     need err_csr (read_bytes r) (\<lambda>old r.
     need err_csr (read_bytes r) (\<lambda>dn r.
     need err_csr (read_bytes r) (\<lambda>plat r.
     need err_csr (read_bytes r) (\<lambda>ver r.
     need err_csr (read_u64 r) (\<lambda>ts r.
     need err_csr (read_bytes r) (\<lambda>sig r.
       Ok \<lparr>new_public_key = pk, csr_mesh_id = mesh, old_cert_hash = old, csr_display_name = dn,
           platform = plat, version = ver, csr_timestamp = ts, csr_signature = sig\<rparr>))))))))"

definition csr_verify :: "verify_fn \<Rightarrow> bytes \<Rightarrow> CertificateSigningRequest \<Rightarrow> bool result" where
  "csr_verify vf pk r =
     (if csr_signature r = [] then Err err_csr
      else vf (csr_serialize_body r) (csr_signature r) pk)"

definition csr_sign ::
  "(bytes \<Rightarrow> bytes \<Rightarrow> bytes result) \<Rightarrow> bytes \<Rightarrow> CertificateSigningRequest \<Rightarrow> CertificateSigningRequest \<times> unit result" where
  "csr_sign sign sk r =
     (case sign (csr_serialize_body r) sk of
        Err e \<Rightarrow> (r, Err e)
      | Ok sig \<Rightarrow> (r\<lparr>csr_signature := sig\<rparr>, Ok ()))"

section \<open>Fields are read back\<close>

lemma append_u32_be: "append_u32 v = write_be 4 v"
  by (simp add: append_u32_def numeral_eq_Suc)

lemma append_u64_length [simp]: "length (append_u64 v) = 8"
  by (simp add: append_u64_def append_u32_def)

lemma read_u32_be: "read_u32 data = (if length data < 4 then None else Some (read_be 4 data))"
proof (cases "length data < 4")
  case False
  then obtain a b c d r where d: "data = a # b # c # d # r"
    by (auto simp: not_less numeral_eq_Suc Suc_le_length_iff)
  show ?thesis unfolding d by (simp add: read_u32_def read_be_def numeral_eq_Suc push_bit_or ac_simps)
qed (simp add: read_u32_def)

lemma read_u32_append [simp]: "read_u32 (append_u32 v @ r) = Some (v, r)"
  by (simp add: read_u32_be append_u32_be wire_simps)

lemma join_halves: "push_bit 32 (ucast (ucast (drop_bit 32 v) :: u32)) OR ucast (ucast v :: u32) = v" for v :: u64
proof (rule bit_word_eqI)
  fix k assume "k < LENGTH(64)"
  then show "bit (push_bit 32 (ucast (ucast (drop_bit 32 v) :: u32)) OR ucast (ucast v :: u32) :: u64) k = bit v k"
    by (cases "k < 32") (auto simp: bit_simps)
qed

lemma read_u64_append [simp]: "read_u64 (append_u64 v @ r) = Some (v, r)"
  using join_halves [of v] by (simp add: read_u64_def append_u64_def)

definition fits :: "bytes \<Rightarrow> bool" where
  "fits data \<longleftrightarrow> length data < 2 ^ 32"

lemma read_bytes_append [simp]: "fits data \<Longrightarrow> read_bytes (append_bytes data @ r) = Some (data, r)"
  by (simp add: read_bytes_def append_bytes_def fits_def unat_of_nat_lt)

lemma read_bytes_append_end [simp]: "fits data \<Longrightarrow> read_bytes (append_bytes data) = Some (data, [])"
  using read_bytes_append [of data "[]"] by simp

lemma read_u64_append_end [simp]: "read_u64 (append_u64 v) = Some (v, [])"
  using read_u64_append [of v "[]"] by simp

lemma append_bytes_nonempty [simp]: "append_bytes data \<noteq> []"
  by (simp add: append_bytes_def append_u32_def)

lemma need_Some [simp]: "need e (Some (x, r)) f = f x r" and need_None [simp]: "need e None f = Err e"
  by (simp_all add: need_def)

interpretation field_codec: stream_codec append_bytes "\<lambda>bs. need err_cert (read_bytes bs) (\<lambda>x r. Ok (x, r))" fits
  by unfold_locales simp

section \<open>Certificates are read back\<close>

definition cert_wf :: "Certificate \<Rightarrow> bool" where
  "cert_wf c \<longleftrightarrow> fits (mesh_id c) \<and> fits (subject_pubkey c) \<and> fits (issuer_pubkey c) \<and>
     fits (display_name c) \<and> fits (capabilities c) \<and> fits (signature c)"

lemma read_byte_Cons [simp]: "read_byte (b # r) = Some (b, r)"
  by (simp add: read_byte_def)

lemma cert_deserialize_body:
  assumes "cert_wf c"
  shows "cert_deserialize (cert_serialize c) = Ok (c\<lparr>signature := []\<rparr>)"
    and "cert_deserialize (cert_serialize_full c) = Ok c"
  using assms
  by (simp_all add: cert_wf_def cert_deserialize_def cert_serialize_def cert_serialize_full_def)

interpretation cert_codec: codec cert_serialize_full cert_deserialize cert_wf
  by unfold_locales (rule cert_deserialize_body)

definition csr_wf :: "CertificateSigningRequest \<Rightarrow> bool" where
  "csr_wf r \<longleftrightarrow> fits (new_public_key r) \<and> fits (csr_mesh_id r) \<and> fits (old_cert_hash r) \<and>
     fits (csr_display_name r) \<and> fits (platform r) \<and> fits (version r) \<and> fits (csr_signature r)"

interpretation csr_codec: codec csr_serialize csr_deserialize csr_wf
  by unfold_locales (simp add: csr_wf_def csr_deserialize_def csr_serialize_def csr_serialize_body_def)

text \<open>
  C22. A certificate is read back from its full encoding, and the signed body
  determines every field but the signature: two certificates with the same body
  agree on keys, mesh, role, name, capabilities, epoch and validity.
\<close>

theorem certificate_body_binding:
  assumes "cert_wf c" "cert_wf d"
  shows "cert_deserialize (cert_serialize_full c) = Ok c \<and>
         (cert_serialize c = cert_serialize d \<longleftrightarrow> c\<lparr>signature := []\<rparr> = d\<lparr>signature := []\<rparr>)"
proof -
  have "cert_serialize (x\<lparr>signature := []\<rparr>) = cert_serialize x" for x
    by (simp add: cert_serialize_def)
  then have "cert_serialize c = cert_serialize d \<longleftrightarrow> c\<lparr>signature := []\<rparr> = d\<lparr>signature := []\<rparr>"
    using cert_deserialize_body(1) [OF assms(1)] cert_deserialize_body(1) [OF assms(2)]
    by (metis result.inject(1))
  then show ?thesis using cert_deserialize_body(2) [OF assms(1)] by simp
qed

definition sample_cert :: "bytes \<Rightarrow> bytes \<Rightarrow> Certificate" where
  "sample_cert subject issuer =
     \<lparr>subject_pubkey = subject, issuer_pubkey = issuer, mesh_id = [9], role = Role_Authority,
      display_name = [], capabilities = [], cert_epoch = 1, not_before = 0, not_after = 10, signature = [5]\<rparr>"

theorem certificate_body_binding_witness:
  "cert_deserialize (cert_serialize_full (sample_cert [1] [2])) = Ok (sample_cert [1] [2]) \<and>
   cert_serialize (sample_cert [1] [2]) \<noteq> cert_serialize (sample_cert [3] [2])"
  using certificate_body_binding [of "sample_cert [1] [2]" "sample_cert [3] [2]"]
  by (simp add: cert_wf_def fits_def sample_cert_def)

section \<open>Chains and trust\<close>

text \<open>What a chain is meant to establish: starting at the root key, a trusted key that
  signed the body of a certificate makes the subject of that certificate
  trusted.\<close>

inductive certified :: "verify_fn \<Rightarrow> bytes \<Rightarrow> bytes \<Rightarrow> bool" for vf root where
  by_root: "vf (cert_serialize c) sig root = Ok True \<Longrightarrow> issuer_pubkey c = root \<Longrightarrow>
     certified vf root (subject_pubkey c)"
| by_key: "certified vf root k \<Longrightarrow> vf (cert_serialize c) sig k = Ok True \<Longrightarrow> issuer_pubkey c = k \<Longrightarrow>
     certified vf root (subject_pubkey c)"

lemma chain_loop_certified:
  "chain_loop vf (\<lambda>i. i = root) (c # cs) = Ok () \<Longrightarrow> certified vf root (subject_pubkey c)"
proof (induction cs arbitrary: c)
  case Nil
  then show ?case by (auto simp: rbind_eq_Ok intro: certified.by_root split: if_splits)
next
  case (Cons d cs)
  then have "vf (cert_serialize c) (signature c) (issuer_pubkey c) = Ok True"
      "issuer_pubkey c = subject_pubkey d" "chain_loop vf (\<lambda>i. i = root) (d # cs) = Ok ()"
    by (auto simp: rbind_eq_Ok split: if_splits)
  with Cons.IH [of d] show ?case by (metis certified.by_key)
qed

lemma cert_serialize_sig [simp]: "cert_serialize (c\<lparr>signature := s\<rparr>) = cert_serialize c"
  by (simp add: cert_serialize_def)

lemma certified_chain:
  "certified vf root k \<Longrightarrow>
    \<exists>c cs. chain_loop vf (\<lambda>i. i = root) (c # cs) = Ok () \<and> subject_pubkey c = k"
proof (induction rule: certified.induct)
  case (by_root c sig)
  then show ?case by (intro exI [of _ "c\<lparr>signature := sig\<rparr>"] exI [of _ "[]"]) simp
next
  case (by_key k c sig)
  then obtain d ds where "chain_loop vf (\<lambda>i. i = root) (d # ds) = Ok ()" "subject_pubkey d = k" by blast
  with by_key show ?case
    by (intro exI [of _ "c\<lparr>signature := sig\<rparr>"] exI [of _ "d # ds"]) (simp del: chain_loop.simps, simp)
qed

text \<open>
  C8. Chain verification decides trust: there is a chain that the verifier accepts
  for a leaf key exactly when the key is certified, that is when signatures lead
  to it step by step from the root key.
\<close>

theorem chain_verify_iff_certified:
  "(\<exists>certs. chain_verify (Some vf) root certs = Ok () \<and> subject_pubkey (hd certs) = k) \<longleftrightarrow>
   certified vf root k"
proof
  assume "\<exists>certs. chain_verify (Some vf) root certs = Ok () \<and> subject_pubkey (hd certs) = k"
  then obtain c cs where "chain_verify (Some vf) root (c # cs) = Ok ()" "subject_pubkey c = k"
    by (metis chain_verify_def list.exhaust list.sel(1) result.distinct(1))
  then show "certified vf root k" using chain_loop_certified [of vf root c cs] by (simp add: chain_verify_def)
next
  assume "certified vf root k"
  then obtain c cs where "chain_loop vf (\<lambda>i. i = root) (c # cs) = Ok ()" "subject_pubkey c = k"
    using certified_chain by blast
  then show "\<exists>certs. chain_verify (Some vf) root certs = Ok () \<and> subject_pubkey (hd certs) = k"
    by (intro exI [of _ "c # cs"]) (simp add: chain_verify_def)
qed

text \<open>The intermediates only widen the set of accepted anchors.\<close>

lemma trusted_issuers_iff:
  "trusted_issuers now root inters (bytes_to_hex k) \<noteq> None \<longleftrightarrow>
     k = root \<or> (\<exists>c \<in> set inters. cert_valid_at now c \<and> subject_pubkey c = k)"
proof -
  have "foldl (\<lambda>m c. if cert_valid_at now c then m(bytes_to_hex (subject_pubkey c) \<mapsto> subject_pubkey c) else m)
      m inters (bytes_to_hex k) \<noteq> None \<longleftrightarrow>
      m (bytes_to_hex k) \<noteq> None \<or> (\<exists>c \<in> set inters. cert_valid_at now c \<and> subject_pubkey c = k)" for m
    by (induction inters arbitrary: m) auto
  then show ?thesis by (auto simp: trusted_issuers_def)
qed

lemma chain_verify_no_intermediates:
  "chain_verify_with_intermediates vf now root [] certs = chain_verify vf root certs"
  using trusted_issuers_iff [of now root "[]"]
  by (simp add: chain_verify_with_intermediates_def chain_verify_def split: option.splits)

text \<open>A signed request verifies under the key pair's public half.\<close>

lemma csr_sign_verify:
  assumes "\<And>m sig. sign m sk = Ok sig \<Longrightarrow> sig \<noteq> [] \<and> vf m sig pk = Ok True"
    and "csr_sign sign sk r = (r', Ok ())"
  shows "csr_verify vf pk r' = Ok True"
  using assms by (auto simp: csr_sign_def csr_verify_def csr_serialize_body_def split: result.splits)

end
