(* ===== verification/Event_Scan.thy ===== *)
theory Event_Scan
  imports Context_Value
begin

text \<open>
  The ad-hoc scanning of event payloads that the listeners of RecoveryApproved share
  (core/recovery/crl.cpp, core/session/session.cpp, core/runtime/event_registry_service.cpp):
  std::string::find, the two lambdas extract_field and extract_uint, and std::stoull.
  std::string is a byte list.  stoull throws when there is no number or when it
  does not fit: None.
\<close>

section \<open>Searching\<close>

fun find_sub :: "bytes \<Rightarrow> bytes \<Rightarrow> nat option" where
  "find_sub pat [] = (if pat = [] then Some 0 else None)"
| "find_sub pat (b # s) = (if take (length pat) (b # s) = pat then Some 0 else map_option Suc (find_sub pat s))"

definition find_first_of :: "byte set \<Rightarrow> bytes \<Rightarrow> nat option" where
  "find_first_of cs s = (let n = length (takeWhile (\<lambda>b. b \<notin> cs) s) in if n < length s then Some n else None)"

definition quote :: byte where "quote = 0x22"
definition lbrace :: byte where "lbrace = 0x7B"
definition rbrace :: byte where "rbrace = 0x7D"
definition comma :: byte where "comma = 0x2C"
definition colon :: byte where "colon = 0x3A"

definition extract_field :: "bytes \<Rightarrow> bytes \<Rightarrow> bytes" where
  "extract_field json key =
     (let search = [quote] @ key @ [quote, colon, quote] in
      case find_sub search json of
        None \<Rightarrow> []
      | Some pos \<Rightarrow>
          let rest = drop (pos + length search) json in
          (case find_sub [quote] rest of None \<Rightarrow> [] | Some len \<Rightarrow> take len rest))"

section \<open>Numbers\<close>

definition is_space :: "byte \<Rightarrow> bool" where
  "is_space b \<longleftrightarrow> b = 0x20 \<or> (0x09 \<le> b \<and> b \<le> 0x0D)"

definition is_digit :: "byte \<Rightarrow> bool" where
  "is_digit b \<longleftrightarrow> 0x30 \<le> b \<and> b \<le> 0x39"

definition stoull :: "bytes \<Rightarrow> u64 option" where
  "stoull s =
     (let s1 = dropWhile is_space s;
          neg = (s1 \<noteq> [] \<and> hd s1 = 0x2D);
          s2 = (if s1 \<noteq> [] \<and> (hd s1 = 0x2D \<or> hd s1 = 0x2B) then tl s1 else s1);
          ds = takeWhile is_digit s2;
          n = foldl (\<lambda>n d. 10 * n + (unat d - 48)) 0 ds
      in if ds = [] then None
         else if 2 ^ 64 \<le> n then None
         else Some (if neg then - of_nat n else of_nat n))"

definition extract_uint :: "bytes \<Rightarrow> bytes \<Rightarrow> u64 option" where
  "extract_uint json key =
     (let search = [quote] @ key @ [quote, colon] in
      case find_sub search json of
        None \<Rightarrow> Some 0
      | Some pos \<Rightarrow>
          let rest = drop (pos + length search) json in
          (case find_first_of {comma, rbrace} rest of None \<Rightarrow> Some 0 | Some len \<Rightarrow> stoull (take len rest)))"

text \<open>The part of the payload from its first opening brace on.\<close>

definition json_part :: "bytes \<Rightarrow> bytes option" where
  "json_part payload = map_option (\<lambda>pos. drop pos payload) (find_sub [lbrace] payload)"

section \<open>Facts on searching\<close>

lemma find_sub_here: "take (length pat) s = pat \<Longrightarrow> find_sub pat s = Some 0"
  by (cases s) auto

lemma find_sub_single_append: "b \<notin> set s \<Longrightarrow> find_sub [b] (s @ b # r) = Some (length s)"
  by (induction s) auto

lemma find_sub_single_None: "find_sub [b] s = None \<longleftrightarrow> b \<notin> set s"
  by (induction s) auto

text \<open>A pattern that starts with a byte absent from the prefix is found after it.\<close>

lemma find_sub_skip:
  assumes "p \<notin> set s"
  shows "find_sub (p # pat) (s @ r) = map_option ((+) (length s)) (find_sub (p # pat) r)"
  using assms
proof (induction s)
  case (Cons x s)
  then show ?case by (cases "find_sub (p # pat) r") auto
qed (cases "find_sub (p # pat) r"; simp)

lemma extract_field_here:
  assumes "quote \<notin> set v"
  shows "extract_field ([quote] @ key @ [quote, colon, quote] @ v @ quote # r) key = v"
proof -
  let ?s = "[quote] @ key @ [quote, colon, quote]"
  have "find_sub ?s (?s @ v @ quote # r) = Some 0" by (rule find_sub_here) simp
  moreover have "find_sub [quote] (v @ quote # r) = Some (length v)"
    using assms by (rule find_sub_single_append)
  ultimately show ?thesis by (simp add: extract_field_def Let_def)
qed

text \<open>When a prefix can be skipped: searching behind it gives the same place.\<close>

definition skips :: "bytes \<Rightarrow> bytes \<Rightarrow> bytes \<Rightarrow> bool" where
  "skips pat s r \<longleftrightarrow> find_sub pat (s @ r) = map_option ((+) (length s)) (find_sub pat r)"

lemma skips_append: "skips pat s (t @ r) \<Longrightarrow> skips pat t r \<Longrightarrow> skips pat (s @ t) r"
  by (cases "find_sub pat r") (simp_all add: skips_def)

lemma skips_absent: "p \<notin> set s \<Longrightarrow> skips (p # pat) s r"
  by (simp add: skips_def find_sub_skip)

lemma skips_one: "take (length pat) (b # r) \<noteq> pat \<Longrightarrow> skips pat [b] r"
  by (cases "find_sub pat r") (simp_all add: skips_def)

lemma quoted_prefix:
  assumes "quote \<notin> set v" "quote \<notin> set key"
    and "take (length (key @ quote # w)) (v @ quote # r) = key @ quote # w"
  shows "v = key \<and> take (length w) r = w"
proof -
  have "takeWhile (\<lambda>b. b \<noteq> quote) (v @ quote # r) = takeWhile (\<lambda>b. b \<noteq> quote) (key @ quote # w @ drop (length (key @ quote # w)) (v @ quote # r))"
    using assms(3) append_take_drop_id [of "length (key @ quote # w)" "v @ quote # r"] by simp
  moreover have "takeWhile (\<lambda>b. b \<noteq> quote) (x @ quote # y) = x" if "quote \<notin> set x" for x y
    using that by (induction x) auto
  ultimately have "v = key" using assms(1,2) by metis
  with assms(3) show ?thesis by simp
qed

text \<open>A quoted string is skipped unless it is the key looked for, followed by a colon.\<close>

lemma skips_quoted:
  assumes "quote \<notin> set v" "quote \<notin> set key" "v \<noteq> key \<or> b \<noteq> colon"
  shows "skips (quote # key @ quote # colon # t) (quote # v) (quote # b # r)"
proof -
  let ?pat = "quote # key @ quote # colon # t"
  have "take (length ?pat) (quote # v @ quote # b # r) \<noteq> ?pat"
  proof
    assume "take (length ?pat) (quote # v @ quote # b # r) = ?pat"
    then have "take (length (key @ quote # colon # t)) (v @ quote # b # r) = key @ quote # colon # t" by simp
    from quoted_prefix [OF assms(1,2) this] assms(3) show False by simp
  qed
  then have "skips ?pat [quote] (v @ quote # b # r)" by (intro skips_one) simp
  moreover have "skips ?pat v (quote # b # r)" using assms(1) by (rule skips_absent)
  ultimately show ?thesis using skips_append [of ?pat "[quote]" v] by simp
qed

definition json_field :: "bytes \<Rightarrow> bytes \<Rightarrow> bytes" where
  "json_field k v = [quote] @ k @ [quote, colon, quote] @ v @ [quote, comma]"

lemma skips_field:
  assumes "quote \<notin> set k" "quote \<notin> set v" "quote \<notin> set key" "k \<noteq> key"
    and key: "key \<noteq> []" "hd key \<noteq> colon" "hd key \<noteq> comma"
  shows "skips (quote # key @ quote # colon # t) (json_field k v) r"
proof -
  let ?pat = "quote # key @ quote # colon # t"
  have punct: "skips ?pat [quote, b] r'" if "b \<in> {colon, comma}" for b r'
  proof -
    have "skips ?pat [quote] ([b] @ r')" using key that by (intro skips_one) (cases key; auto)
    moreover have "skips ?pat [b] r'" using that by (intro skips_absent) (auto simp: quote_def colon_def comma_def)
    ultimately show ?thesis using skips_append [of ?pat "[quote]" "[b]"] by simp
  qed
  have "skips ?pat (quote # k) (quote # colon # quote # v @ quote # comma # r)"
    using assms by (intro skips_quoted) auto
  moreover have "skips ?pat (quote # v) (quote # comma # r)"
    using assms by (intro skips_quoted) (auto simp: colon_def comma_def)
  ultimately have "skips ?pat ((quote # k) @ [quote, colon] @ (quote # v) @ [quote, comma]) r"
    using punct by (intro skips_append) simp_all
  then show ?thesis by (simp add: json_field_def)
qed

lemma extract_field_skips:
  assumes "skips ([quote] @ key @ [quote, colon, quote]) s r"
  shows "extract_field (s @ r) key = extract_field r key"
  using assms
  by (cases "find_sub ([quote] @ key @ [quote, colon, quote]) r")
    (simp_all add: skips_def extract_field_def Let_def eval_nat_numeral)

lemma extract_uint_skips:
  assumes "skips ([quote] @ key @ [quote, colon]) s r"
  shows "extract_uint (s @ r) key = extract_uint r key"
  using assms
  by (cases "find_sub ([quote] @ key @ [quote, colon]) r")
    (simp_all add: skips_def extract_uint_def Let_def eval_nat_numeral)

section \<open>Decimal numbers\<close>

text \<open>Printing an unsigned number (operator<< and std::to_string).\<close>

fun decimal :: "nat \<Rightarrow> bytes" where
  "decimal n = (if n < 10 then [of_nat (48 + n)] else decimal (n div 10) @ [of_nat (48 + n mod 10)])"

declare decimal.simps [simp del]

lemma digit_byte: "n < 10 \<Longrightarrow> unat (of_nat (48 + n) :: byte) = 48 + n"
  by (rule unat_of_nat_lt) simp

lemma digit_not_space: "is_digit b \<Longrightarrow> \<not> is_space b"
  by (auto simp: is_digit_def is_space_def word_le_nat_alt)

lemma decimal_digits: "b \<in> set (decimal n) \<Longrightarrow> is_digit b"
proof (induction n rule: decimal.induct)
  case (1 n)
  have "is_digit (of_nat (48 + m))" if "m < 10" for m
    using that by (simp add: is_digit_def word_le_nat_alt digit_byte del: of_nat_add)
  with 1 show ?case by (auto simp: decimal.simps [of n] split: if_splits)
qed

lemma decimal_value: "foldl (\<lambda>n d. 10 * n + (unat d - 48)) 0 (decimal n) = n"
proof (induction n rule: decimal.induct)
  case (1 n)
  then show ?case
    by (simp add: decimal.simps [of n] digit_byte del: of_nat_add)
qed

lemma decimal_nonempty [simp]: "decimal n \<noteq> []"
  by (simp add: decimal.simps [of n])

lemma stoull_decimal: "stoull (decimal (unat v)) = Some v"
proof -
  let ?d = "decimal (unat v)"
  have dig: "is_digit (hd ?d)" using decimal_digits [of "hd ?d" "unat v"] by simp
  then have "dropWhile is_space ?d = ?d" by (cases ?d) (auto dest: digit_not_space)
  moreover have "hd ?d \<noteq> 0x2D \<and> hd ?d \<noteq> 0x2B" using dig by (auto simp: is_digit_def)
  moreover have "takeWhile is_digit ?d = ?d" using decimal_digits by (auto simp: takeWhile_eq_all_conv)
  moreover have "\<not> 2 ^ 64 \<le> unat v" using unsigned_less [of v, where 'a = nat] by simp
  ultimately show ?thesis by (simp add: stoull_def Let_def decimal_value del: takeWhile_eq_all_conv)
qed

end
