(* ===== verification/Crl.thy ===== *)
theory Crl
  imports Event_Scan
begin

text \<open>
  The certificate revocation list of core/recovery/crl.hpp and crl.cpp with its wire
  format and messages.  Strings are byte lists; the wall clock of on_recovery_approved
  is an argument.
\<close>

section \<open>The list\<close>

record CRLEntry =
  cert_fingerprint :: bytes
  node_id_hex :: bytes
  reason :: bytes
  entry_epoch :: u64
  revoked_at :: i64

type_synonym CRL = "CRLEntry list"

definition revoke :: "bytes \<Rightarrow> bytes \<Rightarrow> bytes \<Rightarrow> u64 \<Rightarrow> i64 \<Rightarrow> CRL \<Rightarrow> CRL \<times> unit result" where
  "revoke fp nid rsn ep now crl =
     (if list_ex (\<lambda>e. cert_fingerprint e = fp) crl
      then (crl, Err (smo_err CatTrust 207 Warn NoRetry RecNone))
      else (crl @ [\<lparr>cert_fingerprint = fp, node_id_hex = nid, reason = rsn, entry_epoch = ep, revoked_at = now\<rparr>],
            Ok ()))"

definition is_revoked :: "bytes \<Rightarrow> CRL \<Rightarrow> bool result" where
  "is_revoked fp crl = Ok (list_ex (\<lambda>e. cert_fingerprint e = fp) crl)"

definition is_epoch_invalid :: "u64 \<Rightarrow> u64 \<Rightarrow> bool" where
  "is_epoch_invalid cert_ep current \<longleftrightarrow> cert_ep < current"

definition entries_since :: "u64 \<Rightarrow> CRL \<Rightarrow> CRLEntry list" where
  "entries_since ep crl = filter (\<lambda>e. ep \<le> entry_epoch e) crl"

definition crl_clear :: "CRL \<Rightarrow> CRL" where
  "crl_clear crl = []"

text \<open>The listener: None when stoull throws.\<close>

definition crl_on_recovery_approved :: "bytes \<Rightarrow> i64 \<Rightarrow> CRL \<Rightarrow> CRL option" where
  "crl_on_recovery_approved details now crl =
     (case json_part details of
        None \<Rightarrow> Some crl
      | Some json \<Rightarrow>
          let fp = extract_field json (ascii ''fingerprint'');
              nid = extract_field json (ascii ''node_id_hex'');
              rsn = extract_field json (ascii ''reason'')
          in case extract_uint json (ascii ''epoch'') of
               None \<Rightarrow> None
             | Some ep \<Rightarrow>
                 if fp = [] \<or> nid = [] then Some crl
                 else Some (fst (revoke fp nid rsn ep now crl)))"

section \<open>Wire format\<close>

text \<open>The readers never fail: they stop at the end of the data, and a field whose length
  exceeds the data is empty.\<close>

definition write_bytes :: "bytes \<Rightarrow> bytes" where
  "write_bytes data = write_be 4 (of_nat (length data) :: u32) @ data"

definition crl_read_bytes :: "bytes \<Rightarrow> bytes \<times> bytes" where
  "crl_read_bytes data =
     (case read_be 4 data of (len :: u32, r) \<Rightarrow>
        if length r < unat len then ([], r) else (take (unat len) r, drop (unat len) r))"

definition entry_serialize :: "CRLEntry \<Rightarrow> bytes" where
  "entry_serialize e =
     write_bytes (cert_fingerprint e) @ write_bytes (node_id_hex e) @ write_bytes (reason e)
     @ write_be 8 (entry_epoch e) @ write_be 8 (revoked_at e)"

definition entry_deserialize :: "bytes \<Rightarrow> CRLEntry" where
  "entry_deserialize data =
     (let (fp, r) = crl_read_bytes data;
          (nid, r) = crl_read_bytes r;
          (rsn, r) = crl_read_bytes r;
          (ep, r) = read_be 8 r;
          (at, r) = read_be 8 r
      in \<lparr>cert_fingerprint = fp, node_id_hex = nid, reason = rsn, entry_epoch = ep, revoked_at = at\<rparr>)"

definition crl_serialize :: "CRL \<Rightarrow> bytes" where
  "crl_serialize crl =
     write_be 4 (of_nat (length crl) :: u32) @ concat (map (\<lambda>e. write_bytes (entry_serialize e)) crl)"

primrec crl_entries :: "nat \<Rightarrow> bytes \<Rightarrow> CRL" where
  "crl_entries 0 data = []"
| "crl_entries (Suc n) data =
     (case read_be 4 data of (len :: u32, r) \<Rightarrow>
        if length r < unat len then []
        else entry_deserialize (take (unat len) r) # crl_entries n (drop (unat len) r))"

definition crl_deserialize :: "bytes \<Rightarrow> CRL result" where
  "crl_deserialize data = (case read_be 4 data of (n :: u32, r) \<Rightarrow> Ok (crl_entries (unat n) r))"

record RevokeCertMsg =
  rc_fingerprint :: bytes
  rc_node_id_hex :: bytes
  rc_reason :: bytes
  rc_epoch :: u64
  rc_signature :: bytes

definition revoke_cert_serialize :: "RevokeCertMsg \<Rightarrow> bytes" where
  "revoke_cert_serialize msg =
     write_bytes (rc_fingerprint msg) @ write_bytes (rc_node_id_hex msg) @ write_bytes (rc_reason msg)
     @ write_be 8 (rc_epoch msg) @ write_bytes (rc_signature msg)"

definition revoke_cert_deserialize :: "bytes \<Rightarrow> RevokeCertMsg result" where
  "revoke_cert_deserialize data =
     (let (fp, r) = crl_read_bytes data;
          (nid, r) = crl_read_bytes r;
          (rsn, r) = crl_read_bytes r;
          (ep, r) = read_be 8 r;
          (sig, r) = crl_read_bytes r
      in Ok \<lparr>rc_fingerprint = fp, rc_node_id_hex = nid, rc_reason = rsn, rc_epoch = ep, rc_signature = sig\<rparr>)"

record RevokeAckMsg =
  ra_fingerprint :: bytes
  ra_accepted :: bool
  ra_error_message :: bytes

definition revoke_ack_serialize :: "RevokeAckMsg \<Rightarrow> bytes" where
  "revoke_ack_serialize msg =
     write_bytes (ra_fingerprint msg) @ [if ra_accepted msg then 1 else 0] @ write_bytes (ra_error_message msg)"

definition revoke_ack_deserialize :: "bytes \<Rightarrow> RevokeAckMsg result" where
  "revoke_ack_deserialize data =
     (let (fp, r) = crl_read_bytes data;
          (ok, r) = (case r of b # r' \<Rightarrow> (b \<noteq> 0, r') | [] \<Rightarrow> (False, []));
          (err, r) = crl_read_bytes r
      in Ok \<lparr>ra_fingerprint = fp, ra_accepted = ok, ra_error_message = err\<rparr>)"

section \<open>Revocation is permanent\<close>

text \<open>What a client of the list relies on: revoking makes the certificate revoked, a
  revoked certificate stays so under further revocations, and nothing else
  becomes revoked.\<close>

locale revocation_list =
  fixes revoked :: "'fp \<Rightarrow> 's \<Rightarrow> bool"
    and add :: "'fp \<Rightarrow> 'info \<Rightarrow> 's \<Rightarrow> 's"
  assumes revoked_add: "revoked fp (add fp' i s) \<longleftrightarrow> fp = fp' \<or> revoked fp s"
begin

lemma revoked_fold: "revoked fp (fold (\<lambda>(f, i). add f i) xs s) \<longleftrightarrow> fp \<in> fst ` set xs \<or> revoked fp s"
  by (induction xs arbitrary: s) (auto simp: revoked_add)

lemma add_idem_revoked: "revoked fp (add f i (add f j s)) \<longleftrightarrow> revoked fp (add f j s)"
  by (auto simp: revoked_add)

end

definition revoke_entry :: "bytes \<Rightarrow> bytes \<times> bytes \<times> u64 \<times> i64 \<Rightarrow> CRL \<Rightarrow> CRL" where
  "revoke_entry fp i crl = (case i of (nid, rsn, ep, now) \<Rightarrow> fst (revoke fp nid rsn ep now crl))"

lemma is_revoked_revoke:
  "is_revoked fp (fst (revoke fp' nid rsn ep now crl)) = Ok True \<longleftrightarrow> fp = fp' \<or> is_revoked fp crl = Ok True"
  by (auto simp: is_revoked_def revoke_def list_ex_iff)

interpretation crl: revocation_list "\<lambda>fp s. is_revoked fp s = Ok True" revoke_entry
  by unfold_locales (auto simp: revoke_entry_def is_revoked_revoke split: prod.split)

section \<open>The format is read back\<close>

definition field_ok :: "bytes \<Rightarrow> bool" where
  "field_ok data \<longleftrightarrow> length data < 2 ^ 30"

lemma write_read_bytes [simp]: "field_ok data \<Longrightarrow> crl_read_bytes (write_bytes data @ r) = (data, r)"
  by (simp add: crl_read_bytes_def write_bytes_def field_ok_def unat_of_nat_lt wire_simps)

lemma write_read_bytes_end [simp]: "field_ok data \<Longrightarrow> crl_read_bytes (write_bytes data) = (data, [])"
  using write_read_bytes [of data "[]"] by simp

definition entry_wf :: "CRLEntry \<Rightarrow> bool" where
  "entry_wf e \<longleftrightarrow> field_ok (cert_fingerprint e) \<and> field_ok (node_id_hex e) \<and> field_ok (reason e)"

lemma entry_roundtrip: "entry_wf e \<Longrightarrow> entry_deserialize (entry_serialize e) = e"
  by (simp add: entry_wf_def entry_deserialize_def entry_serialize_def wire_simps read_be_8_end)

lemma length_entry: "entry_wf e \<Longrightarrow> length (entry_serialize e) < 2 ^ 32"
  by (simp add: entry_wf_def entry_serialize_def field_ok_def write_bytes_def)

lemma unat_entry: "entry_wf e \<Longrightarrow> unat (of_nat (length (entry_serialize e)) :: u32) = length (entry_serialize e)"
  using length_entry [of e] by (intro unat_of_nat_lt) simp

lemma crl_entries_step:
  "entry_wf e \<Longrightarrow> crl_entries (Suc n) (write_bytes (entry_serialize e) @ r) = e # crl_entries n r"
  by (simp add: write_bytes_def wire_simps unat_entry entry_roundtrip)

lemma crl_entries_serialized:
  "(\<And>e. e \<in> set crl \<Longrightarrow> entry_wf e) \<Longrightarrow>
   crl_entries (length crl) (concat (map (\<lambda>e. write_bytes (entry_serialize e)) crl) @ r) = crl"
proof (induction crl)
  case (Cons e crl)
  then show ?case using crl_entries_step [of e] by (simp del: crl_entries.simps)
qed simp

definition crl_wf :: "CRL \<Rightarrow> bool" where
  "crl_wf crl \<longleftrightarrow> length crl < 2 ^ 32 \<and> (\<forall>e \<in> set crl. entry_wf e)"

interpretation crl_codec: codec crl_serialize crl_deserialize crl_wf
proof unfold_locales
  fix crl assume wf: "crl_wf crl"
  then show "crl_deserialize (crl_serialize crl) = Ok crl"
    using crl_entries_serialized [of crl "[]"]
    by (simp add: crl_deserialize_def crl_serialize_def wire_simps unat_of_nat_lt crl_wf_def)
qed

definition rc_wf :: "RevokeCertMsg \<Rightarrow> bool" where
  "rc_wf msg \<longleftrightarrow> field_ok (rc_fingerprint msg) \<and> field_ok (rc_node_id_hex msg) \<and> field_ok (rc_reason msg) \<and>
     field_ok (rc_signature msg)"

interpretation revoke_cert_codec: codec revoke_cert_serialize revoke_cert_deserialize rc_wf
  by unfold_locales (simp add: rc_wf_def revoke_cert_deserialize_def revoke_cert_serialize_def wire_simps)

definition ra_wf :: "RevokeAckMsg \<Rightarrow> bool" where
  "ra_wf msg \<longleftrightarrow> field_ok (ra_fingerprint msg) \<and> field_ok (ra_error_message msg)"

interpretation revoke_ack_codec: codec revoke_ack_serialize revoke_ack_deserialize ra_wf
  by unfold_locales (simp add: ra_wf_def revoke_ack_deserialize_def revoke_ack_serialize_def)

text \<open>
  C23. Revocation survives storage and time: after any sequence of revocations a
  certificate is reported revoked exactly when it was revoked before or is in the
  sequence, also after the list has been written out and read back.
\<close>

theorem revocation_permanent:
  assumes "crl' = fold (\<lambda>(f, i). revoke_entry f i) revs crl"
    and "crl_deserialize (crl_serialize crl') = Ok crl''" and "crl_wf crl'"
  shows "is_revoked fp crl'' = Ok True \<longleftrightarrow> fp \<in> fst ` set revs \<or> is_revoked fp crl = Ok True"
proof -
  have "crl'' = crl'" using crl_codec.dec_enc [OF assms(3)] assms(2) by simp
  then show ?thesis using crl.revoked_fold [of fp revs crl] assms(1) by simp
qed

definition sample_revs :: "(bytes \<times> bytes \<times> bytes \<times> u64 \<times> i64) list" where
  "sample_revs = [([1], [2], [], 1, 0), ([3], [4], [], 1, 0), ([1], [5], [], 2, 0)]"

definition sample_crl :: CRL where
  "sample_crl = fold (\<lambda>(f, i). revoke_entry f i) sample_revs []"

lemma sample_crl_wf: "crl_wf sample_crl"
  by (simp add: sample_crl_def sample_revs_def revoke_entry_def revoke_def crl_wf_def entry_wf_def field_ok_def)

theorem revocation_permanent_witness:
  "crl_deserialize (crl_serialize sample_crl) = Ok sample_crl \<and> is_revoked [3] sample_crl = Ok True \<and>
   is_revoked [7] sample_crl \<noteq> Ok True"
  using revocation_permanent [OF _ crl_codec.dec_enc [OF sample_crl_wf] sample_crl_wf, of sample_revs "[]"]
    crl_codec.dec_enc [OF sample_crl_wf]
  by (auto simp: sample_crl_def sample_revs_def is_revoked_def)

section \<open>What the lenient reader accepts\<close>

lemma read_be_4_nil: "read_be 4 [] = (0 :: u32, [])"
  by simp

lemma crl_entries_nil: "crl_entries n [] = replicate n (entry_deserialize [])"
  by (induction n) simp_all

text \<open>
  Four bytes are enough to make the reader build any number of entries: a list
  that announces n entries and contains none is accepted, with n blank entries.
\<close>

lemma crl_count_not_checked:
  "crl_deserialize (write_be 4 (n :: u32)) = Ok (replicate (unat n) (entry_deserialize []))"
  using read_be_write_simps(2) [of n "[]"] by (simp add: crl_deserialize_def crl_entries_nil)

text \<open>A list cut off inside an entry is accepted without that entry and the ones after
  it.\<close>

lemma crl_truncated_accepted:
  assumes "crl_wf (crl @ e # crl')" and "n < length (entry_serialize e)"
  shows "crl_deserialize (write_be 4 (of_nat (length (crl @ e # crl')) :: u32)
           @ concat (map (\<lambda>e. write_bytes (entry_serialize e)) crl)
           @ write_be 4 (of_nat (length (entry_serialize e)) :: u32) @ take n (entry_serialize e)) = Ok crl"
proof -
  have wf: "\<And>x. x \<in> set crl \<Longrightarrow> entry_wf x" "entry_wf e" "length (crl @ e # crl') < 2 ^ 32"
    using assms(1) by (auto simp: crl_wf_def)
  have cut: "crl_entries (Suc k) (write_be 4 (of_nat (length (entry_serialize e)) :: u32) @ take n (entry_serialize e)) = []" for k
    using assms(2) unat_entry [OF wf(2)] by (simp add: wire_simps)
  have split: "crl_entries (length crl + Suc k) (concat (map (\<lambda>e. write_bytes (entry_serialize e)) crl) @ r) =
      crl @ crl_entries (Suc k) r" for k r
    using wf(1)
  proof (induction crl)
    case (Cons x crl)
    then show ?case using crl_entries_step [of x] by (simp del: crl_entries.simps)
  qed simp
  have "unat (of_nat (length (crl @ e # crl')) :: u32) = length crl + Suc (length crl')"
    using wf(3) by (subst unat_of_nat_lt) simp_all
  then show ?thesis
    unfolding crl_deserialize_def read_be_write_simps by (simp only: prod.case split cut append_Nil2)
qed

end
