(* ===== verification/Session.thy ===== *)
theory Session
  imports Channel Certificate Crl
begin

text \<open>
  Sessions and the session manager of core/session/session.hpp and session.cpp: the
  five-state machine of RFC 0014, renewal, channels, the manager's table, its
  revocation check, expiry, garbage collection and crash recovery, and the
  SESSION_OPEN and SESSION_CLOSE messages.

  The unordered map of sessions is a list of key and session with distinct keys;
  its order stands for the iteration order.  A returned pointer is the key of the
  entry it points to.  Telemetry counters are left out.  The contents of the
  session store are an argument of recover: None when the file cannot be opened.
\<close>

section \<open>The state machine\<close>

datatype SessionState = Closed | Handshake | Established | Active | Renewing | SInvalid byte

datatype SessionEvent =
  EvOpenRequest | EvEstablished | EvActivate | EvCompleteContract | EvRenew | EvClose | EvTimeout | EvError

definition session_state_byte :: "SessionState \<Rightarrow> byte" where
  "session_state_byte s =
     (case s of Closed \<Rightarrow> 0 | Handshake \<Rightarrow> 1 | Established \<Rightarrow> 2 | Active \<Rightarrow> 3 | Renewing \<Rightarrow> 4 | SInvalid b \<Rightarrow> b)"

definition session_state_of :: "byte \<Rightarrow> SessionState" where
  "session_state_of b =
     (if b = 0 then Closed else if b = 1 then Handshake else if b = 2 then Established
      else if b = 3 then Active else if b = 4 then Renewing else SInvalid b)"

definition is_valid_transition :: "SessionState \<Rightarrow> SessionEvent \<Rightarrow> bool" where
  "is_valid_transition from ev =
     (case from of
        Closed \<Rightarrow> ev = EvOpenRequest
      | Handshake \<Rightarrow> ev = EvEstablished \<or> ev = EvClose \<or> ev = EvTimeout \<or> ev = EvError
      | Established \<Rightarrow> ev = EvActivate \<or> ev = EvRenew \<or> ev = EvClose \<or> ev = EvTimeout \<or> ev = EvError
      | Active \<Rightarrow> ev = EvCompleteContract \<or> ev = EvClose \<or> ev = EvError
      | Renewing \<Rightarrow> ev = EvEstablished \<or> ev = EvClose \<or> ev = EvTimeout \<or> ev = EvError
      | SInvalid _ \<Rightarrow> False)"

definition apply_transition :: "SessionState \<Rightarrow> SessionEvent \<Rightarrow> SessionState" where
  "apply_transition from ev =
     (if \<not> is_valid_transition from ev then from
      else case ev of
        EvOpenRequest \<Rightarrow> Handshake
      | EvEstablished \<Rightarrow> Established
      | EvActivate \<Rightarrow> Active
      | EvCompleteContract \<Rightarrow> Established
      | EvRenew \<Rightarrow> Renewing
      | EvClose \<Rightarrow> Closed
      | EvTimeout \<Rightarrow> Closed
      | EvError \<Rightarrow> Closed)"

section \<open>Sessions\<close>

type_synonym NodeID = bytes
type_synonym CapabilitySet = "14 word"

record Session =
  sid :: SessionId
  state :: SessionState
  peer_id :: NodeID
  peer_cert :: Certificate
  caps :: CapabilitySet
  fingerprint :: bytes
  created_at :: i64
  expires_at :: i64
  last_active :: i64
  security_state :: SessionSecurityState
  channels :: "(u16 \<times> Channel) list"

abbreviation err_session :: error_code where
  "err_session \<equiv> smo_err CatSession 500 SevError NoRetry Reconnect"

definition int64_max :: u64 where "int64_max = 0x7FFFFFFFFFFFFFFF"

definition session_create ::
  "SessionId \<Rightarrow> NodeID \<Rightarrow> Certificate \<Rightarrow> CapabilitySet \<Rightarrow> i64 \<Rightarrow> u64 \<Rightarrow> Session result" where
  "session_create i peer cert cs now ttl =
     (if ttl > int64_max then Err err_session
      else Ok \<lparr>sid = i, state = Handshake, peer_id = peer, peer_cert = cert, caps = cs, fingerprint = [],
               created_at = now, expires_at = now + ttl, last_active = now,
               security_state = \<lparr>sec_session_id = i, epoch = 0, tx_sequence = 0, rx_epoch = 0,
                                 rx_window = window_new\<rparr>,
               channels = []\<rparr>)"

definition session_on_event :: "SessionEvent \<Rightarrow> i64 \<Rightarrow> Session \<Rightarrow> Session \<times> unit result" where
  "session_on_event ev now s =
     (if \<not> is_valid_transition (state s) ev then (s, Err err_session)
      else
        let st = apply_transition (state s) ev;
            s' = s\<lparr>state := st, last_active := now\<rparr>
        in (if st = Closed then s'\<lparr>expires_at := now\<rparr> else s', Ok ()))"

definition renew :: "i64 \<Rightarrow> u64 \<Rightarrow> Session \<Rightarrow> Session \<times> unit result" where
  "renew now ttl s =
     (if state s \<noteq> Established \<and> state s \<noteq> Active
      then (s, Err (smo_err CatSession 505 Warn RetrySafe Reconnect))
      else if ttl > int64_max then (s, Err err_session)
      else (s\<lparr>expires_at := now + ttl, last_active := now\<rparr>, Ok ()))"

definition session_valid_at :: "i64 \<Rightarrow> Session \<Rightarrow> bool" where
  "session_valid_at now s \<longleftrightarrow> state s \<noteq> Closed \<and> now <s expires_at s"

definition has_capability :: "nat \<Rightarrow> Session \<Rightarrow> bool" where
  "has_capability cap s = bit (caps s) cap"

definition get_or_create_channel :: "u16 \<Rightarrow> i64 \<Rightarrow> Session \<Rightarrow> Session \<times> u16 result" where
  "get_or_create_channel cid now s =
     (case map_of (channels s) cid of
        Some _ \<Rightarrow>
          (s\<lparr>channels := map (\<lambda>(k, ch). (k, if k = cid then touch now ch else ch)) (channels s)\<rparr>, Ok cid)
      | None \<Rightarrow>
          (case channel_create cid (sid s) now 65536 300000000000 of
             Err e \<Rightarrow> (s, Err e)
           | Ok ch \<Rightarrow> (s\<lparr>channels := (cid, ch) # channels s\<rparr>, Ok cid)))"

definition get_channel :: "u16 \<Rightarrow> Session \<Rightarrow> Channel option" where
  "get_channel cid s = map_of (channels s) cid"

definition close_channel :: "u16 \<Rightarrow> i64 \<Rightarrow> Session \<Rightarrow> Session \<times> unit result" where
  "close_channel cid now s =
     (case map_of (channels s) cid of
        None \<Rightarrow> (s, Err (smo_err CatSession 521 Warn RetrySafe RecNone))
      | Some ch \<Rightarrow>
          (case channel_on_event ChClose now ch of (ch', r) \<Rightarrow>
             (s\<lparr>channels := map (\<lambda>(k, c). (k, if k = cid then ch' else c)) (channels s)\<rparr>, r)))"

definition has_open_channels :: "Session \<Rightarrow> bool" where
  "has_open_channels s = list_ex (\<lambda>(k, ch). ch_state ch = ChOpen \<or> ch_state ch = ChOpening) (channels s)"

definition tick_channels :: "i64 \<Rightarrow> Session \<Rightarrow> Session" where
  "tick_channels now s = s\<lparr>channels := filter (\<lambda>(k, ch). \<not> is_idle now ch) (channels s)\<rparr>"

section \<open>The stored form of a session\<close>

definition cap_byte :: "CapabilitySet \<Rightarrow> nat \<Rightarrow> byte" where
  "cap_byte cs i =
     foldl (\<lambda>b j. if i * 8 + j < 14 \<and> bit cs (i * 8 + j) then b OR push_bit j 1 else b) 0 [0..<8]"

definition read_cap_byte :: "byte \<Rightarrow> nat \<Rightarrow> CapabilitySet \<Rightarrow> CapabilitySet" where
  "read_cap_byte b i cs =
     foldl (\<lambda>cs j. if i * 8 + j < 14 \<and> b AND push_bit j 1 \<noteq> 0 then set_bit (i * 8 + j) cs else cs) cs [0..<8]"

definition session_serialize :: "Session \<Rightarrow> bytes" where
  "session_serialize s =
     [session_state_byte (state s)] @ sid s @ peer_id s
     @ map (cap_byte (caps s)) [0..<2]
     @ write_be 8 (created_at s) @ write_be 8 (expires_at s) @ write_be 8 (last_active s)
     @ write_be 4 (of_nat (length (cert_serialize (peer_cert s))) :: u32) @ cert_serialize (peer_cert s)
     @ sec_session_id (security_state s)
     @ write_be 8 (epoch (security_state s)) @ write_be 8 (tx_sequence (security_state s))
     @ write_be 8 (rx_epoch (security_state s))
     @ write_be 8 (highest (rx_window (security_state s))) @ write_be 8 (bitmap (rx_window (security_state s)))"

definition session_deserialize :: "bytes \<Rightarrow> Session result" where
  "session_deserialize data =
     guarded err_session 1 data (\<lambda>data. let st = session_state_of (hd data); data = tl data in
     guarded err_session 16 data (\<lambda>data. let i = take 16 data; data = drop 16 data in
     guarded err_session 32 data (\<lambda>data. let peer = take 32 data; data = drop 32 data in
     guarded err_session 2 data (\<lambda>data.
       let cs = read_cap_byte (data ! 1) 1 (read_cap_byte (data ! 0) 0 0); data = drop 2 data in
     case read_be 8 data of (cr, data) \<Rightarrow> case read_be 8 data of (ex, data) \<Rightarrow>
     case read_be 8 data of (la, data) \<Rightarrow> case read_be 4 data of (cert_len :: u32, data) \<Rightarrow>
     guarded err_session (unat cert_len) data (\<lambda>data.
     rbind (cert_deserialize (take (unat cert_len) data)) (\<lambda>cert. let data = drop (unat cert_len) data in
     guarded err_session 16 data (\<lambda>data. let ssid = take 16 data; data = drop 16 data in
     guarded err_session 8 data (\<lambda>data. case read_be 8 data of (ep, data) \<Rightarrow>
     guarded err_session 8 data (\<lambda>data. case read_be 8 data of (tx, data) \<Rightarrow>
     guarded err_session 8 data (\<lambda>data. case read_be 8 data of (rx, data) \<Rightarrow>
     guarded err_session 8 data (\<lambda>data. case read_be 8 data of (hi, data) \<Rightarrow>
     guarded err_session 8 data (\<lambda>data. case read_be 8 data of (bm, data) \<Rightarrow>
       Ok \<lparr>sid = i, state = st, peer_id = peer, peer_cert = cert, caps = cs, fingerprint = [],
           created_at = cr, expires_at = ex, last_active = la,
           security_state = \<lparr>sec_session_id = ssid, epoch = ep, tx_sequence = tx, rx_epoch = rx,
                             rx_window = window_restore hi bm window_new\<rparr>,
           channels = []\<rparr>))))))))))))"

section \<open>The manager\<close>

record SessionManager =
  sessions :: "(u64 \<times> Session) list"
  crl :: "CRL option"

definition to_key :: "SessionId \<Rightarrow> u64" where
  "to_key i = read_le 8 (take 8 i)"

definition mgr_open :: "Session \<Rightarrow> SessionManager \<Rightarrow> SessionManager \<times> u64 result" where
  "mgr_open s m =
     (let k = to_key (sid s);
          insert_step =
            (if map_of (sessions m) k \<noteq> None then (m, Err (smo_err CatSession 504 Warn NoRetry RecNone))
             else (m\<lparr>sessions := (k, s) # sessions m\<rparr>, Ok k))
      in case crl m of
           None \<Rightarrow> insert_step
         | Some c \<Rightarrow>
             if fingerprint s = [] then insert_step
             else (case is_revoked (fingerprint s) c of
                     Err _ \<Rightarrow> (m, Err (smo_err CatSession 507 SevError NoRetry Reconnect))
                   | Ok True \<Rightarrow> (m, Err (smo_err CatSession 508 SevError NoRetry Reconnect))
                   | Ok False \<Rightarrow> insert_step))"

definition lookup :: "SessionId \<Rightarrow> SessionManager \<Rightarrow> Session option" where
  "lookup i m = map_of (sessions m) (to_key i)"

text \<open>Writing through the pointer that lookup returned.\<close>

definition update_session :: "u64 \<Rightarrow> Session \<Rightarrow> SessionManager \<Rightarrow> SessionManager" where
  "update_session k s m = m\<lparr>sessions := map (\<lambda>(k', s'). (k', if k' = k then s else s')) (sessions m)\<rparr>"

definition invalidate :: "NodeID \<Rightarrow> SessionManager \<Rightarrow> SessionManager \<times> nat" where
  "invalidate peer m =
     (m\<lparr>sessions := filter (\<lambda>(k, s). peer_id s \<noteq> peer) (sessions m)\<rparr>,
      length (filter (\<lambda>(k, s). peer_id s = peer) (sessions m)))"

abbreviation err_no_session :: error_code where
  "err_no_session \<equiv> smo_err CatSession 501 Info RetrySafe Reconnect"

definition mgr_transition :: "SessionId \<Rightarrow> SessionEvent \<Rightarrow> i64 \<Rightarrow> SessionManager \<Rightarrow> SessionManager \<times> unit result" where
  "mgr_transition i ev now m =
     (case lookup i m of
        None \<Rightarrow> (m, Err err_no_session)
      | Some s \<Rightarrow> (case session_on_event ev now s of (s', r) \<Rightarrow> (update_session (to_key i) s' m, r)))"

definition mgr_close :: "SessionId \<Rightarrow> i64 \<Rightarrow> SessionManager \<Rightarrow> SessionManager \<times> unit result" where
  "mgr_close i now m =
     (case lookup i m of
        None \<Rightarrow> (m, Err err_no_session)
      | Some s \<Rightarrow> (case session_on_event EvClose now s of (s', r) \<Rightarrow> (update_session (to_key i) s' m, r)))"

definition tick_session :: "i64 \<Rightarrow> Session \<Rightarrow> Session" where
  "tick_session now s = (if session_valid_at now s then s else fst (session_on_event EvTimeout now s))"

definition tick :: "i64 \<Rightarrow> SessionManager \<Rightarrow> SessionManager" where
  "tick now m = m\<lparr>sessions := map (\<lambda>(k, s). (k, tick_session now s)) (sessions m)\<rparr>"

definition mgr_tick_channels :: "i64 \<Rightarrow> SessionManager \<Rightarrow> SessionManager" where
  "mgr_tick_channels now m = m\<lparr>sessions := map (\<lambda>(k, s). (k, tick_channels now s)) (sessions m)\<rparr>"

definition mgr_get_or_create_channel ::
  "SessionId \<Rightarrow> u16 \<Rightarrow> i64 \<Rightarrow> SessionManager \<Rightarrow> SessionManager \<times> u16 result" where
  "mgr_get_or_create_channel i cid now m =
     (case lookup i m of
        None \<Rightarrow> (m, Err (smo_err CatSession 521 Warn RetrySafe RecNone))
      | Some s \<Rightarrow> (case get_or_create_channel cid now s of (s', r) \<Rightarrow> (update_session (to_key i) s' m, r)))"

definition lookup_channel :: "SessionId \<Rightarrow> u16 \<Rightarrow> SessionManager \<Rightarrow> Channel option" where
  "lookup_channel i cid m = (case lookup i m of None \<Rightarrow> None | Some s \<Rightarrow> get_channel cid s)"

definition mgr_close_channel :: "SessionId \<Rightarrow> u16 \<Rightarrow> i64 \<Rightarrow> SessionManager \<Rightarrow> SessionManager \<times> unit result" where
  "mgr_close_channel i cid now m =
     (case lookup i m of
        None \<Rightarrow> (m, Err (smo_err CatSession 521 Warn RetrySafe RecNone))
      | Some s \<Rightarrow> (case close_channel cid now s of (s', r) \<Rightarrow> (update_session (to_key i) s' m, r)))"

definition collect_garbage :: "SessionManager \<Rightarrow> SessionManager" where
  "collect_garbage m = m\<lparr>sessions := filter (\<lambda>(k, s). state s \<noteq> Closed) (sessions m)\<rparr>"

definition active_count :: "SessionManager \<Rightarrow> nat" where
  "active_count m = length (sessions m)"

definition serialize_all :: "SessionManager \<Rightarrow> bytes" where
  "serialize_all m =
     write_be 4 (of_nat (length (sessions m)) :: u32)
     @ concat (map (\<lambda>(k, s). write_bytes (session_serialize s)) (sessions m))"

text \<open>One persisted session: closed unless it was in the handshake or closed already.\<close>

definition recover_one :: "i64 \<Rightarrow> Session \<Rightarrow> Session option" where
  "recover_one now s =
     (if state s = Active then Some (fst (session_on_event EvClose now s))
      else if state s = Established \<or> state s = Renewing then Some (fst (session_on_event EvClose now s))
      else None)"

primrec recover_loop :: "nat \<Rightarrow> i64 \<Rightarrow> bytes \<Rightarrow> (u64 \<times> Session) list \<times> nat \<Rightarrow> (u64 \<times> Session) list \<times> nat" where
  "recover_loop 0 now data acc = acc"
| "recover_loop (Suc n) now data acc =
     (case read_be 4 data of (len :: u32, r) \<Rightarrow>
        if length r < unat len then acc
        else recover_loop n now (drop (unat len) r)
          (case session_deserialize (take (unat len) r) of
             Err _ \<Rightarrow> acc
           | Ok s \<Rightarrow>
               (case recover_one now s of
                  None \<Rightarrow> acc
                | Some s' \<Rightarrow>
                    (case acc of (ss, cnt) \<Rightarrow>
                       if map_of ss (to_key (sid s')) = None then ((to_key (sid s'), s') # ss, cnt + 1)
                       else (ss, cnt)))))"

definition recover :: "bytes option \<Rightarrow> i64 \<Rightarrow> SessionManager \<Rightarrow> SessionManager \<times> nat result" where
  "recover store now m =
     (case store of
        None \<Rightarrow> (m, Ok 0)
      | Some data \<Rightarrow>
          if data = [] then (m, Ok 0)
          else case read_be 4 data of (cnt :: u32, r) \<Rightarrow>
            (case recover_loop (unat cnt) now r (sessions m, 0) of
               (ss, recovered) \<Rightarrow> (m\<lparr>sessions := ss\<rparr>, Ok recovered)))"

section \<open>Revocation events\<close>

text \<open>Two characters read by a stream in hexadecimal mode: blanks are skipped, a sign is
  taken, the digits up to the first other character count, and no digit gives 0.\<close>

definition hex_val :: "byte \<Rightarrow> nat option" where
  "hex_val b = hex_value (char_of (unat b))"

definition stream_hex :: "bytes \<Rightarrow> byte" where
  "stream_hex s =
     (let s1 = dropWhile is_space s;
          neg = (s1 \<noteq> [] \<and> hd s1 = 0x2D);
          s2 = (if s1 \<noteq> [] \<and> (hd s1 = 0x2D \<or> hd s1 = 0x2B) then tl s1 else s1);
          ds = takeWhile (\<lambda>b. hex_val b \<noteq> None) s2;
          n = foldl (\<lambda>n d. 16 * n + the (hex_val d)) 0 ds
      in if neg then - of_nat n else of_nat n)"

definition node_id_of_hex :: "bytes \<Rightarrow> NodeID" where
  "node_id_of_hex h = map (\<lambda>i. stream_hex (take 2 (drop (i * 2) h))) [0..<32]"

definition mgr_on_recovery_approved :: "bytes \<Rightarrow> SessionManager \<Rightarrow> SessionManager" where
  "mgr_on_recovery_approved details m =
     (case json_part details of
        None \<Rightarrow> m
      | Some json \<Rightarrow>
          let nid = extract_field json (ascii ''node_id_hex'')
          in if nid = [] then m
             else if length nid \<noteq> 64 then m
             else fst (invalidate (node_id_of_hex nid) m))"

section \<open>Messages\<close>

record SessionOpenMsg =
  om_nonce :: bytes
  om_signature :: bytes
  om_cert_data :: bytes

definition pad_to :: "nat \<Rightarrow> bytes \<Rightarrow> bytes" where
  "pad_to n bs = map (\<lambda>i. if i < (if length bs < n then length bs else n) then bs ! i else 0) [0..<n]"

definition open_msg_serialize :: "SessionOpenMsg \<Rightarrow> bytes" where
  "open_msg_serialize msg = pad_to 32 (om_nonce msg) @ pad_to 64 (om_signature msg) @ write_bytes (om_cert_data msg)"

definition open_msg_deserialize :: "bytes \<Rightarrow> SessionOpenMsg result" where
  "open_msg_deserialize data =
     guarded err_session 32 data (\<lambda>data. let nnc = take 32 data; data = drop 32 data in
     guarded err_session 64 data (\<lambda>data. let sig = take 64 data; data = drop 64 data in
     case read_be 4 data of (len :: u32, data) \<Rightarrow>
     guarded err_session (unat len) data (\<lambda>data.
       Ok \<lparr>om_nonce = nnc, om_signature = sig, om_cert_data = take (unat len) data\<rparr>)))"

record SessionCloseMsg =
  cm_reason :: byte
  cm_signature :: bytes

definition close_msg_serialize :: "SessionCloseMsg \<Rightarrow> bytes" where
  "close_msg_serialize msg = cm_reason msg # pad_to 64 (cm_signature msg)"

definition close_msg_deserialize :: "bytes \<Rightarrow> SessionCloseMsg result" where
  "close_msg_deserialize data =
     guarded err_session 1 data (\<lambda>data. let rsn = hd data; data = tl data in
     guarded err_session 64 data (\<lambda>data. Ok \<lparr>cm_reason = rsn, cm_signature = take 64 data\<rparr>))"

section \<open>Capabilities are stored bit by bit\<close>

lemma bit_foldl_or:
  fixes b :: byte
  shows "bit (foldl (\<lambda>b j. if P j then b OR push_bit j 1 else b) b [0..<m]) k \<longleftrightarrow>
    bit b k \<or> (k < m \<and> P k \<and> k < 8)"
  by (induction m) (auto simp: bit_simps less_Suc_eq)

lemma bit_cap_byte: "bit (cap_byte cs i) j \<longleftrightarrow> j < 8 \<and> i * 8 + j < 14 \<and> bit cs (i * 8 + j)"
  unfolding cap_byte_def by (subst bit_foldl_or) auto

lemma bit_foldl_set:
  fixes cs :: CapabilitySet
  shows "bit (foldl (\<lambda>cs j. if P j then set_bit (o' + j) cs else cs) cs [0..<m]) k \<longleftrightarrow>
    bit cs k \<or> (\<exists>j < m. P j \<and> k = o' + j \<and> k < 14)"
  by (induction m) (auto simp: bit_simps less_Suc_eq)

lemma and_bit_byte: "b AND push_bit j 1 \<noteq> 0 \<longleftrightarrow> bit b j" for b :: byte
  by (simp only: bit_iff_and_push_bit_not_eq_0)

lemma bit_read_cap_byte:
  "bit (read_cap_byte b i cs) k \<longleftrightarrow> bit cs k \<or> (\<exists>j < 8. bit b j \<and> k = i * 8 + j \<and> k < 14)"
  unfolding read_cap_byte_def and_bit_byte by (subst bit_foldl_set) auto

lemma caps_roundtrip: "read_cap_byte (cap_byte cs 1) 1 (read_cap_byte (cap_byte cs 0) 0 0) = cs"
proof (rule bit_word_eqI)
  fix k assume k: "k < LENGTH(14)"
  show "bit (read_cap_byte (cap_byte cs 1) 1 (read_cap_byte (cap_byte cs 0) 0 0)) k = bit cs k"
  proof (cases "k < 8")
    case True
    then show ?thesis using k by (auto simp: bit_read_cap_byte bit_cap_byte)
  next
    case False
    then have "k = 8 + (k - 8)" "k - 8 < 8" using k by auto
    then show ?thesis using k False by (auto simp: bit_read_cap_byte bit_cap_byte)
  qed
qed

section \<open>Sessions are read back\<close>

definition session_wf :: "Session \<Rightarrow> bool" where
  "session_wf s \<longleftrightarrow> length (sid s) = 16 \<and> length (peer_id s) = 32 \<and>
     (\<forall>b. state s = SInvalid b \<longrightarrow> 4 < b) \<and> cert_wf (peer_cert s) \<and>
     length (cert_serialize (peer_cert s)) < 2 ^ 31 \<and> length (sec_session_id (security_state s)) = 16"

text \<open>What the stored form keeps: neither the signature of the certificate, nor the
  fingerprint, nor the channels.\<close>

definition stored :: "Session \<Rightarrow> Session" where
  "stored s = s\<lparr>peer_cert := (peer_cert s)\<lparr>signature := []\<rparr>, fingerprint := [], channels := []\<rparr>"

lemma session_state_bytes: "\<forall>b. st = SInvalid b \<longrightarrow> 4 < b \<Longrightarrow> session_state_of (session_state_byte st) = st"
  by (cases st) (auto simp: session_state_of_def session_state_byte_def)

lemma session_roundtrip:
  assumes "session_wf s"
  shows "session_deserialize (session_serialize s) = Ok (stored s)"
proof -
  have u: "unat (of_nat (length (cert_serialize (peer_cert s))) :: u32) = length (cert_serialize (peer_cert s))"
    using assms by (intro unat_of_nat_lt) (simp add: session_wf_def)
  have c: "cert_deserialize (cert_serialize (peer_cert s)) = Ok ((peer_cert s)\<lparr>signature := []\<rparr>)"
    using assms by (intro cert_deserialize_body) (simp add: session_wf_def)
  have caps: "map (cap_byte (caps s)) [0..<2] = [cap_byte (caps s) 0, cap_byte (caps s) 1]"
    by (simp add: numeral_2_eq_2)
  have w: "window_restore (highest w) (bitmap w) window_new = w" for w
    by (simp add: window_restore_def window_new_def)
  show ?thesis
    using assms u c caps_roundtrip [of "caps s"]
    unfolding session_deserialize_def session_serialize_def caps
    by (simp add: guarded_def session_wf_def wire_simps read_be_8_only session_state_bytes stored_def w)
qed

lemma session_deserialize_states:
  "session_deserialize data = Ok s \<Longrightarrow> channels s = [] \<and> fingerprint s = []"
  by (auto simp: session_deserialize_def guarded_def Let_def rbind_eq_Ok split: if_splits prod.splits)

section \<open>The manager's invariant\<close>

text \<open>Keys are distinct, and each session sits under the key of its identifier.\<close>

definition mgr_inv :: "SessionManager \<Rightarrow> bool" where
  "mgr_inv m \<longleftrightarrow> distinct (map fst (sessions m)) \<and> (\<forall>(k, s) \<in> set (sessions m). k = to_key (sid s))"

lemma mgr_invI:
  "distinct (map fst (sessions m)) \<Longrightarrow> (\<And>k s. (k, s) \<in> set (sessions m) \<Longrightarrow> k = to_key (sid s)) \<Longrightarrow> mgr_inv m"
  by (auto simp: mgr_inv_def)

text \<open>The two ways an operation changes the table: it rewrites sessions in place, keeping
  their identifiers, or it drops some.\<close>

lemma mgr_inv_map:
  assumes "mgr_inv m" and "\<And>k s. (k, s) \<in> set (sessions m) \<Longrightarrow> sid (f k s) = sid s"
  shows "mgr_inv (m\<lparr>sessions := map (\<lambda>(k, s). (k, f k s)) (sessions m)\<rparr>)"
proof (rule mgr_invI)
  have "map fst (sessions (m\<lparr>sessions := map (\<lambda>(k, s). (k, f k s)) (sessions m)\<rparr>)) = map fst (sessions m)"
    by (simp add: o_def case_prod_beta)
  then show "distinct (map fst (sessions (m\<lparr>sessions := map (\<lambda>(k, s). (k, f k s)) (sessions m)\<rparr>)))"
    using assms(1) by (simp only: mgr_inv_def)
next
  fix k s assume "(k, s) \<in> set (sessions (m\<lparr>sessions := map (\<lambda>(k, s). (k, f k s)) (sessions m)\<rparr>))"
  then obtain s0 where "(k, s0) \<in> set (sessions m)" "s = f k s0" by auto
  with assms show "k = to_key (sid s)" by (auto simp: mgr_inv_def)
qed

lemma mgr_inv_filter:
  "mgr_inv m \<Longrightarrow> mgr_inv (m\<lparr>sessions := filter P (sessions m)\<rparr>)"
  by (auto simp: mgr_inv_def distinct_map_filter)

lemma session_on_event_sid [simp]: "sid (fst (session_on_event ev now s)) = sid s"
  by (simp add: session_on_event_def Let_def)

lemma session_on_event_peer [simp]: "peer_id (fst (session_on_event ev now s)) = peer_id s"
  by (simp add: session_on_event_def Let_def)

lemma lookup_in: "lookup i m = Some s \<Longrightarrow> (to_key i, s) \<in> set (sessions m)"
  by (auto simp: lookup_def map_of_SomeD)

lemma mgr_inv_open [inv_intros]: "mgr_inv m \<Longrightarrow> mgr_inv (fst (mgr_open s m))"
  by (auto simp: mgr_open_def mgr_inv_def Let_def map_of_eq_None_iff image_iff
      split: option.splits result.splits bool.splits if_splits)

lemma mgr_inv_update [inv_intros]:
  assumes "mgr_inv m" "lookup i m = Some s" "sid s' = sid s"
  shows "mgr_inv (update_session (to_key i) s' m)"
  unfolding update_session_def
proof (rule mgr_inv_map [OF assms(1)])
  fix k s0 assume "(k, s0) \<in> set (sessions m)"
  then show "sid (if k = to_key i then s' else s0) = sid s0"
    using assms lookup_in [OF assms(2)] eq_key_imp_eq_value [of "sessions m" k s0 s]
    by (auto simp: mgr_inv_def)
qed

lemma mgr_inv_transition [inv_intros]: "mgr_inv m \<Longrightarrow> mgr_inv (fst (mgr_transition i ev now m))"
  by (cases "lookup i m") (simp_all add: mgr_transition_def case_prod_beta mgr_inv_update)

lemma mgr_inv_close [inv_intros]: "mgr_inv m \<Longrightarrow> mgr_inv (fst (mgr_close i now m))"
  using mgr_inv_transition [of m i EvClose now] by (simp add: mgr_close_def mgr_transition_def)

lemma mgr_inv_tick [inv_intros]: "mgr_inv m \<Longrightarrow> mgr_inv (tick now m)"
  unfolding tick_def by (rule mgr_inv_map) (auto simp: tick_session_def)

lemma mgr_inv_tick_channels [inv_intros]: "mgr_inv m \<Longrightarrow> mgr_inv (mgr_tick_channels now m)"
  unfolding mgr_tick_channels_def by (rule mgr_inv_map) (auto simp: tick_channels_def)

lemma mgr_inv_invalidate [inv_intros]: "mgr_inv m \<Longrightarrow> mgr_inv (fst (invalidate peer m))"
  by (simp add: invalidate_def mgr_inv_filter)

lemma mgr_inv_garbage [inv_intros]: "mgr_inv m \<Longrightarrow> mgr_inv (collect_garbage m)"
  by (simp add: collect_garbage_def mgr_inv_filter)

lemma get_or_create_sid: "sid (fst (get_or_create_channel cid now s)) = sid s"
  by (simp add: get_or_create_channel_def channel_create_def split: option.splits)

lemma close_channel_sid: "sid (fst (close_channel cid now s)) = sid s"
  by (simp add: close_channel_def split: option.splits prod.splits)

lemma mgr_inv_channel [inv_intros]: "mgr_inv m \<Longrightarrow> mgr_inv (fst (mgr_get_or_create_channel i cid now m))"
  by (cases "lookup i m") (simp_all add: mgr_get_or_create_channel_def case_prod_beta mgr_inv_update get_or_create_sid)

lemma mgr_inv_close_channel [inv_intros]: "mgr_inv m \<Longrightarrow> mgr_inv (fst (mgr_close_channel i cid now m))"
  by (cases "lookup i m") (simp_all add: mgr_close_channel_def case_prod_beta mgr_inv_update close_channel_sid)

section \<open>Expiry\<close>

lemma tick_session_cases:
  "tick_session now s =
     (if session_valid_at now s then s
      else if state s \<in> {Handshake, Established, Renewing}
      then s\<lparr>state := Closed, last_active := now, expires_at := now\<rparr> else s)"
  by (cases "state s") (simp_all add: tick_session_def session_on_event_def is_valid_transition_def
      apply_transition_def session_valid_at_def)

text \<open>
  What a sweep leaves: after tick and garbage collection the table holds exactly
  the sessions that were not closed and have not expired, and besides them every
  session in state Active, expired or not, since the state machine has no timeout
  from Active.
\<close>

lemma sweep_keeps:
  assumes "\<And>k s b. (k, s) \<in> set (sessions m) \<Longrightarrow> state s \<noteq> SInvalid b"
  shows "(k, s) \<in> set (sessions (collect_garbage (tick now m))) \<longleftrightarrow>
     (k, s) \<in> set (sessions m) \<and> state s \<noteq> Closed \<and> (now <s expires_at s \<or> state s = Active)"
proof -
  have swept: "(k, s) \<in> set (sessions (collect_garbage (tick now m))) \<longleftrightarrow>
      (\<exists>s0. (k, s0) \<in> set (sessions m) \<and> s = tick_session now s0 \<and> state s \<noteq> Closed)"
    by (force simp: collect_garbage_def tick_def)
  have one: "s = tick_session now s0 \<and> state s \<noteq> Closed \<longleftrightarrow>
      s = s0 \<and> state s0 \<noteq> Closed \<and> (now <s expires_at s0 \<or> state s0 = Active)"
    if "(k, s0) \<in> set (sessions m)" for s0
    using assms [OF that]
    by (cases "state s0") (auto simp: tick_session_cases session_valid_at_def)
  show ?thesis
  proof
    assume "(k, s) \<in> set (sessions (collect_garbage (tick now m)))"
    then obtain s0 where "(k, s0) \<in> set (sessions m)" "s = tick_session now s0 \<and> state s \<noteq> Closed"
      using swept by blast
    then show "(k, s) \<in> set (sessions m) \<and> state s \<noteq> Closed \<and> (now <s expires_at s \<or> state s = Active)"
      using one [of s0] by simp
  next
    assume "(k, s) \<in> set (sessions m) \<and> state s \<noteq> Closed \<and> (now <s expires_at s \<or> state s = Active)"
    then show "(k, s) \<in> set (sessions (collect_garbage (tick now m)))"
      using one [of s] swept by blast
  qed
qed

section \<open>Crash recovery\<close>

lemma recover_one_closed: "recover_one now s = Some s' \<Longrightarrow> state s' = Closed \<and> sid s' = sid s \<and> expires_at s' = now"
  by (auto simp: recover_one_def session_on_event_def is_valid_transition_def apply_transition_def split: if_splits)

lemma recover_one_iff: "(\<exists>s'. recover_one now s = Some s') \<longleftrightarrow> state s \<in> {Established, Active, Renewing}"
  by (auto simp: recover_one_def)

lemma recover_one_stored: "recover_one now (stored s) = map_option stored (recover_one now s)"
  by (auto simp: recover_one_def session_on_event_def stored_def Let_def)

definition storable :: "Session \<Rightarrow> bool" where
  "storable s \<longleftrightarrow> session_wf s \<and> length (session_serialize s) < 2 ^ 32"

lemma recover_loop_step:
  assumes "storable s"
  shows "recover_loop (Suc n) now (write_bytes (session_serialize s) @ r) acc =
    recover_loop n now r
      (case recover_one now (stored s) of
         None \<Rightarrow> acc
       | Some s' \<Rightarrow> (case acc of (ss, cnt) \<Rightarrow>
           if map_of ss (to_key (sid s')) = None then ((to_key (sid s'), s') # ss, cnt + 1) else (ss, cnt)))"
proof -
  have "unat (of_nat (length (session_serialize s)) :: u32) = length (session_serialize s)"
    using assms by (intro unat_of_nat_lt) (simp add: storable_def)
  then show ?thesis
    using assms session_roundtrip [of s] by (simp add: storable_def write_bytes_def wire_simps)
qed

text \<open>The sessions a restart brings back: those with a contract or an established
  channel, closed.\<close>

definition closed_copy :: "i64 \<Rightarrow> u64 \<times> Session \<Rightarrow> (u64 \<times> Session) option" where
  "closed_copy now e = map_option (\<lambda>s'. (fst e, s')) (recover_one now (stored (snd e)))"

lemma recover_loop_serialized:
  assumes "\<forall>(k, s) \<in> set es. k = to_key (sid s) \<and> storable s" and "distinct (map fst es)"
    and "fst ` set es \<inter> fst ` set ss = {}"
  shows "recover_loop (length es) now (concat (map (\<lambda>(k, s). write_bytes (session_serialize s)) es)) (ss, cnt) =
     (rev (List.map_filter (closed_copy now) es) @ ss, cnt + length (List.map_filter (closed_copy now) es))"
  using assms
proof (induction es arbitrary: ss cnt)
  case Nil
  then show ?case by (simp add: map_filter_simps)
next
  case (Cons e es)
  obtain k s where e: "e = (k, s)" by (cases e)
  have k: "k = to_key (sid s)" "storable s" and es: "\<forall>(k, s) \<in> set es. k = to_key (sid s) \<and> storable s"
    "distinct (map fst es)" "k \<notin> fst ` set es" "k \<notin> fst ` set ss" "fst ` set es \<inter> fst ` set ss = {}"
    using Cons.prems e by auto
  show ?case
  proof (cases "recover_one now (stored s)")
    case None
    then show ?thesis
      using Cons.IH [OF es(1,2,5)] recover_loop_step [OF k(2)] e
      by (simp add: map_filter_simps closed_copy_def del: recover_loop.simps)
  next
    case (Some s')
    then have "sid s' = sid s" using recover_one_closed [OF Some] by (simp add: stored_def)
    moreover have "map_of ss k = None" using es(4) by (simp add: map_of_eq_None_iff)
    moreover have "fst ` set es \<inter> fst ` set ((k, s') # ss) = {}" using es(3,5) by auto
    ultimately show ?thesis
      using Cons.IH [OF es(1,2)] recover_loop_step [OF k(2)] e Some k(1)
      by (simp add: map_filter_simps closed_copy_def del: recover_loop.simps)
  qed
qed

text \<open>
  C31. Crash recovery: a node that persisted its sessions and restarts with an empty
  table gets back exactly its established, active and renewing sessions, each
  closed at the time of the restart, and reports their number.
\<close>

theorem crash_recovery:
  assumes "mgr_inv m" "length (sessions m) < 2 ^ 32" "\<forall>(k, s) \<in> set (sessions m). storable s"
  shows "\<exists>m' n. recover (Some (serialize_all m)) now \<lparr>sessions = [], crl = c\<rparr> = (m', Ok n) \<and>
     n = length (filter (\<lambda>(k, s). state s \<in> {Established, Active, Renewing}) (sessions m)) \<and>
     (\<forall>k s'. (k, s') \<in> set (sessions m') \<longleftrightarrow>
        (\<exists>s. (k, s) \<in> set (sessions m) \<and> recover_one now (stored s) = Some s')) \<and>
     (\<forall>(k, s') \<in> set (sessions m'). state s' = Closed \<and> expires_at s' = now)"
proof -
  let ?es = "sessions m"
  let ?found = "List.map_filter (closed_copy now) ?es"
  have wf: "\<forall>(k, s) \<in> set ?es. k = to_key (sid s) \<and> storable s" "distinct (map fst ?es)"
    using assms by (auto simp: mgr_inv_def)
  have u: "unat (of_nat (length ?es) :: u32) = length ?es" using assms(2) by (intro unat_of_nat_lt) simp
  have ne: "write_be 4 v \<noteq> []" for v :: u32 by (metis length_write_be list.size(3) zero_neq_numeral)
  have r: "recover (Some (serialize_all m)) now \<lparr>sessions = [], crl = c\<rparr> =
      (\<lparr>sessions = rev ?found, crl = c\<rparr>, Ok (length ?found))"
    using ne recover_loop_serialized [OF wf, of "[]" now 0] u
    by (simp add: recover_def serialize_all_def wire_simps)
  have restored: "set ?found = {(k, s'). \<exists>s. (k, s) \<in> set ?es \<and> recover_one now (stored s) = Some s'}"
    by (force simp: map_filter_def closed_copy_def)
  have "length ?found = length (filter (\<lambda>e. closed_copy now e \<noteq> None) ?es)" by (simp add: map_filter_def)
  also have "(\<lambda>e. closed_copy now e \<noteq> None) = (\<lambda>(k, s). state s \<in> {Established, Active, Renewing})"
    using recover_one_iff [of now "stored _"] by (auto simp: closed_copy_def fun_eq_iff stored_def)
  finally have "length ?found = length (filter (\<lambda>(k, s). state s \<in> {Established, Active, Renewing}) ?es)" .
  moreover have "\<forall>(k, s') \<in> set ?found. state s' = Closed \<and> expires_at s' = now"
    using restored recover_one_closed by auto
  ultimately show ?thesis using r restored by auto
qed

section \<open>Revocation closes the door\<close>

lemma open_revoked_refused:
  assumes "crl m = Some c" "is_revoked (fingerprint s) c = Ok True" "fingerprint s \<noteq> []"
  shows "mgr_open s m = (m, Err (smo_err CatSession 508 SevError NoRetry Reconnect))"
  using assms by (simp add: mgr_open_def Let_def)

lemma invalidate_removes:
  "(k, s) \<in> set (sessions (fst (invalidate peer m))) \<longleftrightarrow> (k, s) \<in> set (sessions m) \<and> peer_id s \<noteq> peer"
  by (simp add: invalidate_def)

lemma invalidate_count: "active_count (fst (invalidate peer m)) + snd (invalidate peer m) = active_count m"
  using sum_length_filter_compl [of "\<lambda>e. peer_id (snd e) = peer" "sessions m"]
  by (simp add: invalidate_def active_count_def case_prod_unfold)

text \<open>A node identifier survives the hexadecimal text of the event payload.\<close>

lemma hex_char_read:
  assumes "n < 16"
  shows "\<not> is_space (word_of_nat (of_char (hex_digits ! n)))"
    "(word_of_nat (of_char (hex_digits ! n)) :: byte) \<noteq> 0x2D"
    "(word_of_nat (of_char (hex_digits ! n)) :: byte) \<noteq> 0x2B"
    "hex_val (word_of_nat (of_char (hex_digits ! n))) = Some n"
proof -
  have "list_all (\<lambda>n. let b = word_of_nat (of_char (hex_digits ! n)) :: byte in
      \<not> is_space b \<and> b \<noteq> 0x2D \<and> b \<noteq> 0x2B \<and> hex_val b = Some n) [0..<16]" by code_simp
  with assms have "let b = word_of_nat (of_char (hex_digits ! n)) :: byte in
      \<not> is_space b \<and> b \<noteq> 0x2D \<and> b \<noteq> 0x2B \<and> hex_val b = Some n" by (simp add: list_all_iff)
  then show "\<not> is_space (word_of_nat (of_char (hex_digits ! n)))"
    "(word_of_nat (of_char (hex_digits ! n)) :: byte) \<noteq> 0x2D"
    "(word_of_nat (of_char (hex_digits ! n)) :: byte) \<noteq> 0x2B"
    "hex_val (word_of_nat (of_char (hex_digits ! n))) = Some n"
    by (simp_all add: Let_def)
qed

lemma stream_hex_byte: "stream_hex (ascii (hex_byte b)) = b"
proof -
  let ?h = "unat (drop_bit 4 b)" and ?l = "unat (b AND 0xF)"
  have "stream_hex (ascii (hex_byte b)) = of_nat (16 * ?h + ?l)"
    using hex_char_read [OF nibbles(1) [of b]] hex_char_read [OF nibbles(2) [of b]]
    by (simp add: stream_hex_def ascii_def hex_byte_def hex_digit_def)
  then show ?thesis using nibbles(3) [of b] by simp
qed

lemma hex_pair_at: "i < length bs \<Longrightarrow> take 2 (drop (i * 2) (bytes_to_hex bs)) = hex_byte (bs ! i)"
proof (induction bs arbitrary: i)
  case (Cons b bs)
  then show ?case by (cases i) (auto simp: bytes_to_hex_def)
qed simp

lemma node_id_hex_roundtrip: "length nid = 32 \<Longrightarrow> node_id_of_hex (ascii (bytes_to_hex nid)) = nid"
proof -
  assume l: "length nid = 32"
  have "stream_hex (take 2 (drop (i * 2) (ascii (bytes_to_hex nid)))) = nid ! i" if "i < 32" for i
    using hex_pair_at [of i nid] l that stream_hex_byte [of "nid ! i"]
    by (simp add: ascii_def take_map drop_map)
  then show ?thesis using l by (auto simp: node_id_of_hex_def intro: nth_equalityI)
qed

section \<open>Identifiers and keys\<close>

text \<open>Only the first eight bytes of an identifier are the key: a session whose identifier
  agrees with an open one there is refused as a duplicate, and looking it up gives
  the other session.\<close>

lemma session_id_prefix_alias:
  assumes "mgr_inv m" "(to_key (sid s), s) \<in> set (sessions m)" "crl m = None"
    and "take 8 (sid t) = take 8 (sid s)"
  shows "snd (mgr_open t m) = Err (smo_err CatSession 504 Warn NoRetry RecNone) \<and> lookup (sid t) m = Some s"
proof -
  have k: "to_key (sid t) = to_key (sid s)" using assms(4) by (simp add: to_key_def)
  have "map_of (sessions m) (to_key (sid s)) = Some s"
    using assms(1,2) by (intro map_of_is_SomeI) (auto simp: mgr_inv_def)
  with k assms(3) show ?thesis by (simp add: mgr_open_def lookup_def Let_def)
qed

section \<open>Concrete sessions\<close>

definition sample_session :: "SessionState \<Rightarrow> i64 \<Rightarrow> Session" where
  "sample_session st ex =
     \<lparr>sid = replicate 16 1, state = st, peer_id = replicate 32 2, peer_cert = sample_cert [1] [2], caps = 5,
      fingerprint = [], created_at = 0, expires_at = ex, last_active = 0,
      security_state = \<lparr>sec_session_id = replicate 16 1, epoch = 0, tx_sequence = 0, rx_epoch = 0,
                        rx_window = window_new\<rparr>,
      channels = []\<rparr>"

definition sample_mgr :: "SessionState \<Rightarrow> i64 \<Rightarrow> SessionManager" where
  "sample_mgr st ex = \<lparr>sessions = [(to_key (replicate 16 1), sample_session st ex)], crl = None\<rparr>"

lemma sweep_keeps_example:
  "sessions (collect_garbage (tick 100 (sample_mgr Established 50))) = [] \<and>
   (to_key (replicate 16 1), sample_session Active 50) \<in>
     set (sessions (collect_garbage (tick 100 (sample_mgr Active 50))))"
proof
  have "\<not> (k, s) \<in> set (sessions (collect_garbage (tick 100 (sample_mgr Established 50))))" for k s
    using sweep_keeps [of "sample_mgr Established 50" k s 100]
    by (auto simp: sample_mgr_def sample_session_def word_sless_alt)
  then show "sessions (collect_garbage (tick 100 (sample_mgr Established 50))) = []"
    by (metis list.set_intros(1) neq_Nil_conv surj_pair)
  show "(to_key (replicate 16 1), sample_session Active 50) \<in>
     set (sessions (collect_garbage (tick 100 (sample_mgr Active 50))))"
    using sweep_keeps [of "sample_mgr Active 50" "to_key (replicate 16 1)" "sample_session Active 50" 100]
    by (auto simp: sample_mgr_def sample_session_def)
qed

lemma sample_mgr_ok:
  "mgr_inv (sample_mgr Active 50)" "length (sessions (sample_mgr Active 50)) < 2 ^ 32"
  "\<forall>(k, s) \<in> set (sessions (sample_mgr Active 50)). storable s"
  by (auto simp: mgr_inv_def sample_mgr_def sample_session_def storable_def session_wf_def cert_wf_def
      fits_def sample_cert_def session_serialize_def cert_serialize_def append_bytes_def append_u32_def)

theorem crash_recovery_witness:
  "\<exists>m' s'. recover (Some (serialize_all (sample_mgr Active 50))) 7 \<lparr>sessions = [], crl = None\<rparr> = (m', Ok 1) \<and>
     (to_key (replicate 16 1), s') \<in> set (sessions m') \<and> state s' = Closed"
proof -
  obtain m' n where r: "recover (Some (serialize_all (sample_mgr Active 50))) 7 \<lparr>sessions = [], crl = None\<rparr> = (m', Ok n)"
    and n: "n = length (filter (\<lambda>(k, s). state s \<in> {Established, Active, Renewing}) (sessions (sample_mgr Active 50)))"
    and ss: "\<forall>k s'. (k, s') \<in> set (sessions m') \<longleftrightarrow>
        (\<exists>s. (k, s) \<in> set (sessions (sample_mgr Active 50)) \<and> recover_one 7 (stored s) = Some s')"
    and closed: "\<forall>(k, s') \<in> set (sessions m'). state s' = Closed \<and> expires_at s' = 7"
    using crash_recovery [OF sample_mgr_ok, where now = 7 and c = None] by blast
  have "n = 1" using n by (simp add: sample_mgr_def sample_session_def)
  moreover obtain s' where "recover_one 7 (stored (sample_session Active 50)) = Some s'"
    by (simp add: recover_one_def stored_def sample_session_def)
  then have "(to_key (replicate 16 1), s') \<in> set (sessions m')"
    using ss by (auto simp: sample_mgr_def)
  ultimately show ?thesis using r closed by auto
qed

end
