(* ===== verification/Packet_Dispatcher.thy ===== *)
theory Packet_Dispatcher
  imports Packet Session Framing Node_Lifecycle
begin

text \<open>
  The packet dispatcher of core/network/packet_dispatcher.hpp and packet_dispatcher.cpp.  It is
  where the components meet: the packet parser, the opcode registry, the session
  table with its replay windows, the AEAD, the node lifecycle and the handlers.

  A handler is a function of the packet; the outcome of a dispatch names the
  handler that was called and the packet it received.  The registry, the AEAD
  primitives, the receive key of the secure session and the lifecycle (None when
  none is set) are arguments.  What the transport delivers is an argument too, and
  the gossip engine and the raw handler are functions of the bytes.
\<close>

section \<open>The handlers\<close>

type_synonym handler = "Packet \<Rightarrow> unit result"
type_synonym handlers = "u32 \<rightharpoonup> handler"

definition register_handler :: "u32 \<Rightarrow> handler \<Rightarrow> handlers \<Rightarrow> handlers" where
  "register_handler op h hs = hs(op \<mapsto> h)"

definition unregister_handler :: "u32 \<Rightarrow> handlers \<Rightarrow> handlers" where
  "unregister_handler op hs = hs(op := None)"

definition has_handler :: "u32 \<Rightarrow> handlers \<Rightarrow> bool" where
  "has_handler op hs \<longleftrightarrow> hs op \<noteq> None"

definition gate :: "NodeLifecycleFSM option \<Rightarrow> u32 \<Rightarrow> unit result" where
  "gate lifecycle op = (case lifecycle of None \<Rightarrow> Ok () | Some f \<Rightarrow> check_opcode_allowed f op)"

type_synonym outcome = "(u32 \<times> Packet) option \<times> unit result"

definition dispatch :: "NodeLifecycleFSM option \<Rightarrow> handlers \<Rightarrow> Packet \<Rightarrow> outcome" where
  "dispatch lifecycle hs pkt =
     (case gate lifecycle (opcode_id pkt) of
        Err e \<Rightarrow> (None, Err e)
      | Ok _ \<Rightarrow>
          (case hs (opcode_id pkt) of
             None \<Rightarrow> (None, Err (err_packet 604))
           | Some h \<Rightarrow> (Some (opcode_id pkt, pkt), h pkt)))"

section \<open>The unsealed path\<close>

definition kGossipFrameMagic :: u32 where "kGossipFrameMagic = 0x474F5350"

definition gossip_magic :: "bytes \<Rightarrow> u32" where
  "gossip_magic pl =
     push_bit 24 (ucast (pl ! 0)) OR push_bit 16 (ucast (pl ! 1)) OR push_bit 8 (ucast (pl ! 2)) OR ucast (pl ! 3)"

definition dispatch_session ::
  "OpcodeRegistry \<Rightarrow> NodeLifecycleFSM option \<Rightarrow> handlers \<Rightarrow> (bytes \<Rightarrow> unit result) option \<Rightarrow>
   (bytes \<Rightarrow> unit result) option \<Rightarrow> bytes result \<Rightarrow> outcome" where
  "dispatch_session reg lifecycle hs gossip raw_handler recvd =
     (case recvd of
        Err _ \<Rightarrow> (None, Err (smo_err CatTransport 304 SevError RetrySafe RecNone))
      | Ok raw \<Rightarrow>
          let fallback = (case raw_handler of
                Some rh \<Rightarrow> (None, rh raw)
              | None \<Rightarrow>
                  (None, Err (if frame_read raw = None
                              then smo_err CatTransport 309 SevError RetrySafe RecNone else err_packet 600)))
          in case frame_read raw of
               None \<Rightarrow> fallback
             | Some (_, pl, _) \<Rightarrow>
                 (case (if length pl \<ge> 4 \<and> gossip_magic pl = kGossipFrameMagic then gossip else None) of
                    Some g \<Rightarrow> (None, g (drop 4 pl))
                  | None \<Rightarrow>
                      (case packet_from_buffer reg pl of
                         Err _ \<Rightarrow> fallback
                       | Ok pkt \<Rightarrow> dispatch lifecycle hs pkt)))"

section \<open>The sealed path\<close>

definition window_of :: "Session \<Rightarrow> ReplayWindow" where
  "window_of s = rx_window (security_state s)"

definition set_window :: "ReplayWindow \<Rightarrow> Session \<Rightarrow> Session" where
  "set_window w s = s\<lparr>security_state := (security_state s)\<lparr>rx_window := w\<rparr>\<rparr>"

definition dispatch_packet_session ::
  "OpcodeRegistry \<Rightarrow> (bytes \<Rightarrow> bytes) \<Rightarrow> aead_unlock \<Rightarrow> NodeLifecycleFSM option \<Rightarrow> handlers \<Rightarrow> bytes \<Rightarrow>
   bytes result \<Rightarrow> SessionManager \<Rightarrow> SessionManager \<times> outcome" where
  "dispatch_packet_session reg blake3 unlock lifecycle hs rx_key recvd m =
     (case recvd of
        Err _ \<Rightarrow> (m, None, Err (smo_err CatTransport 304 SevError RetrySafe RecNone))
      | Ok sealed \<Rightarrow>
     case packet_from_buffer reg sealed of
        Err _ \<Rightarrow> (m, None, Err (err_packet 600))
      | Ok pkt \<Rightarrow>
     case from_packet_route reg (ph_ns (header pkt)) (ph_message_id (header pkt)) of
        None \<Rightarrow> (m, None, Err (err_packet 604))
      | Some op \<Rightarrow>
     case lookup (session_id (header pkt)) m of
        None \<Rightarrow> (m, None, Err (smo_err CatSession 501 SevError NoRetry Reconnect))
      | Some s \<Rightarrow>
     if \<not> is_acceptable (window_of s) (nonce (header pkt)) then (m, None, Err (err_packet 606))
     else
     case packet_open_data blake3 unlock pkt rx_key of
        (_, Err _) \<Rightarrow> (m, None, Err (err_packet 607))
      | (pkt', Ok _) \<Rightarrow>
     case window_commit (nonce (header pkt)) (window_of s) of
        (_, False) \<Rightarrow> (m, None, Err (err_packet 606))
      | (w, True) \<Rightarrow>
     let m' = update_session (to_key (session_id (header pkt))) (set_window w s) m in
     case gate lifecycle (ucast op) of
        Err e \<Rightarrow> (m', None, Err e)
      | Ok _ \<Rightarrow>
     (case hs (ucast op) of
        None \<Rightarrow> (m', None, Err (err_packet 604))
      | Some h \<Rightarrow> (m', Some (ucast op, pkt'), h pkt')))"

section \<open>Replay windows of the table\<close>

text \<open>The table of sessions as one replay filter, whose keys are the session key and the
  sequence number.\<close>

definition mgr_commit :: "u64 \<times> u64 \<Rightarrow> SessionManager \<Rightarrow> SessionManager \<times> bool" where
  "mgr_commit kn m =
     (case map_of (sessions m) (fst kn) of
        None \<Rightarrow> (m, False)
      | Some s \<Rightarrow>
          (case window_commit (snd kn) (window_of s) of
             (w, b) \<Rightarrow> if b then (update_session (fst kn) (set_window w s) m, True) else (m, False)))"

definition mgr_refused :: "SessionManager \<Rightarrow> (u64 \<times> u64) set" where
  "mgr_refused m = {(k, n). \<exists>s. map_of (sessions m) k = Some s \<and> n \<in> refused (window_of s)}"

definition windows_inv :: "SessionManager \<Rightarrow> bool" where
  "windows_inv m \<longleftrightarrow> (\<forall>k s. map_of (sessions m) k = Some s \<longrightarrow> window_inv (window_of s))"

lemma map_of_update:
  "map_of (sessions (update_session k s m)) k' =
     (if k' = k \<and> map_of (sessions m) k \<noteq> None then Some s else map_of (sessions m) k')"
proof -
  have "map_of (map (\<lambda>(k', s'). (k', if k' = k then s else s')) xs) k' =
      (if k' = k \<and> map_of xs k \<noteq> None then Some s else map_of xs k')" for xs
    by (induction xs) auto
  then show ?thesis by (simp add: update_session_def)
qed

lemma window_of_set [simp]: "window_of (set_window w s) = w"
  by (simp add: window_of_def set_window_def)

interpretation table: replay_filter mgr_commit mgr_refused windows_inv
proof unfold_locales
  fix m kn m'
  assume i: "windows_inv m" and c: "mgr_commit kn m = (m', True)"
  obtain k n where kn: "kn = (k, n)" by (cases kn)
  obtain s w where s: "map_of (sessions m) k = Some s" "window_commit n (window_of s) = (w, True)"
    and m': "m' = update_session k (set_window w s) m"
    using c kn by (auto simp: mgr_commit_def split: option.splits prod.splits if_splits)
  have w: "window_inv (window_of s)" using i s by (auto simp: windows_inv_def)
  show "kn \<notin> mgr_refused m"
    using window.accept_fresh [OF w s(2)] s kn by (auto simp: mgr_refused_def)
  show "insert kn (mgr_refused m) \<subseteq> mgr_refused m'"
  proof
    fix x assume x: "x \<in> insert kn (mgr_refused m)"
    have sub: "insert n (refused (window_of s)) \<subseteq> refused w" using window.accept_seen [OF w s(2)] .
    obtain k' n' where kn': "x = (k', n')" by (cases x)
    show "x \<in> mgr_refused m'"
    proof (cases "k' = k")
      case True
      then have "n' \<in> refused w" using x kn kn' s(1) sub by (auto simp: mgr_refused_def)
      then show ?thesis using True kn' s(1) m' by (simp add: mgr_refused_def map_of_update)
    next
      case False
      then show ?thesis using x kn kn' m' by (simp add: mgr_refused_def map_of_update)
    qed
  qed
next
  fix m kn m'
  assume "mgr_commit kn m = (m', False)"
  then show "m' = m" by (auto simp: mgr_commit_def split: option.splits prod.splits if_splits)
next
  fix m kn m' b
  assume i: "windows_inv m" and c: "mgr_commit kn m = (m', b)"
  obtain k n where kn: "kn = (k, n)" by (cases kn)
  show "windows_inv m'"
  proof (cases b)
    case True
    then obtain s w where s: "map_of (sessions m) k = Some s" "window_commit n (window_of s) = (w, True)"
      and m': "m' = update_session k (set_window w s) m"
      using c kn by (auto simp: mgr_commit_def split: option.splits prod.splits if_splits)
    have "window_inv w" using window.accept_inv [OF _ s(2)] i s by (auto simp: windows_inv_def)
    then show ?thesis using i s m' by (auto simp: windows_inv_def map_of_update)
  next
    case False
    then show ?thesis using i c by (auto simp: mgr_commit_def split: option.splits prod.splits if_splits)
  qed
qed

section \<open>What a sealed packet must pass\<close>

text \<open>The part of the dispatch that does not depend on the table: the packet is parsed,
  routed and opened; its key is the session and the sequence number.\<close>

definition sealed_key ::
  "OpcodeRegistry \<Rightarrow> (bytes \<Rightarrow> bytes) \<Rightarrow> aead_unlock \<Rightarrow> bytes \<Rightarrow> bytes result \<Rightarrow> (u64 \<times> u64) option" where
  "sealed_key reg blake3 unlock rx_key recvd =
     (case recvd of
        Err _ \<Rightarrow> None
      | Ok sealed \<Rightarrow>
          (case packet_from_buffer reg sealed of
             Err _ \<Rightarrow> None
           | Ok pkt \<Rightarrow>
               if from_packet_route reg (ph_ns (header pkt)) (ph_message_id (header pkt)) \<noteq> None \<and>
                  snd (packet_open_data blake3 unlock pkt rx_key) = Ok ()
               then Some (to_key (session_id (header pkt)), nonce (header pkt)) else None))"

definition packet_key :: "Packet \<Rightarrow> u64 \<times> u64" where
  "packet_key pkt = (to_key (session_id (header pkt)), nonce (header pkt))"

lemma open_keeps_header: "packet_open_data blake3 unlock pkt key = (pkt', r) \<Longrightarrow> header pkt' = header pkt"
  by (auto simp: packet_open_data_def Let_def split: if_splits option.splits)

text \<open>Effect on the table, and the call, of one dispatch.\<close>

lemma dispatch_effect:
  "fst (dispatch_packet_session reg blake3 unlock lifecycle hs rx_key recvd m) =
     (case sealed_key reg blake3 unlock rx_key recvd of None \<Rightarrow> m | Some kn \<Rightarrow> fst (mgr_commit kn m))"
  by (auto simp: dispatch_packet_session_def sealed_key_def mgr_commit_def lookup_def Let_def window_commit_def
      split: result.splits option.splits prod.splits if_splits bool.splits)

lemma dispatch_call:
  assumes "dispatch_packet_session reg blake3 unlock lifecycle hs rx_key recvd m = (m', Some (op, pkt), r)"
  shows "\<exists>sealed pkt0 s h.
     recvd = Ok sealed \<and> packet_from_buffer reg sealed = Ok pkt0 \<and>
     map_option ucast (from_packet_route reg (ph_ns (header pkt0)) (ph_message_id (header pkt0))) = Some op \<and>
     lookup (session_id (header pkt0)) m = Some s \<and> is_acceptable (window_of s) (nonce (header pkt0)) \<and>
     packet_open_data blake3 unlock pkt0 rx_key = (pkt, Ok ()) \<and>
     gate lifecycle op = Ok () \<and> hs op = Some h \<and> r = h pkt"
  using assms
  by (auto simp: dispatch_packet_session_def Let_def
      split: result.splits option.splits prod.splits if_splits bool.splits)

lemma dispatch_call_commits:
  assumes "dispatch_packet_session reg blake3 unlock lifecycle hs rx_key recvd m = (m', Some (op, pkt), r)"
  shows "sealed_key reg blake3 unlock rx_key recvd = Some (packet_key pkt) \<and>
         snd (mgr_commit (packet_key pkt) m)"
proof -
  obtain sealed pkt0 s h where p: "recvd = Ok sealed" "packet_from_buffer reg sealed = Ok pkt0"
    "map_option ucast (from_packet_route reg (ph_ns (header pkt0)) (ph_message_id (header pkt0))) = Some op"
    "lookup (session_id (header pkt0)) m = Some s" "is_acceptable (window_of s) (nonce (header pkt0))"
    "packet_open_data blake3 unlock pkt0 rx_key = (pkt, Ok ())"
    using dispatch_call [OF assms] by blast
  have h: "header pkt = header pkt0" using open_keeps_header [OF p(6)] .
  have "sealed_key reg blake3 unlock rx_key recvd = Some (packet_key pkt)"
    using p h by (auto simp: sealed_key_def packet_key_def)
  moreover have "snd (mgr_commit (packet_key pkt) m)"
    using p(4,5) h commit_iff_acceptable [of "nonce (header pkt0)" "window_of s"]
    by (auto simp: mgr_commit_def packet_key_def lookup_def split: prod.splits)
  ultimately show ?thesis by simp
qed

text \<open>
  C5. No handler is called without authentication: a call on the sealed path means
  that the bytes parsed as a packet with a registered route, the session is in the
  table and its window accepted the sequence number, the packet opened under the
  connection's receive key, the lifecycle admits the opcode, and the packet handed
  over is the opened one with the header that was received.
\<close>

theorem dispatched_packet_authenticated:
  assumes "registry_reach reg"
    and "dispatch_packet_session reg blake3 unlock lifecycle hs rx_key recvd m = (m', Some (op, pkt), r)"
  shows "\<exists>wire pkt0 s. recvd = Ok wire \<and> packet_to_buffer reg pkt0 = (wire, Ok ()) \<and> sendable reg pkt0 \<and>
     packet_open_data blake3 unlock pkt0 rx_key = (pkt, Ok ()) \<and> header pkt = header pkt0 \<and>
     op = opcode_id pkt0 \<and>
     lookup (session_id (header pkt)) m = Some s \<and> packet_key pkt \<notin> mgr_refused m \<and>
     (case lifecycle of None \<Rightarrow> True | Some f \<Rightarrow> check_opcode_allowed f op = Ok ())"
proof -
  obtain wire pkt0 s h where p: "recvd = Ok wire" "packet_from_buffer reg wire = Ok pkt0"
    "map_option ucast (from_packet_route reg (ph_ns (header pkt0)) (ph_message_id (header pkt0))) = Some op"
    "lookup (session_id (header pkt0)) m = Some s" "is_acceptable (window_of s) (nonce (header pkt0))"
    "packet_open_data blake3 unlock pkt0 rx_key = (pkt, Ok ())" "gate lifecycle op = Ok ()"
    using dispatch_call [OF assms(2)] by blast
  have h: "header pkt = header pkt0" using open_keeps_header [OF p(6)] .
  have "received reg pkt0 = pkt0" using packet_from_buffer_Ok [OF p(2)] by blast
  moreover have "opcode_id (received reg pkt0) = op" using p(3) by (auto simp: received_def)
  ultimately have "op = opcode_id pkt0" by simp
  moreover have "packet_key pkt \<notin> mgr_refused m"
    using p(4,5) h by (auto simp: mgr_refused_def packet_key_def lookup_def refused_def)
  ultimately show ?thesis
    using p h accepted_is_sendable [OF assms(1) p(2)] by (auto simp: gate_def split: option.splits)
qed

text \<open>A run of the receiver over many frames, each with the receive key of its
  connection; the keys of the packets that reached a handler.\<close>

primrec calls ::
  "OpcodeRegistry \<Rightarrow> (bytes \<Rightarrow> bytes) \<Rightarrow> aead_unlock \<Rightarrow> NodeLifecycleFSM option \<Rightarrow> handlers \<Rightarrow>
   (bytes \<times> bytes result) list \<Rightarrow> SessionManager \<Rightarrow> (u64 \<times> u64) list" where
  "calls reg blake3 unlock lifecycle hs [] m = []"
| "calls reg blake3 unlock lifecycle hs (f # fs) m =
     (case dispatch_packet_session reg blake3 unlock lifecycle hs (fst f) (snd f) m of
        (m', c, _) \<Rightarrow>
          (case c of Some (op, pkt) \<Rightarrow> [packet_key pkt] | None \<Rightarrow> []) @ calls reg blake3 unlock lifecycle hs fs m')"

text \<open>The calls are among the commits of the table's replay filter.\<close>

lemma calls_subseq:
  "subseq (calls reg blake3 unlock lifecycle hs fs m)
     (table.accepted (List.map_filter (\<lambda>f. sealed_key reg blake3 unlock (fst f) (snd f)) fs) m)"
proof (induction fs arbitrary: m)
  case (Cons f fs)
  obtain m' c r where d: "dispatch_packet_session reg blake3 unlock lifecycle hs (fst f) (snd f) m = (m', c, r)"
    by (metis prod_cases3)
  show ?case
  proof (cases "sealed_key reg blake3 unlock (fst f) (snd f)")
    case None
    then have "m' = m" "c = None"
      using dispatch_effect [of reg blake3 unlock lifecycle hs "fst f" "snd f" m]
        dispatch_call_commits [of reg blake3 unlock lifecycle hs "fst f" "snd f" m m' _ _ r] d
      by (simp, cases c) auto
    then show ?thesis using Cons.IH [of m] None d by (simp add: map_filter_simps)
  next
    case (Some kn)
    then have m': "m' = fst (mgr_commit kn m)"
      using dispatch_effect [of reg blake3 unlock lifecycle hs "fst f" "snd f" m] d by simp
    have "subseq (calls reg blake3 unlock lifecycle hs fs m')
        (table.accepted (List.map_filter (\<lambda>f. sealed_key reg blake3 unlock (fst f) (snd f)) fs) (fst (mgr_commit kn m)))"
      using Cons.IH [of m'] m' by simp
    moreover have "subseq (case c of Some (op, pkt) \<Rightarrow> [packet_key pkt] | None \<Rightarrow> [])
        (if snd (mgr_commit kn m) then [kn] else [])"
      using dispatch_call_commits [of reg blake3 unlock lifecycle hs "fst f" "snd f" m m' _ _ r] d Some
      by (cases c) auto
    ultimately show ?thesis
      using Some d by (simp add: map_filter_simps case_prod_beta list_emb_append_mono)
  qed
qed simp

lemma distinct_subseq: "subseq xs ys \<Longrightarrow> distinct ys \<Longrightarrow> distinct xs"
  by (auto simp: subseq_conv_nths distinct_nthsI)

text \<open>
  C7. No packet is delivered twice: whatever frames arrive, in whatever order and
  over whatever connections, the pairs of session key and sequence number of the
  packets that reach a handler are pairwise different.
\<close>

theorem no_packet_delivered_twice:
  assumes "windows_inv m"
  shows "distinct (calls reg blake3 unlock lifecycle hs frames m)"
  by (rule distinct_subseq [OF calls_subseq table.accepted_distinct [OF assms]])

section \<open>A packet of another session\<close>

text \<open>The dispatcher takes the session from the packet and the key from the connection; it
  does not compare the two.  After the window has reached the greatest number,
  nothing but the last 63 numbers is acceptable.\<close>

lemma window_at_end:
  assumes "highest w = - 1" "unat n + 64 \<le> 2 ^ 64 - 1"
  shows "\<not> is_acceptable w n"
proof -
  have "unat (highest w - n) = unat (highest w) - unat n"
    by (rule unat_diff) (simp add: assms(1))
  then have "unat (highest w - n) = 2 ^ 64 - 1 - unat n" using assms(1) by (simp add: unsigned_minus_1_eq_mask mask_eq_exp_minus_1)
  then have "highest w - n \<ge> kWindowBits" using assms(2) by (simp add: word_le_nat_alt kWindowBits_def)
  then show ?thesis using assms(1) by (simp add: is_acceptable_def Let_def)
qed

lemma commit_end: "highest w \<noteq> - 1 \<Longrightarrow> \<exists>w'. window_commit (- 1) w = (w', True) \<and> highest w' = - 1"
proof -
  assume "highest w \<noteq> - 1"
  then have "highest w < - 1" using word_order.not_eq_extremum by blast
  then show ?thesis by (auto simp: window_commit_def is_acceptable_def Let_def)
qed

text \<open>
  C39. Any peer with an established connection can silence another session: a packet
  that carries the other session's identifier, sealed under the sender's own key
  with the greatest sequence number, is accepted over the sender's connection and
  moves the other session's window to its end, after which that session's own
  packets are refused.
\<close>

theorem foreign_packet_silences_session:
  assumes "aead_correct blake3 lock unlock" "length key = 32"
    and "header_wf (header pkt)" "\<not> zero_session (session_id (header pkt))" "length (payload pkt) \<le> 65535"
    and "ph_message_id (header pkt) \<noteq> 0" "ph_ns (header pkt) \<noteq> kNamespaceControl"
      "validate_packet_opcode (ph_ns (header pkt)) (ph_message_id (header pkt)) reg = Ok ()" "registry_reach reg"
    and victim: "lookup (session_id (header pkt)) m = Some s" "highest (window_of s) \<noteq> - 1"
  shows "\<exists>pkt1 wire. packet_seal_data blake3 lock pkt key (- 1) = (pkt1, Ok ()) \<and>
     packet_to_buffer reg pkt1 = (wire, Ok ()) \<and>
     (\<exists>s'. lookup (session_id (header pkt))
              (fst (dispatch_packet_session reg blake3 unlock lifecycle hs key (Ok wire) m)) = Some s' \<and>
           (\<forall>n. unat n + 64 \<le> 2 ^ 64 - 1 \<longrightarrow> \<not> is_acceptable (window_of s') n))"
proof -
  have ne: "(- 1 :: u64) \<noteq> 0" by simp
  obtain pkt1 wire pkt2 pkt3 where p: "packet_seal_data blake3 lock pkt key (- 1) = (pkt1, Ok ())"
      "packet_to_buffer reg pkt1 = (wire, Ok ())" "packet_from_buffer reg wire = Ok pkt2"
      "packet_open_data blake3 unlock pkt2 key = (pkt3, Ok ())" "header pkt3 = header pkt1"
    using sealed_delivery [OF assms(1,2) ne assms(3-8)] by blast
  have h1: "session_id (header pkt1) = session_id (header pkt)" "nonce (header pkt1) = - 1"
    "ph_ns (header pkt1) = ph_ns (header pkt)" "ph_message_id (header pkt1) = ph_message_id (header pkt)"
    using p(1) by (auto simp: packet_seal_data_def Let_def split: if_splits option.splits)
  have h2: "header pkt2 = header pkt1" using open_keeps_header [OF p(4)] p(5) by simp
  have "from_packet_route reg (ph_ns (header pkt)) (ph_message_id (header pkt)) \<noteq> None"
    using validated_wire_id [OF assms(9,8)] by auto
  then have key: "sealed_key reg blake3 unlock key (Ok wire) = Some (to_key (session_id (header pkt)), - 1)"
    using p h1 h2 by (simp add: sealed_key_def)
  obtain w' where w': "window_commit (- 1) (window_of s) = (w', True)" "highest w' = - 1"
    using commit_end [OF victim(2)] by blast
  have "lookup (session_id (header pkt))
      (fst (dispatch_packet_session reg blake3 unlock lifecycle hs key (Ok wire) m)) = Some (set_window w' s)"
    using victim(1) w'(1) unfolding dispatch_effect key
    by (simp add: mgr_commit_def lookup_def map_of_update)
  then show ?thesis using p(1,2) window_at_end [OF w'(2)] by auto
qed

text \<open>A control-plane packet carries a signature, never a tag of sixteen bytes: the sealed
  path refuses every one of them.\<close>

lemma control_packets_refused:
  assumes "packet_from_buffer reg sealed = Ok pkt" "ph_ns (header pkt) = kNamespaceControl"
  shows "fst (snd (dispatch_packet_session reg blake3 unlock lifecycle hs rx_key (Ok sealed) m)) = None"
proof -
  have "length (auth pkt) \<noteq> kAeadTagLen"
    using packet_from_buffer_Ok [OF assms(1)] assms(2)
    by (auto simp: expected_auth_length_def namespaces kAeadTagLen_def kEd25519SigLen_def kMlDsa65SigLen_def
        split: if_splits)
  then have "snd (packet_open_data blake3 unlock pkt rx_key) \<noteq> Ok ()"
    by (simp add: packet_open_data_def)
  then show ?thesis
    using assms(1) dispatch_call [of reg blake3 unlock lifecycle hs rx_key "Ok sealed" m]
    by (metis (no_types, lifting) option.exhaust prod.exhaust_sel result.inject(1) snd_conv)
qed

section \<open>A concrete dispatch\<close>

definition sample_table :: SessionManager where
  "sample_table = \<lparr>sessions = [(to_key (replicate 16 7), (sample_session Active 50)\<lparr>sid := replicate 16 7\<rparr>)], crl = None\<rparr>"

definition sample_handlers :: handlers where
  "sample_handlers = register_handler 0x60 (\<lambda>_. Ok ()) Map.empty"

definition sample_wire :: bytes where
  "sample_wire = serialize_packet_header (header (sample_packet 4 1)) @ [1, 2] @ replicate 16 0"

abbreviation plain_unlock :: aead_unlock where
  "plain_unlock \<equiv> \<lambda>_ _ _ _ ct. Some ct"

lemma sample_acceptable: "is_acceptable window_new 9"
  by (simp add: is_acceptable_def window_new_def)

lemma sample_open:
  "packet_open_data (\<lambda>_. replicate 32 0) plain_unlock (sample_packet 4 1) (replicate 32 1) =
     ((sample_packet 4 1)\<lparr>payload := [1, 2], auth := []\<rparr>, Ok ())"
  by (simp add: packet_open_data_def sample_packet_def kAeadKeyLen_def kAeadTagLen_def kAeadNonceLen_def
      derive_aead_nonce_def xchacha20_decrypt_def)

lemma sample_dispatch:
  "\<exists>m'. dispatch_packet_session opcode_registry_new (\<lambda>_. replicate 32 0) plain_unlock None sample_handlers
     (replicate 32 1) (Ok sample_wire) sample_table =
     (m', Some (0x60, (sample_packet 4 1)\<lparr>payload := [1, 2], auth := []\<rparr>), Ok ())"
proof -
  obtain w where "window_commit 9 window_new = (w, True)"
    using commit_iff_acceptable [of 9 window_new] sample_acceptable by (metis prod.collapse)
  moreover have "ph_ns (header (sample_packet 4 1)) = 4" "ph_message_id (header (sample_packet 4 1)) = 1"
    "session_id (header (sample_packet 4 1)) = replicate 16 7" "nonce (header (sample_packet 4 1)) = 9"
    by (simp_all add: sample_packet_def)
  moreover have "lookup (replicate 16 7) sample_table = Some ((sample_session Active 50)\<lparr>sid := replicate 16 7\<rparr>)"
    by (simp add: lookup_def sample_table_def)
  moreover have "window_of ((sample_session Active 50)\<lparr>sid := replicate 16 7\<rparr>) = window_new"
    by (simp add: window_of_def sample_session_def)
  ultimately show ?thesis
    using sample_accepted channel_open_from sample_acceptable sample_open
    unfolding dispatch_packet_session_def sample_wire_def
    by (simp add: gate_def sample_handlers_def register_handler_def Let_def)
qed

theorem dispatched_packet_authenticated_witness:
  "\<exists>pkt0. packet_to_buffer opcode_registry_new pkt0 = (sample_wire, Ok ()) \<and> sendable opcode_registry_new pkt0 \<and>
     opcode_id pkt0 = 0x60"
proof -
  obtain m' where "dispatch_packet_session opcode_registry_new (\<lambda>_. replicate 32 0) plain_unlock None sample_handlers
     (replicate 32 1) (Ok sample_wire) sample_table =
     (m', Some (0x60, (sample_packet 4 1)\<lparr>payload := [1, 2], auth := []\<rparr>), Ok ())"
    using sample_dispatch by blast
  from dispatched_packet_authenticated [OF registry_reach.new this] show ?thesis by auto
qed

lemma sample_table_inv: "windows_inv sample_table"
  using window_new_inv by (auto simp: windows_inv_def sample_table_def window_of_def sample_session_def)

theorem no_packet_delivered_twice_witness:
  "windows_inv sample_table \<and>
   distinct (calls opcode_registry_new (\<lambda>_. replicate 32 0) plain_unlock None sample_handlers
     [(replicate 32 1, Ok sample_wire), (replicate 32 1, Ok sample_wire)] sample_table)"
  using no_packet_delivered_twice [OF sample_table_inv] sample_table_inv by blast

theorem foreign_packet_silences_session_witness:
  "\<exists>wire s'. lookup (replicate 16 7) (fst (dispatch_packet_session opcode_registry_new (\<lambda>_. replicate 32 0)
       plain_unlock None sample_handlers (replicate 32 1) (Ok wire) sample_table)) = Some s' \<and>
     \<not> is_acceptable (window_of s') 1"
proof -
  have "lookup (session_id (header (sample_packet 4 1))) sample_table = Some ((sample_session Active 50)\<lparr>sid := replicate 16 7\<rparr>)"
    by (simp add: lookup_def sample_table_def sample_packet_def)
  moreover have "highest (window_of ((sample_session Active 50)\<lparr>sid := replicate 16 7\<rparr>)) \<noteq> - 1"
    by (simp add: window_of_def sample_session_def window_new_def)
  ultimately show ?thesis
    using foreign_packet_silences_session [OF aead_sample, of "replicate 32 1" "sample_packet 4 1" opcode_registry_new
        sample_table _ None sample_handlers] channel_open_valid registry_reach.new
    by (fastforce simp: sample_packet_def header_wf_def zero_session_iff namespaces)
qed

end
