(* ===== verification/Governance.thy ===== *)
theory Governance
  imports Certificate
begin

text \<open>
  Mesh governance (core/governance/governance.hpp, governance.cpp): the actions and
  the quorum each of them needs, proposals and the signatures on them, and the
  engine that collects signatures and commits proposals.

  An enumeration read from the wire by a cast keeps a byte that is none of its
  enumerators.  The engine's unordered_map is an association list with distinct
  keys.  The authority resolver (an std::function that may be empty) and the
  signature check of the classical suite (absent when the suite is not registered)
  are arguments.  int is \<^typ>\<open>int\<close>; signed_at, created_at and expires_at are 64-bit
  words compared as signed numbers.
\<close>

section \<open>Enumerations\<close>

datatype GovernanceTier = Membership | Constitution | Unanimous | TierInvalid byte

datatype GovernanceLevel =
    LevelLocal | LevelAuthority | LevelPolicy | LevelCritical | LevelGenesis | LevelInvalid byte

datatype GovernanceAction =
    AddAuthority | RemoveAuthority | SuspendAuthority | ResumeAuthority
  | ChangeMaximum | ChangeMinimum | ChangeQuorum | ChangePolicy | UpdateManifest | UpgradeRuntime
  | ChangeCipherSuite | ChangeGovernanceRules | DestroyMesh | ChangeRecovery | CertificateRevocation
  | EpochIncrement | EmergencyLockdown | ActionInvalid byte

datatype ProposalState = Draft | Signing | Committed | Rejected | Expired | Conflicted | StateInvalid byte

primrec tier_byte :: "GovernanceTier \<Rightarrow> byte" where
  "tier_byte Membership = 0"
| "tier_byte Constitution = 1"
| "tier_byte Unanimous = 2"
| "tier_byte (TierInvalid b) = b"

definition tier_of :: "byte \<Rightarrow> GovernanceTier" where
  "tier_of b = (if b < 3 then [Membership, Constitution, Unanimous] ! unat b else TierInvalid b)"

primrec level_byte :: "GovernanceLevel \<Rightarrow> byte" where
  "level_byte LevelLocal = 0"
| "level_byte LevelAuthority = 1"
| "level_byte LevelPolicy = 2"
| "level_byte LevelCritical = 3"
| "level_byte LevelGenesis = 4"
| "level_byte (LevelInvalid b) = b"

definition level_of :: "byte \<Rightarrow> GovernanceLevel" where
  "level_of b =
     (if b < 5 then [LevelLocal, LevelAuthority, LevelPolicy, LevelCritical, LevelGenesis] ! unat b
      else LevelInvalid b)"

primrec action_byte :: "GovernanceAction \<Rightarrow> byte" where
  "action_byte AddAuthority = 0"
| "action_byte RemoveAuthority = 1"
| "action_byte SuspendAuthority = 2"
| "action_byte ResumeAuthority = 3"
| "action_byte ChangeMaximum = 4"
| "action_byte ChangeMinimum = 5"
| "action_byte ChangeQuorum = 6"
| "action_byte ChangePolicy = 7"
| "action_byte UpdateManifest = 8"
| "action_byte UpgradeRuntime = 9"
| "action_byte ChangeCipherSuite = 10"
| "action_byte ChangeGovernanceRules = 11"
| "action_byte DestroyMesh = 12"
| "action_byte ChangeRecovery = 13"
| "action_byte CertificateRevocation = 14"
| "action_byte EpochIncrement = 15"
| "action_byte EmergencyLockdown = 16"
| "action_byte (ActionInvalid b) = b"

definition action_of :: "byte \<Rightarrow> GovernanceAction" where
  "action_of b =
     (if b < 17 then
        [AddAuthority, RemoveAuthority, SuspendAuthority, ResumeAuthority, ChangeMaximum, ChangeMinimum,
         ChangeQuorum, ChangePolicy, UpdateManifest, UpgradeRuntime, ChangeCipherSuite, ChangeGovernanceRules,
         DestroyMesh, ChangeRecovery, CertificateRevocation, EpochIncrement, EmergencyLockdown] ! unat b
      else ActionInvalid b)"

primrec proposal_state_byte :: "ProposalState \<Rightarrow> byte" where
  "proposal_state_byte Draft = 0"
| "proposal_state_byte Signing = 1"
| "proposal_state_byte Committed = 2"
| "proposal_state_byte Rejected = 3"
| "proposal_state_byte Expired = 4"
| "proposal_state_byte Conflicted = 5"
| "proposal_state_byte (StateInvalid b) = b"

definition proposal_state_of :: "byte \<Rightarrow> ProposalState" where
  "proposal_state_of b =
     (if b < 6 then [Draft, Signing, Committed, Rejected, Expired, Conflicted] ! unat b else StateInvalid b)"

section \<open>Quorums\<close>

fun action_to_tier :: "GovernanceAction \<Rightarrow> GovernanceTier" where
  "action_to_tier AddAuthority = Membership"
| "action_to_tier RemoveAuthority = Membership"
| "action_to_tier SuspendAuthority = Membership"
| "action_to_tier ResumeAuthority = Membership"
| "action_to_tier ChangeMaximum = Constitution"
| "action_to_tier ChangeMinimum = Constitution"
| "action_to_tier ChangeQuorum = Constitution"
| "action_to_tier ChangePolicy = Constitution"
| "action_to_tier UpdateManifest = Constitution"
| "action_to_tier UpgradeRuntime = Constitution"
| "action_to_tier CertificateRevocation = Constitution"
| "action_to_tier ChangeCipherSuite = Unanimous"
| "action_to_tier ChangeGovernanceRules = Unanimous"
| "action_to_tier DestroyMesh = Unanimous"
| "action_to_tier ChangeRecovery = Unanimous"
| "action_to_tier EpochIncrement = Constitution"
| "action_to_tier EmergencyLockdown = Membership"
| "action_to_tier (ActionInvalid b) = Constitution"

definition default_quorum :: "GovernanceAction \<Rightarrow> int \<Rightarrow> int" where
  "default_quorum a total_authorities =
     (if total_authorities < 1 then 1
      else case action_to_tier a of
             Unanimous \<Rightarrow> total_authorities
           | Constitution \<Rightarrow> max 1 ((3 * total_authorities + 3) div 4)
           | _ \<Rightarrow> max 1 ((2 * total_authorities + 2) div 3))"

section \<open>Signatures and proposals\<close>

abbreviation err_governance :: "u16 \<Rightarrow> error_code" where
  "err_governance c \<equiv> smo_err CatGovernance c SevError NoRetry RecNone"

abbreviation err_vote :: error_code where
  "err_vote \<equiv> smo_err CatGovernance 800 SevError NoRetry GovernanceVote"

record GovernanceSignature =
  gs_authority_id :: bytes
  gs_signature :: bytes
  gs_signed_at :: i64

definition gs_serialize :: "GovernanceSignature \<Rightarrow> bytes" where
  "gs_serialize s =
     gs_authority_id s @ write_be 4 (of_nat (length (gs_signature s)) :: u32) @ gs_signature s
     @ write_be 8 (gs_signed_at s)"

definition gs_deserialize :: "bytes \<Rightarrow> GovernanceSignature result" where
  "gs_deserialize data =
     (if length data < 32 then Err (err_governance 810)
      else
        case read_be 4 (drop 32 data) of (sig_len :: u32, r) \<Rightarrow>
          if length r < unat sig_len then Err (err_governance 810)
          else Ok \<lparr>gs_authority_id = take 32 data, gs_signature = take (unat sig_len) r,
                   gs_signed_at = fst (read_be 8 (drop (unat sig_len) r))\<rparr>)"

text \<open>The loop that writes counted signatures, and the one that reads them and stops at
  the first that does not fit.\<close>

definition gs_list_serialize :: "GovernanceSignature list \<Rightarrow> bytes" where
  "gs_list_serialize sigs =
     write_be 4 (of_nat (length sigs) :: u32)
     @ concat (map (\<lambda>s. write_be 4 (of_nat (length (gs_serialize s)) :: u32) @ gs_serialize s) sigs)"

primrec gs_loop :: "nat \<Rightarrow> bytes \<Rightarrow> GovernanceSignature list" where
  "gs_loop 0 data = []"
| "gs_loop (Suc n) data =
     (case read_be 4 data of (sig_len :: u32, r) \<Rightarrow>
        if length r < unat sig_len then []
        else case gs_deserialize (take (unat sig_len) r) of
               Err _ \<Rightarrow> []
             | Ok s \<Rightarrow> s # gs_loop n (drop (unat sig_len) r))"

definition gs_list_deserialize :: "bytes \<Rightarrow> GovernanceSignature list" where
  "gs_list_deserialize data = (case read_be 4 data of (sig_count :: u32, r) \<Rightarrow> gs_loop (unat sig_count) r)"

record GovernanceProposal =
  gp_id :: u64
  gp_tier :: GovernanceTier
  gp_level :: GovernanceLevel
  gp_action :: GovernanceAction
  gp_payload :: bytes
  gp_created_at :: i64
  gp_expires_at :: i64
  gp_state :: ProposalState
  gp_threshold :: int
  gp_signatures :: "GovernanceSignature list"

definition threshold_met :: "GovernanceProposal \<Rightarrow> bool" where
  "threshold_met p \<longleftrightarrow> gp_threshold p \<le> int (length (gp_signatures p))"

definition is_expired :: "GovernanceProposal \<Rightarrow> i64 \<Rightarrow> bool" where
  "is_expired p now \<longleftrightarrow> 0 <s gp_expires_at p \<and> gp_expires_at p \<le>s now"

definition proposal_serialize :: "GovernanceProposal \<Rightarrow> bytes" where
  "proposal_serialize p =
     write_be 8 (gp_id p)
     @ [tier_byte (gp_tier p), level_byte (gp_level p), action_byte (gp_action p), proposal_state_byte (gp_state p)]
     @ write_be 4 (of_nat (length (gp_payload p)) :: u32) @ gp_payload p
     @ write_be 8 (gp_created_at p) @ write_be 8 (gp_expires_at p)
     @ [word_of_int (gp_threshold p)] @ gs_list_serialize (gp_signatures p)"

definition proposal_deserialize :: "bytes \<Rightarrow> GovernanceProposal result" where
  "proposal_deserialize data =
     (case read_be 8 data of (pid, r) \<Rightarrow>
        if length r < 4 then Err (err_governance 810)
        else
          case read_be 4 (drop 4 r) of (payload_len :: u32, r1) \<Rightarrow>
            if length r1 < unat payload_len then Err (err_governance 810)
            else
              let (created, r2) = read_be 8 (drop (unat payload_len) r1);
                  (expires, r3) = read_be 8 r2;
                  (th, r4) = (case r3 of b # r' \<Rightarrow> (uint b, r') | [] \<Rightarrow> (1, []))
              in Ok \<lparr>gp_id = pid, gp_tier = tier_of (r ! 0), gp_level = level_of (r ! 1),
                     gp_action = action_of (r ! 2), gp_payload = take (unat payload_len) r1,
                     gp_created_at = created, gp_expires_at = expires,
                     gp_state = proposal_state_of (r ! 3), gp_threshold = th,
                     gp_signatures = gs_list_deserialize r4\<rparr>)"

section \<open>Mesh health\<close>

datatype HealthLevel = Healthy | HealthWarning | HealthCritical | HealthRecovery

record MeshHealth =
  total_authorities :: u32
  online_authorities :: u32
  offline_authorities :: u32
  min_required :: u32
  preferred :: u32
  maximum :: u32
  current_quorum :: int
  required_quorum :: int
  operational :: bool
  health_level :: HealthLevel

definition compute_health :: "u32 \<Rightarrow> u32 \<Rightarrow> u32 \<Rightarrow> u32 \<Rightarrow> u32 \<Rightarrow> MeshHealth" where
  "compute_health tot online min_req pref maxi =
     (let required = default_quorum ChangePolicy (sint tot)
      in \<lparr>total_authorities = tot, online_authorities = online,
          offline_authorities = (if online < tot then tot - online else 0),
          min_required = min_req, preferred = pref, maximum = maxi,
          current_quorum = default_quorum ChangePolicy (sint online), required_quorum = required,
          operational = word_of_int required \<le> online,
          health_level = (if online = 0 then HealthRecovery
                          else if online < min_req then HealthCritical
                          else if online < pref then HealthWarning
                          else Healthy)\<rparr>)"

section \<open>The engine\<close>

record GovernanceEngine =
  proposals :: "(u64 \<times> GovernanceProposal) list"
  next_id :: u64

type_synonym AuthorityResolver = "bytes \<Rightarrow> bytes result"

definition engine_new :: GovernanceEngine where
  "engine_new = \<lparr>proposals = [], next_id = 1\<rparr>"

text \<open>proposals_[id] = p.\<close>

definition put_proposal ::
  "u64 \<Rightarrow> GovernanceProposal \<Rightarrow> (u64 \<times> GovernanceProposal) list \<Rightarrow> (u64 \<times> GovernanceProposal) list" where
  "put_proposal k p ps =
     (if k \<in> fst ` set ps then map (\<lambda>(k', q). (k', if k' = k then p else q)) ps else ps @ [(k, p)])"

text \<open>The fields the engine sets itself.  The signatures stay as they came in.\<close>

definition submitted :: "u64 \<Rightarrow> GovernanceProposal \<Rightarrow> GovernanceProposal" where
  "submitted pid p =
     (let tr = action_to_tier (gp_action p);
          ttl = (if 1 \<le> tier_byte tr then 172800000000000 else 86400000000000) :: i64
      in p\<lparr>gp_id := pid, gp_tier := tr, gp_state := Signing,
           gp_expires_at := (if gp_expires_at p = 0 then gp_created_at p + ttl else gp_expires_at p),
           gp_threshold := default_quorum (gp_action p) 3\<rparr>)"

definition submit :: "GovernanceProposal \<Rightarrow> GovernanceEngine \<Rightarrow> GovernanceEngine \<times> u64 result" where
  "submit p e =
     (if 4 < level_byte (gp_level p) then (e, Err (err_governance 811))
      else if gp_payload p = [] then (e, Err (err_governance 810))
      else
        let pid = next_id e
        in (e\<lparr>next_id := pid + 1, proposals := put_proposal pid (submitted pid p) (proposals e)\<rparr>, Ok pid))"

definition set_proposal :: "u64 \<Rightarrow> GovernanceProposal \<Rightarrow> GovernanceEngine \<Rightarrow> GovernanceEngine" where
  "set_proposal k p e = e\<lparr>proposals := put_proposal k p (proposals e)\<rparr>"

text \<open>What an authority signs: the proposal without its signatures.\<close>

definition signing_payload :: "GovernanceProposal \<Rightarrow> bytes" where
  "signing_payload p = proposal_serialize (p\<lparr>gp_signatures := []\<rparr>)"

definition sign ::
  "AuthorityResolver option \<Rightarrow> verify_fn option \<Rightarrow> u64 \<Rightarrow> bytes \<Rightarrow> bytes \<Rightarrow> i64 \<Rightarrow> GovernanceEngine
    \<Rightarrow> GovernanceEngine \<times> unit result" where
  "sign resolver suite k authority sig now e =
     (case map_of (proposals e) k of
        None \<Rightarrow> (e, Err err_vote)
      | Some p \<Rightarrow>
          if gp_state p \<noteq> Signing then (e, Err (err_governance 810))
          else if is_expired p now then (set_proposal k (p\<lparr>gp_state := Expired\<rparr>) e, Err (err_governance 810))
          else if list_ex (\<lambda>s. gs_authority_id s = authority) (gp_signatures p) then (e, Err err_vote)
          else case resolver of None \<Rightarrow> (e, Err err_vote) | Some resolve_key \<Rightarrow>
            case resolve_key authority of Err _ \<Rightarrow> (e, Err err_vote) | Ok pubkey \<Rightarrow>
              case suite of None \<Rightarrow> (e, Err err_vote) | Some verify \<Rightarrow>
                case verify (signing_payload p) sig pubkey of
                  Err er \<Rightarrow> (e, Err er)
                | Ok ok \<Rightarrow>
                    if \<not> ok then (e, Err err_vote)
                    else (set_proposal k (p\<lparr>gp_signatures := gp_signatures p @
                            [\<lparr>gs_authority_id = authority, gs_signature = sig, gs_signed_at = now\<rparr>]\<rparr>) e, Ok ()))"

definition commit :: "u64 \<Rightarrow> i64 \<Rightarrow> GovernanceEngine \<Rightarrow> GovernanceEngine \<times> unit result" where
  "commit k now e =
     (case map_of (proposals e) k of
        None \<Rightarrow> (e, Err err_vote)
      | Some p \<Rightarrow>
          if gp_state p \<noteq> Signing then (e, Err (err_governance 810))
          else if is_expired p now then (set_proposal k (p\<lparr>gp_state := Expired\<rparr>) e, Err (err_governance 810))
          else if \<not> threshold_met p then (e, Err (smo_err CatGovernance 803 Warn NoRetry GovernanceVote))
          else (set_proposal k (p\<lparr>gp_state := Committed\<rparr>) e, Ok ()))"

definition reject :: "u64 \<Rightarrow> GovernanceEngine \<Rightarrow> GovernanceEngine \<times> unit result" where
  "reject k e =
     (case map_of (proposals e) k of
        None \<Rightarrow> (e, Err err_vote)
      | Some p \<Rightarrow> (set_proposal k (p\<lparr>gp_state := Rejected\<rparr>) e, Ok ()))"

definition get_proposal :: "u64 \<Rightarrow> GovernanceEngine \<Rightarrow> GovernanceProposal result" where
  "get_proposal k e = (case map_of (proposals e) k of None \<Rightarrow> Err err_vote | Some p \<Rightarrow> Ok p)"

definition pending :: "GovernanceEngine \<Rightarrow> GovernanceProposal list" where
  "pending e = filter (\<lambda>p. gp_state p = Signing) (map snd (proposals e))"

definition engine_tick :: "i64 \<Rightarrow> GovernanceEngine \<Rightarrow> GovernanceEngine" where
  "engine_tick now e =
     e\<lparr>proposals := map (\<lambda>(k, p). (k, if gp_state p = Signing \<and> is_expired p now then p\<lparr>gp_state := Expired\<rparr> else p))
                      (proposals e)\<rparr>"

definition engine_serialize_all :: "GovernanceEngine \<Rightarrow> bytes" where
  "engine_serialize_all e =
     write_be 8 (next_id e) @ write_be 4 (of_nat (length (proposals e)) :: u32)
     @ concat (map (\<lambda>(k, p). write_be 4 (of_nat (length (proposal_serialize p)) :: u32) @ proposal_serialize p)
                 (proposals e))"

primrec load_loop ::
  "nat \<Rightarrow> bytes \<Rightarrow> (u64 \<times> GovernanceProposal) list \<Rightarrow> (u64 \<times> GovernanceProposal) list \<times> unit result" where
  "load_loop 0 data ps = (ps, Ok ())"
| "load_loop (Suc n) data ps =
     (if length data < 4 then (ps, Err (err_governance 812))
      else case read_be 4 data of (len :: u32, r) \<Rightarrow>
        if length r < unat len then (ps, Err (err_governance 812))
        else case proposal_deserialize (take (unat len) r) of
               Err er \<Rightarrow> (ps, Err er)
             | Ok p \<Rightarrow> load_loop n (drop (unat len) r) (put_proposal (gp_id p) p ps))"

definition load_all :: "bytes \<Rightarrow> GovernanceEngine \<Rightarrow> GovernanceEngine \<times> unit result" where
  "load_all data e =
     (if length data < 12 then (e, Err (err_governance 812))
      else
        let (nid, r) = read_be 8 data; (cnt :: u32, r1) = read_be 4 r
        in case load_loop (unat cnt) r1 [] of (ps, res) \<Rightarrow> (\<lparr>proposals = ps, next_id = nid\<rparr>, res))"

section \<open>Messages\<close>

record GovernanceSignatureMsg =
  gsm_proposal_id :: u64
  gsm_signature :: GovernanceSignature

definition gsm_serialize :: "GovernanceSignatureMsg \<Rightarrow> bytes" where
  "gsm_serialize msg =
     write_be 8 (gsm_proposal_id msg)
     @ write_be 4 (of_nat (length (gs_serialize (gsm_signature msg))) :: u32) @ gs_serialize (gsm_signature msg)"

text \<open>subspan past the end of the data is undefined behaviour: None.\<close>

definition gsm_deserialize :: "bytes \<Rightarrow> GovernanceSignatureMsg result option" where
  "gsm_deserialize data =
     (let (pid, r) = read_be 8 data; (sig_len :: u32, r1) = read_be 4 r
      in if length r1 < unat sig_len then None
         else Some (rbind (gs_deserialize (take (unat sig_len) r1)) (\<lambda>s.
                Ok \<lparr>gsm_proposal_id = pid, gsm_signature = s\<rparr>)))"

record GovernanceCommitMsg =
  gcm_proposal_id :: u64
  gcm_accepted :: bool

definition gcm_serialize :: "GovernanceCommitMsg \<Rightarrow> bytes" where
  "gcm_serialize msg = write_be 8 (gcm_proposal_id msg) @ [if gcm_accepted msg then 1 else 0]"

definition gcm_deserialize :: "bytes \<Rightarrow> GovernanceCommitMsg result" where
  "gcm_deserialize data =
     (let (pid, r) = read_be 8 data
      in Ok \<lparr>gcm_proposal_id = pid, gcm_accepted = (case r of b # _ \<Rightarrow> b \<noteq> 0 | [] \<Rightarrow> False)\<rparr>)"

record EpochIncrementMsg =
  new_epoch :: u64
  eim_signatures :: "GovernanceSignature list"

definition eim_serialize :: "EpochIncrementMsg \<Rightarrow> bytes" where
  "eim_serialize msg = write_be 8 (new_epoch msg) @ gs_list_serialize (eim_signatures msg)"

definition eim_deserialize :: "bytes \<Rightarrow> EpochIncrementMsg result" where
  "eim_deserialize data =
     (let (ep, r) = read_be 8 data in Ok \<lparr>new_epoch = ep, eim_signatures = gs_list_deserialize r\<rparr>)"

section \<open>Quorums meet\<close>

text \<open>What a vote count relies on: a quorum can be reached and is a majority, so that two
  quorums of no more voters than it is computed for have a member in common.\<close>

locale quorum_rule =
  fixes quorum :: "'act \<Rightarrow> int \<Rightarrow> int"
  assumes attainable: "1 \<le> n \<Longrightarrow> quorum a n \<le> n"
    and majority: "1 \<le> n \<Longrightarrow> n < 2 * quorum a n"
begin

lemma quorums_meet:
  assumes "finite S" "int (card S) \<le> n" "1 \<le> n" "A \<subseteq> S" "B \<subseteq> S"
    and "quorum a n \<le> int (card A)" "quorum b n \<le> int (card B)"
  shows "A \<inter> B \<noteq> {}"
proof
  assume "A \<inter> B = {}"
  then have "card (A \<union> B) = card A + card B"
    using assms(1,4,5) finite_subset card_Un_disjoint by metis
  moreover have "card (A \<union> B) \<le> card S" using assms(1,4,5) by (simp add: card_mono)
  ultimately show False using majority [of n a] majority [of n b] assms(2,3,6,7) by linarith
qed

end

interpretation quorum: quorum_rule default_quorum
  by unfold_locales (auto simp: default_quorum_def split: GovernanceTier.split)

section \<open>The formats are read back\<close>

definition gs_wf :: "GovernanceSignature \<Rightarrow> bool" where
  "gs_wf s \<longleftrightarrow> length (gs_authority_id s) = 32 \<and> length (gs_signature s) < 2 ^ 30"

definition gs_list_wf :: "GovernanceSignature list \<Rightarrow> bool" where
  "gs_list_wf sigs \<longleftrightarrow> length sigs < 2 ^ 32 \<and> (\<forall>s \<in> set sigs. gs_wf s)"

lemma gs_roundtrip: "gs_wf s \<Longrightarrow> gs_deserialize (gs_serialize s) = Ok s"
  by (simp add: gs_wf_def gs_deserialize_def gs_serialize_def wire_simps unat_of_nat_lt read_be_8_end)

interpretation signature_codec: codec gs_serialize gs_deserialize gs_wf
  by unfold_locales (rule gs_roundtrip)

lemma unat_gs: "gs_wf s \<Longrightarrow> unat (of_nat (length (gs_serialize s)) :: u32) = length (gs_serialize s)"
  by (rule unat_of_nat_lt) (simp add: gs_wf_def gs_serialize_def)

lemma gs_loop_write:
  "\<forall>s \<in> set sigs. gs_wf s \<Longrightarrow>
   gs_loop (length sigs)
     (concat (map (\<lambda>s. write_be 4 (of_nat (length (gs_serialize s)) :: u32) @ gs_serialize s) sigs) @ r) = sigs"
  by (induction sigs) (simp_all add: wire_simps unat_gs gs_roundtrip)

lemma gs_list_roundtrip: "gs_list_wf sigs \<Longrightarrow> gs_list_deserialize (gs_list_serialize sigs) = sigs"
  using gs_loop_write [of sigs "[]"]
  by (simp add: gs_list_wf_def gs_list_deserialize_def gs_list_serialize_def wire_simps unat_of_nat_lt)

definition proposal_wf :: "GovernanceProposal \<Rightarrow> bool" where
  "proposal_wf p \<longleftrightarrow>
     tier_of (tier_byte (gp_tier p)) = gp_tier p \<and> level_of (level_byte (gp_level p)) = gp_level p \<and>
     action_of (action_byte (gp_action p)) = gp_action p \<and>
     proposal_state_of (proposal_state_byte (gp_state p)) = gp_state p \<and>
     length (gp_payload p) < 2 ^ 32 \<and> 0 \<le> gp_threshold p \<and> gp_threshold p < 256 \<and>
     gs_list_wf (gp_signatures p)"

lemma uint_small: "0 \<le> n \<Longrightarrow> n < 256 \<Longrightarrow> uint (word_of_int n :: byte) = n"
  by (simp add: uint_word_of_int)

lemma proposal_roundtrip:
  assumes wf: "proposal_wf p" shows "proposal_deserialize (proposal_serialize p) = Ok p"
proof -
  note len = unat_of_nat_lt [where 'a = 32, of "length (gp_payload p)"]
  show ?thesis using wf len
    by (simp add: proposal_wf_def proposal_deserialize_def proposal_serialize_def wire_simps uint_small
        gs_list_roundtrip)
qed

interpretation proposal_codec: codec proposal_serialize proposal_deserialize proposal_wf
  by unfold_locales (rule proposal_roundtrip)

interpretation commit_codec: codec gcm_serialize gcm_deserialize "\<lambda>_. True"
  by unfold_locales (simp add: gcm_serialize_def gcm_deserialize_def wire_simps)

interpretation epoch_codec: codec eim_serialize eim_deserialize "\<lambda>msg. gs_list_wf (eim_signatures msg)"
  by unfold_locales (simp add: eim_serialize_def eim_deserialize_def wire_simps gs_list_roundtrip)

lemma gsm_roundtrip: "gs_wf (gsm_signature msg) \<Longrightarrow> gsm_deserialize (gsm_serialize msg) = Some (Ok msg)"
  by (simp add: gsm_deserialize_def gsm_serialize_def wire_simps unat_gs gs_roundtrip)

section \<open>The state survives a restart\<close>

definition engine_wf :: "GovernanceEngine \<Rightarrow> bool" where
  "engine_wf e \<longleftrightarrow>
     distinct (map fst (proposals e)) \<and> length (proposals e) < 2 ^ 32 \<and>
     (\<forall>(k, p) \<in> set (proposals e). gp_id p = k \<and> proposal_wf p \<and> length (proposal_serialize p) < 2 ^ 32)"

lemma put_new: "k \<notin> fst ` set ps \<Longrightarrow> put_proposal k p ps = ps @ [(k, p)]"
  by (simp add: put_proposal_def)

lemma load_loop_step:
  assumes "proposal_wf p" "length (proposal_serialize p) < 2 ^ 32"
  shows "load_loop (Suc n) (write_be 4 (of_nat (length (proposal_serialize p)) :: u32) @ proposal_serialize p @ r) ps =
         load_loop n r (put_proposal (gp_id p) p ps)"
  using assms unat_of_nat_lt [where 'a = 32, of "length (proposal_serialize p)"]
  by (simp add: wire_simps proposal_roundtrip)

lemma load_loop_write:
  assumes "distinct (map fst (acc @ ps))"
    and "\<forall>(k, p) \<in> set ps. gp_id p = k \<and> proposal_wf p \<and> length (proposal_serialize p) < 2 ^ 32"
  shows "load_loop (length ps)
     (concat (map (\<lambda>(k, p). write_be 4 (of_nat (length (proposal_serialize p)) :: u32) @ proposal_serialize p) ps)) acc
     = (acc @ ps, Ok ())"
  using assms
proof (induction ps arbitrary: acc)
  case (Cons kp ps)
  obtain k p where kp: "kp = (k, p)" by (cases kp)
  have "put_proposal k p acc = acc @ [kp]" using Cons.prems(1) by (auto simp: kp intro: put_new)
  moreover have "load_loop (length ps)
     (concat (map (\<lambda>(k, p). write_be 4 (of_nat (length (proposal_serialize p)) :: u32) @ proposal_serialize p) ps))
     (acc @ [kp]) = ((acc @ [kp]) @ ps, Ok ())"
    using Cons.prems by (intro Cons.IH) auto
  ultimately show ?case
    using Cons.prems(2) load_loop_step [of p "length ps" _ acc] by (auto simp: kp simp del: load_loop.simps)
qed simp

lemma engine_restart:
  assumes "engine_wf e" shows "load_all (engine_serialize_all e) e0 = (e, Ok ())"
  using assms load_loop_write [of "[]" "proposals e"]
  by (simp add: engine_wf_def load_all_def engine_serialize_all_def wire_simps unat_of_nat_lt)

section \<open>Committed proposals have a verified quorum\<close>

text \<open>A signature counts when the resolver knows its authority and it verifies over the
  proposal as it was while signatures were collected.\<close>

definition verified :: "AuthorityResolver \<Rightarrow> verify_fn \<Rightarrow> GovernanceProposal \<Rightarrow> GovernanceSignature \<Rightarrow> bool" where
  "verified resolver vf p s \<longleftrightarrow>
     (case resolver (gs_authority_id s) of
        Err _ \<Rightarrow> False
      | Ok pubkey \<Rightarrow> vf (signing_payload (p\<lparr>gp_state := Signing\<rparr>)) (gs_signature s) pubkey = Ok True)"

definition votes_inv :: "AuthorityResolver \<Rightarrow> verify_fn \<Rightarrow> GovernanceProposal \<Rightarrow> bool" where
  "votes_inv resolver vf p \<longleftrightarrow>
     gp_threshold p = default_quorum (gp_action p) 3 \<and>
     distinct (map gs_authority_id (gp_signatures p)) \<and>
     (\<forall>s \<in> set (gp_signatures p). verified resolver vf p s) \<and>
     (gp_state p = Committed \<longrightarrow> threshold_met p)"

definition engine_inv :: "AuthorityResolver \<Rightarrow> verify_fn \<Rightarrow> GovernanceEngine \<Rightarrow> bool" where
  "engine_inv resolver vf e \<longleftrightarrow> (\<forall>p \<in> snd ` set (proposals e). votes_inv resolver vf p)"

text \<open>The states of an engine whose proposals are submitted without signatures.\<close>

inductive gov_reach :: "AuthorityResolver \<Rightarrow> verify_fn \<Rightarrow> GovernanceEngine \<Rightarrow> bool"
  for resolver vf where
  init: "gov_reach resolver vf engine_new"
| submit: "gov_reach resolver vf e \<Longrightarrow> gp_signatures p = [] \<Longrightarrow> gov_reach resolver vf (fst (submit p e))"
| sign: "gov_reach resolver vf e \<Longrightarrow> gov_reach resolver vf (fst (sign (Some resolver) (Some vf) k a sig now e))"
| commit: "gov_reach resolver vf e \<Longrightarrow> gov_reach resolver vf (fst (commit k now e))"
| reject: "gov_reach resolver vf e \<Longrightarrow> gov_reach resolver vf (fst (reject k e))"
| tick: "gov_reach resolver vf e \<Longrightarrow> gov_reach resolver vf (engine_tick now e)"
| restart: "gov_reach resolver vf e \<Longrightarrow> engine_wf e \<Longrightarrow>
    gov_reach resolver vf (fst (load_all (engine_serialize_all e) e0))"

lemma engine_inv_set:
  "engine_inv resolver vf e \<Longrightarrow> votes_inv resolver vf p \<Longrightarrow> engine_inv resolver vf (set_proposal k p e)"
  by (fastforce simp: engine_inv_def set_proposal_def put_proposal_def)

lemma engine_inv_get:
  "engine_inv resolver vf e \<Longrightarrow> map_of (proposals e) k = Some p \<Longrightarrow> votes_inv resolver vf p"
  by (force simp: engine_inv_def dest: map_of_SomeD)

lemma verified_state [simp]:
  "verified resolver vf (p\<lparr>gp_state := st\<rparr>) s \<longleftrightarrow> verified resolver vf p s"
  "verified resolver vf (p\<lparr>gp_signatures := ss\<rparr>) s \<longleftrightarrow> verified resolver vf p s"
  by (simp_all add: verified_def signing_payload_def split: result.split)

lemma votes_inv_state:
  "votes_inv resolver vf p \<Longrightarrow> (st = Committed \<Longrightarrow> threshold_met p) \<Longrightarrow> votes_inv resolver vf (p\<lparr>gp_state := st\<rparr>)"
  by (simp add: votes_inv_def threshold_met_def)

lemma submitted_simps [simp]:
  "gp_signatures (submitted pid p) = gp_signatures p"
  "gp_action (submitted pid p) = gp_action p"
  "gp_threshold (submitted pid p) = default_quorum (gp_action p) 3"
  "gp_state (submitted pid p) = Signing"
  "gp_payload (submitted pid p) = gp_payload p"
  "gp_id (submitted pid p) = pid"
  by (simp_all add: submitted_def Let_def)

lemma engine_inv_submit:
  assumes "engine_inv resolver vf e" "gp_signatures p = []"
  shows "engine_inv resolver vf (fst (submit p e))"
proof -
  have "engine_inv resolver vf (set_proposal pid (submitted pid p) e)" for pid
    using assms by (intro engine_inv_set) (simp_all add: votes_inv_def)
  then show ?thesis using assms by (simp add: submit_def Let_def set_proposal_def engine_inv_def)
qed

lemma engine_inv_sign:
  assumes "engine_inv resolver vf e"
  shows "engine_inv resolver vf (fst (sign (Some resolver) (Some vf) k a sig now e))"
proof -
  have "votes_inv resolver vf (p\<lparr>gp_state := Expired\<rparr>)" if "map_of (proposals e) k = Some p" for p
    using engine_inv_get [OF assms that] by (auto intro: votes_inv_state)
  moreover have "votes_inv resolver vf (p\<lparr>gp_signatures := gp_signatures p @
      [\<lparr>gs_authority_id = a, gs_signature = sig, gs_signed_at = now\<rparr>]\<rparr>)"
    if "map_of (proposals e) k = Some p" "gp_state p = Signing" "resolver a = Ok pubkey"
      "vf (signing_payload p) sig pubkey = Ok True"
      "\<not> list_ex (\<lambda>s. gs_authority_id s = a) (gp_signatures p)" for p pubkey
  proof -
    have "p\<lparr>gp_state := Signing\<rparr> = p" using that(2) by simp
    then have "verified resolver vf p \<lparr>gs_authority_id = a, gs_signature = sig, gs_signed_at = now\<rparr>"
      using that(3,4) by (simp add: verified_def)
    with engine_inv_get [OF assms that(1)] that(2,5) show ?thesis
      by (auto simp: votes_inv_def list_ex_iff)
  qed
  ultimately show ?thesis using assms
    by (auto simp: sign_def intro!: engine_inv_set split: option.split result.split)
qed

lemma engine_inv_commit:
  assumes "engine_inv resolver vf e" shows "engine_inv resolver vf (fst (commit k now e))"
  using assms engine_inv_get [OF assms]
  by (auto simp: commit_def intro!: engine_inv_set votes_inv_state split: option.split)

lemma engine_inv_reject:
  assumes "engine_inv resolver vf e" shows "engine_inv resolver vf (fst (reject k e))"
  using assms engine_inv_get [OF assms]
  by (auto simp: reject_def intro!: engine_inv_set votes_inv_state split: option.split)

lemma engine_inv_tick: "engine_inv resolver vf e \<Longrightarrow> engine_inv resolver vf (engine_tick now e)"
  by (auto simp: engine_inv_def engine_tick_def intro!: votes_inv_state)

lemma gov_reach_inv: "gov_reach resolver vf e \<Longrightarrow> engine_inv resolver vf e"
proof (induction rule: gov_reach.induct)
  case init
  then show ?case by (simp add: engine_inv_def engine_new_def)
next
  case (restart e e0)
  then show ?case by (simp add: engine_restart)
qed (simp_all add: engine_inv_submit engine_inv_sign engine_inv_commit engine_inv_reject engine_inv_tick)

text \<open>The authorities whose signatures stand on a proposal.\<close>

definition signers :: "GovernanceProposal \<Rightarrow> bytes set" where
  "signers p = gs_authority_id ` set (gp_signatures p)"

lemma verified_iff:
  "verified resolver vf p s \<longleftrightarrow>
   (\<exists>pubkey. resolver (gs_authority_id s) = Ok pubkey \<and>
      vf (signing_payload (p\<lparr>gp_state := Signing\<rparr>)) (gs_signature s) pubkey = Ok True)"
  by (auto simp: verified_def split: result.split)

lemma card_signers: "distinct (map gs_authority_id (gp_signatures p)) \<Longrightarrow> card (signers p) = length (gp_signatures p)"
  by (simp add: signers_def distinct_map card_image distinct_card)

lemma committed_quorum:
  assumes "gov_reach resolver vf e" "(k, p) \<in> set (proposals e)" "gp_state p = Committed"
  shows "default_quorum (gp_action p) 3 \<le> int (card (signers p))"
    and "\<forall>a \<in> signers p. \<exists>sig pubkey. resolver a = Ok pubkey \<and>
           vf (signing_payload (p\<lparr>gp_state := Signing\<rparr>)) sig pubkey = Ok True"
proof -
  have inv: "votes_inv resolver vf p" using gov_reach_inv [OF assms(1)] assms(2) by (force simp: engine_inv_def)
  then show "default_quorum (gp_action p) 3 \<le> int (card (signers p))"
    using assms(3) by (simp add: votes_inv_def card_signers threshold_met_def)
  from inv have "verified resolver vf p s" if "s \<in> set (gp_signatures p)" for s
    using that by (simp add: votes_inv_def)
  then show "\<forall>a \<in> signers p. \<exists>sig pubkey. resolver a = Ok pubkey \<and>
           vf (signing_payload (p\<lparr>gp_state := Signing\<rparr>)) sig pubkey = Ok True"
    unfolding signers_def verified_iff by blast
qed

text \<open>
  C4. No proposal is enacted without its quorum: in every state of an engine whose
  proposals come in without signatures, over signing, committing, rejecting,
  expiry and restarts, a committed proposal carries the signatures of at least as
  many different authorities as its action needs among three, each known to the
  resolver and each with a signature that verifies over this proposal.  And on the
  condition that the resolver knows no more than three authorities, any two committed
  proposals, of whatever actions, have a signer in common.  With a fourth authority
  they need not, as the example after it shows: submit computes every quorum for three.
\<close>

theorem committed_has_quorum:
  assumes "gov_reach resolver vf e" "(k, p) \<in> set (proposals e)" "gp_state p = Committed"
  shows "default_quorum (gp_action p) 3 \<le> int (card (signers p)) \<and>
     (\<forall>a \<in> signers p. \<exists>sig pubkey. resolver a = Ok pubkey \<and>
        vf (signing_payload (p\<lparr>gp_state := Signing\<rparr>)) sig pubkey = Ok True) \<and>
     (\<forall>k' q. (k', q) \<in> set (proposals e) \<longrightarrow> gp_state q = Committed \<longrightarrow>
        finite {a. is_ok (resolver a)} \<and> card {a. is_ok (resolver a)} \<le> 3 \<longrightarrow> signers p \<inter> signers q \<noteq> {})"
proof (intro conjI allI impI)
  note p = committed_quorum [OF assms]
  show "default_quorum (gp_action p) 3 \<le> int (card (signers p))" by (rule p)
  show "\<forall>a \<in> signers p. \<exists>sig pubkey. resolver a = Ok pubkey \<and>
        vf (signing_payload (p\<lparr>gp_state := Signing\<rparr>)) sig pubkey = Ok True" by (rule p)
  fix k' q assume "(k', q) \<in> set (proposals e)" "gp_state q = Committed" 
    and three: "finite {a. is_ok (resolver a)} \<and> card {a. is_ok (resolver a)} \<le> 3"
  note q = committed_quorum [OF assms(1) this(1,2)]
  have "signers p \<subseteq> {a. is_ok (resolver a)}" using p(2) by (auto simp: is_ok_iff)
  moreover have "signers q \<subseteq> {a. is_ok (resolver a)}" using q(2) by (auto simp: is_ok_iff)
  ultimately show "signers p \<inter> signers q \<noteq> {}"
    using three p(1) q(1) by (intro quorum.quorums_meet [of "{a. is_ok (resolver a)}" 3]) simp_all
qed

definition sample_resolver :: AuthorityResolver where
  "sample_resolver a = (if a \<in> {replicate 32 1, replicate 32 2, replicate 32 3} then Ok (take 4 a) else Err err_vote)"

definition sample_suite :: verify_fn where
  "sample_suite msg sig pubkey = Ok (sig = pubkey @ take 9 msg)"

definition sample_proposal :: GovernanceProposal where
  "sample_proposal = \<lparr>gp_id = 0, gp_tier = Membership, gp_level = LevelAuthority, gp_action = CertificateRevocation,
     gp_payload = [1], gp_created_at = 5, gp_expires_at = 0, gp_state = Draft, gp_threshold = 0, gp_signatures = []\<rparr>"

definition sample_vote :: "byte \<Rightarrow> GovernanceEngine \<Rightarrow> GovernanceEngine" where
  "sample_vote a e =
     fst (sign (Some sample_resolver) (Some sample_suite) 1 (replicate 32 a)
       (replicate 4 a @ [0, 0, 0, 0, 0, 0, 0, 1, 1]) 10 e)"

definition sample_engine :: GovernanceEngine where
  "sample_engine =
     fst (commit 1 11 (sample_vote 3 (sample_vote 2 (sample_vote 1 (fst (submit sample_proposal engine_new))))))"

lemma sample_engine_reach: "gov_reach sample_resolver sample_suite sample_engine"
  by (simp add: sample_engine_def sample_vote_def gov_reach.intros sample_proposal_def)

lemma sample_engine_eval:
  "map (\<lambda>(k, p). (k, gp_state p, gp_action p)) (proposals sample_engine) = [(1, Committed, CertificateRevocation)]"
  by code_simp

lemma sample_resolver_known: "{a. is_ok (sample_resolver a)} = {replicate 32 1, replicate 32 2, replicate 32 3}"
  by (auto simp: sample_resolver_def)

theorem committed_has_quorum_witness:
  "(\<exists>p. (1, p) \<in> set (proposals sample_engine) \<and> gp_state p = Committed \<and> 3 \<le> card (signers p)) \<and>
   finite {a. is_ok (sample_resolver a)} \<and> card {a. is_ok (sample_resolver a)} \<le> 3"
proof -
  obtain p where p: "(1, p) \<in> set (proposals sample_engine)" "gp_state p = Committed" "gp_action p = CertificateRevocation"
    using sample_engine_eval by (cases "proposals sample_engine") auto
  with committed_has_quorum [OF sample_engine_reach p(1,2)] show ?thesis
    by (auto simp: default_quorum_def sample_resolver_known card_insert_if)
qed

text \<open>With four authorities two of them suspend a member of the board and the other two
  resume it: both proposals are committed and no one has signed both.\<close>

definition board_resolver :: AuthorityResolver where
  "board_resolver a = (if a \<in> (\<lambda>b. replicate 32 b) ` {1, 2, 3, 4} then Ok (take 4 a) else Err err_vote)"

definition board_vote :: "u64 \<Rightarrow> byte \<Rightarrow> GovernanceEngine \<Rightarrow> GovernanceEngine" where
  "board_vote k a e =
     fst (sign (Some board_resolver) (Some sample_suite) k (replicate 32 a)
       (replicate 4 a @ [0, 0, 0, 0, 0, 0, 0, ucast k, 0]) 10 e)"

definition board_engine :: GovernanceEngine where
  "board_engine =
     fst (commit 2 11 (board_vote 2 4 (board_vote 2 3 (fst (submit (sample_proposal\<lparr>gp_action := ResumeAuthority\<rparr>)
       (fst (commit 1 11 (board_vote 1 2 (board_vote 1 1
         (fst (submit (sample_proposal\<lparr>gp_action := SuspendAuthority\<rparr>) engine_new)))))))))))"

lemma board_engine_reach: "gov_reach board_resolver sample_suite board_engine"
  by (simp add: board_engine_def board_vote_def gov_reach.intros sample_proposal_def)

lemma board_engine_eval:
  "map (\<lambda>(k, p). (k, gp_state p, gp_action p, map gs_authority_id (gp_signatures p))) (proposals board_engine) =
     [(1, Committed, SuspendAuthority, [replicate 32 1, replicate 32 2]),
      (2, Committed, ResumeAuthority, [replicate 32 3, replicate 32 4])]"
  by code_simp

lemma disjoint_quorums:
  "\<exists>p q. gov_reach board_resolver sample_suite board_engine \<and> proposals board_engine = [(1, p), (2, q)] \<and>
     gp_state p = Committed \<and> gp_state q = Committed \<and>
     gp_action p = SuspendAuthority \<and> gp_action q = ResumeAuthority \<and> signers p \<inter> signers q = {}"
proof -
  obtain p q where e: "proposals board_engine = [(1, p), (2, q)]"
      "gp_state p = Committed" "gp_state q = Committed" "gp_action p = SuspendAuthority" "gp_action q = ResumeAuthority"
      "map gs_authority_id (gp_signatures p) = [replicate 32 1, replicate 32 2]"
      "map gs_authority_id (gp_signatures q) = [replicate 32 3, replicate 32 4]"
    using board_engine_eval by (auto simp: map_eq_Cons_conv)
  have "signers p = {replicate 32 1, replicate 32 2}" "signers q = {replicate 32 3, replicate 32 4}"
    using arg_cong [OF e(6), of set] arg_cong [OF e(7), of set] by (simp_all add: signers_def)
  then show ?thesis using e board_engine_reach by auto
qed

end
