(* ===== verification/Governance_Contract.thy ===== *)
theory Governance_Contract
  imports Governance Session
begin

text \<open>
  The governance contract (core/runtime/contracts/governance_contract.cpp), which
  drives the engine from contract calls, the text of a revocation proposal
  (recovery_contract.cpp, handle_crl_revoke), and the listener that enacts an
  approved revocation on the node (core/runtime/event_registry_service.cpp).

  A reply keeps the status, the metrics and the emitted events of a ContractResult;
  its message text is not modelled.  The clock is an argument in nanoseconds.  The
  node shares one revocation list between the listener and the session manager
  (node_runtime.cpp passes its address), so the list of the manager is that list.
\<close>

section \<open>Contract calls\<close>

datatype Argument =
    ArgNull | ArgBool bool | ArgInt i64 | ArgDouble u64 | ArgString bytes | ArgBytes bytes
  | ArgMap "(bytes \<times> bytes) list" | ArgArray "bytes list"

datatype reply_status = Success | Denied

record reply =
  status :: reply_status
  metrics :: "(string \<times> Argument) list"
  events :: "(string \<times> bytes) list"

definition denied :: reply where
  "denied = \<lparr>status = Denied, metrics = [], events = []\<rparr>"

text \<open>std::to_string of a signed number.\<close>

definition signed_decimal :: "i64 \<Rightarrow> bytes" where
  "signed_decimal v = (if v <s 0 then 0x2D # decimal (unat (- v)) else decimal (unat v))"

definition handle_propose :: "Argument \<Rightarrow> GovernanceEngine \<Rightarrow> GovernanceEngine \<times> reply" where
  "handle_propose arg e =
     (case arg of
        ArgBytes data \<Rightarrow>
          (case proposal_deserialize data of
             Err _ \<Rightarrow> (e, denied)
           | Ok p \<Rightarrow>
               if 15 < action_byte (gp_action p) then (e, denied)
               else case submit p e of
                      (e', Err _) \<Rightarrow> (e', denied)
                    | (e', Ok pid) \<Rightarrow>
                        (e', \<lparr>status = Success,
                              metrics = [(''proposal_id'', ArgInt pid),
                                         (''action'', ArgInt (ucast (action_byte (gp_action p))))],
                              events = [(''governance.proposal_created'', ascii ''id='' @ decimal (unat pid))]\<rparr>))
      | _ \<Rightarrow> (e, denied))"

definition parse_node_id :: "bytes \<Rightarrow> NodeID" where
  "parse_node_id hex =
     map (\<lambda>i. if i * 2 + 1 < length hex then stream_hex (take 2 (drop (i * 2) hex)) else 0) [0..<32]"

text \<open>Division of a signed number by 10^9 rounds towards zero.\<close>

definition to_seconds :: "i64 \<Rightarrow> i64" where
  "to_seconds now_ns = (if now_ns <s 0 then - (- now_ns div 1000000000) else now_ns div 1000000000)"

text \<open>The proposal number and the signature are both read from the one argument value.\<close>

definition handle_vote ::
  "AuthorityResolver option \<Rightarrow> verify_fn option \<Rightarrow> bytes \<Rightarrow> i64 \<Rightarrow> Argument \<Rightarrow> GovernanceEngine
    \<Rightarrow> GovernanceEngine \<times> reply" where
  "handle_vote resolver suite requester now_ns arg e =
     (if requester = [] then (e, denied)
      else case arg of
        ArgInt pid \<Rightarrow>
          (case arg of
             ArgBytes data \<Rightarrow>
               (case gs_deserialize data of
                  Err _ \<Rightarrow> (e, denied)
                | Ok s \<Rightarrow>
                    (case sign resolver suite pid (parse_node_id requester) (gs_signature s) (to_seconds now_ns) e of
                       (e', Err _) \<Rightarrow> (e', denied)
                     | (e', Ok _) \<Rightarrow>
                         (e', \<lparr>status = Success,
                               metrics = [(''proposal_id'', ArgInt pid),
                                          (''signatures'', ArgInt (case get_proposal pid e' of
                                              Ok p \<Rightarrow> of_nat (length (gp_signatures p)) | Err _ \<Rightarrow> 0))],
                               events = [(''governance.vote_cast'', ascii ''proposal='' @ decimal (unat pid))]\<rparr>)))
           | _ \<Rightarrow> (e, denied))
      | _ \<Rightarrow> (e, denied))"

definition handle_commit :: "i64 \<Rightarrow> Argument \<Rightarrow> GovernanceEngine \<Rightarrow> GovernanceEngine \<times> reply" where
  "handle_commit now_ns arg e =
     (case arg of
        ArgInt pid \<Rightarrow>
          (case commit pid (to_seconds now_ns) e of
             (e', Err _) \<Rightarrow> (e', denied)
           | (e', Ok _) \<Rightarrow>
               let ev = (case get_proposal pid e' of
                           Ok p \<Rightarrow>
                             if gp_action p = CertificateRevocation
                             then (''RecoveryApproved'',
                                   ascii ''CertificateRevocation proposal approved: '' @ gp_payload p)
                             else (''governance.proposal_committed'', ascii ''proposal='' @ signed_decimal pid)
                         | Err _ \<Rightarrow> (''governance.proposal_committed'', ascii ''proposal='' @ signed_decimal pid))
               in (e', \<lparr>status = Success, metrics = [(''proposal_id'', ArgInt pid)], events = [ev]\<rparr>))
      | _ \<Rightarrow> (e, denied))"

section \<open>Enacting a revocation\<close>

definition revocation_json :: "bytes \<Rightarrow> bytes \<Rightarrow> bytes \<Rightarrow> u64 \<Rightarrow> bytes" where
  "revocation_json fp nid rsn ep =
     [lbrace] @ json_field (ascii ''fingerprint'') fp @ json_field (ascii ''node_id_hex'') nid
     @ json_field (ascii ''reason'') rsn
     @ [quote] @ ascii ''epoch'' @ [quote, colon] @ decimal (unat ep) @ [rbrace]"

text \<open>The listener.  None when std::stoull throws.\<close>

definition on_recovery_approved :: "bytes \<Rightarrow> i64 \<Rightarrow> SessionManager \<Rightarrow> SessionManager option" where
  "on_recovery_approved details now m =
     (case json_part details of
        None \<Rightarrow> Some m
      | Some json \<Rightarrow>
          let fp = extract_field json (ascii ''fingerprint'');
              nid = extract_field json (ascii ''node_id_hex'');
              rsn = extract_field json (ascii ''reason'')
          in case extract_uint json (ascii ''epoch'') of
               None \<Rightarrow> None
             | Some ep \<Rightarrow>
                 if fp = [] \<or> nid = [] then Some m
                 else
                   let m1 = m\<lparr>crl := map_option (\<lambda>c. fst (revoke fp nid rsn ep now c)) (crl m)\<rparr>
                   in Some (if length nid = 64 then fst (invalidate (node_id_of_hex nid) m1) else m1))"

section \<open>The payload is read back\<close>

lemma key_text:
  "quote \<notin> set (ascii ''fingerprint'')" "quote \<notin> set (ascii ''node_id_hex'')"
  "quote \<notin> set (ascii ''reason'')" "quote \<notin> set (ascii ''epoch'')"
  "ascii ''fingerprint'' \<noteq> ascii ''node_id_hex''" "ascii ''fingerprint'' \<noteq> ascii ''reason''"
  "ascii ''fingerprint'' \<noteq> ascii ''epoch''" "ascii ''node_id_hex'' \<noteq> ascii ''reason''"
  "ascii ''node_id_hex'' \<noteq> ascii ''epoch''" "ascii ''reason'' \<noteq> ascii ''epoch''"
  by code_simp+

lemma key_start:
  "k \<in> {''fingerprint'', ''node_id_hex'', ''reason'', ''epoch''} \<Longrightarrow>
   ascii k \<noteq> [] \<and> hd (ascii k) \<noteq> colon \<and> hd (ascii k) \<noteq> comma"
proof -
  have "list_all (\<lambda>k. ascii k \<noteq> [] \<and> hd (ascii k) \<noteq> colon \<and> hd (ascii k) \<noteq> comma)
      [''fingerprint'', ''node_id_hex'', ''reason'', ''epoch'']" by code_simp
  then show "k \<in> {''fingerprint'', ''node_id_hex'', ''reason'', ''epoch''} \<Longrightarrow>
   ascii k \<noteq> [] \<and> hd (ascii k) \<noteq> colon \<and> hd (ascii k) \<noteq> comma" by auto
qed

lemma extract_uint_here:
  "extract_uint ([quote] @ key @ [quote, colon] @ decimal (unat v) @ [rbrace]) key = Some v"
proof -
  let ?s = "[quote] @ key @ [quote, colon]"
  have "find_sub ?s (?s @ decimal (unat v) @ [rbrace]) = Some 0" by (rule find_sub_here) simp
  moreover have "b \<notin> {comma, rbrace}" if "b \<in> set (decimal (unat v))" for b
    using decimal_digits [OF that] by (auto simp: is_digit_def comma_def rbrace_def)
  then have "takeWhile (\<lambda>b. b \<notin> {comma, rbrace}) (decimal (unat v) @ [rbrace]) = decimal (unat v)"
    by (subst takeWhile_append2) auto
  then have "find_first_of {comma, rbrace} (decimal (unat v) @ [rbrace]) = Some (length (decimal (unat v)))"
    by (simp add: find_first_of_def Let_def)
  ultimately show ?thesis by (simp add: extract_uint_def Let_def stoull_decimal)
qed

lemma extract_fields:
  assumes "quote \<notin> set fp" "quote \<notin> set nid" "quote \<notin> set rsn"
  shows "extract_field (revocation_json fp nid rsn ep) (ascii ''fingerprint'') = fp"
    and "extract_field (revocation_json fp nid rsn ep) (ascii ''node_id_hex'') = nid"
    and "extract_field (revocation_json fp nid rsn ep) (ascii ''reason'') = rsn"
    and "extract_uint (revocation_json fp nid rsn ep) (ascii ''epoch'') = Some ep"
proof -
  let ?n = "ascii ''node_id_hex''" and ?f = "ascii ''fingerprint''" and ?r = "ascii ''reason''" and ?e = "ascii ''epoch''"
  let ?tail = "[quote] @ ?e @ [quote, colon] @ decimal (unat ep) @ [rbrace]"
  have brace: "skips (quote # pat) [lbrace] r" for pat r
    by (rule skips_absent) (simp add: quote_def lbrace_def)
  have field: "skips (quote # ascii key @ quote # colon # t) (json_field (ascii k) v) r"
    if "quote \<notin> set v" "ascii k \<noteq> ascii key"
      "k \<in> {''fingerprint'', ''node_id_hex'', ''reason''}" "key \<in> {''fingerprint'', ''node_id_hex'', ''reason'', ''epoch''}"
    for key t k v r
    using that key_text key_start [of key] by (intro skips_field) auto
  note fields = field [OF assms(1), of "''fingerprint''"] field [OF assms(2), of "''node_id_hex''"]
    field [OF assms(3), of "''reason''"]
  have here: "extract_field (json_field k v @ r) k = v" if "quote \<notin> set v" for k v r
    using extract_field_here [OF that, of k "comma # r"] by (simp add: json_field_def)
  show "extract_field (revocation_json fp nid rsn ep) ?f = fp"
    using brace extract_field_skips [of ?f "[lbrace]"] here [OF assms(1)] by (simp add: revocation_json_def)
  have "skips ([quote] @ ?n @ [quote, colon, quote]) ([lbrace] @ json_field ?f fp) r" for r
    using brace fields(1) key_text by (intro skips_append) simp_all
  then show "extract_field (revocation_json fp nid rsn ep) ?n = nid"
    using extract_field_skips [of ?n "[lbrace] @ json_field ?f fp"] here [OF assms(2)]
    by (simp add: revocation_json_def)
  have "skips ([quote] @ ?r @ [quote, colon, quote]) ([lbrace] @ json_field ?f fp @ json_field ?n nid) r" for r
    using brace fields key_text by (intro skips_append) simp_all
  then show "extract_field (revocation_json fp nid rsn ep) ?r = rsn"
    using extract_field_skips [of ?r "[lbrace] @ json_field ?f fp @ json_field ?n nid"] here [OF assms(3)]
    by (simp add: revocation_json_def)
  have "skips ([quote] @ ?e @ [quote, colon]) ([lbrace] @ json_field ?f fp @ json_field ?n nid @ json_field ?r rsn) r" for r
    using brace fields key_text by (intro skips_append) simp_all
  then have "extract_uint (revocation_json fp nid rsn ep) ?e = extract_uint ?tail ?e"
    using extract_uint_skips [of ?e "[lbrace] @ json_field ?f fp @ json_field ?n nid @ json_field ?r rsn" ?tail]
    by (simp add: revocation_json_def)
  also have "\<dots> = Some ep" by (rule extract_uint_here)
  finally show "extract_uint (revocation_json fp nid rsn ep) ?e = Some ep" .
qed

text \<open>What the listener does on the event that the contract emits for such a payload.\<close>

lemma hex_no_quote: "quote \<notin> set (ascii (bytes_to_hex bs))"
proof -
  have "set (hex_byte b) \<subseteq> set hex_digits" for b
  proof -
    have "length hex_digits = 16" by (simp add: hex_digits_def)
    with nibbles [of b] show ?thesis by (simp add: hex_byte_def hex_digit_def)
  qed
  then have "set (bytes_to_hex bs) \<subseteq> set hex_digits" by (auto simp: bytes_to_hex_def)
  moreover have "\<forall>c \<in> set hex_digits. (word_of_nat (of_char c) :: byte) \<noteq> quote" by code_simp
  ultimately show ?thesis by (force simp: ascii_def)
qed

lemma json_part_details:
  "json_part (ascii ''CertificateRevocation proposal approved: '' @ revocation_json fp nid rsn ep) =
   Some (revocation_json fp nid rsn ep)"
proof -
  have "lbrace \<notin> set (ascii ''CertificateRevocation proposal approved: '')" by code_simp
  then show ?thesis
    using find_sub_single_append [of lbrace "ascii ''CertificateRevocation proposal approved: ''"]
    by (simp add: json_part_def revocation_json_def)
qed

lemma listener_effect:
  assumes "quote \<notin> set fp" "quote \<notin> set nid" "quote \<notin> set rsn" "fp \<noteq> []" "length nid = 64"
  shows "on_recovery_approved (ascii ''CertificateRevocation proposal approved: '' @ revocation_json fp nid rsn ep) now m =
     Some (fst (invalidate (node_id_of_hex nid)
       (m\<lparr>crl := map_option (\<lambda>c. fst (revoke fp nid rsn ep now c)) (crl m)\<rparr>)))"
proof -
  have "nid \<noteq> []" using assms(5) by auto
  with assms show ?thesis
    by (simp add: on_recovery_approved_def json_part_details extract_fields Let_def)
qed

section \<open>Committing through the contract\<close>

lemma get_put: "map_of (put_proposal k p ps) k = Some p"
proof (cases "k \<in> fst ` set ps")
  case True
  then have "map_of (map (\<lambda>(k', q). (k', if k' = k then p else q)) ps) k = Some p"
    by (induction ps) auto
  with True show ?thesis by (simp add: put_proposal_def)
next
  case False
  then have "map_of ps k = None" by (simp add: map_of_eq_None_iff)
  with False show ?thesis by (simp add: put_proposal_def map_add_def)
qed

lemma handle_commit_Success:
  assumes "handle_commit now_ns (ArgInt pid) e = (e', r)" "status r = Success"
  obtains p where "map_of (proposals e) pid = Some p" "gp_state p = Signing" "threshold_met p"
    "e' = set_proposal pid (p\<lparr>gp_state := Committed\<rparr>) e" "get_proposal pid e' = Ok (p\<lparr>gp_state := Committed\<rparr>)"
    "gp_action p = CertificateRevocation \<Longrightarrow>
       events r = [(''RecoveryApproved'', ascii ''CertificateRevocation proposal approved: '' @ gp_payload p)]"
proof -
  obtain e1 res where c: "commit pid (to_seconds now_ns) e = (e1, res)" by (cases "commit pid (to_seconds now_ns) e")
  have "res = Ok ()"
  proof (cases res)
    case (Err er)
    with c have "handle_commit now_ns (ArgInt pid) e = (e1, denied)" by (simp add: handle_commit_def)
    with assms show ?thesis by (auto simp: denied_def)
  qed simp
  note c = c [unfolded this]
  then have e': "e1 = e'" using assms(1) by (simp add: handle_commit_def Let_def)
  obtain p where p: "map_of (proposals e) pid = Some p" "gp_state p = Signing" "threshold_met p"
      "e' = set_proposal pid (p\<lparr>gp_state := Committed\<rparr>) e"
    using c by (auto simp: commit_def e' split: option.splits if_splits)
  then have get: "get_proposal pid e' = Ok (p\<lparr>gp_state := Committed\<rparr>)"
    by (simp add: get_proposal_def set_proposal_def get_put)
  have "r = snd (handle_commit now_ns (ArgInt pid) e)" using assms(1) by simp
  with c get e' show ?thesis by (intro that [OF p get]) (simp add: handle_commit_def)
qed

lemma commit_of_handle:
  assumes "handle_commit now_ns (ArgInt pid) e = (e', r)" "status r = Success"
  shows "fst (commit pid (to_seconds now_ns) e) = e'"
  using assms(1) by (cases "commit pid (to_seconds now_ns) e") (auto simp: handle_commit_def Let_def split: result.splits)

text \<open>The vote handler asks the one argument value to be a number and a byte string at
  once: it denies every vote, so no signature reaches the engine through it.\<close>

lemma vote_always_denied: "handle_vote resolver suite requester now_ns arg e = (e, denied)"
  by (cases arg) (simp_all add: handle_vote_def)

text \<open>The lifetime the engine gives a proposal is in nanoseconds, the time the contract
  passes is in seconds: no proposal with the default lifetime expires.\<close>

lemma sint_small: "uint (w :: i64) < 2 ^ 63 \<Longrightarrow> sint w = uint w"
  using int_word_sint [where 'a = 64, of "uint w"] by simp

lemma uint_seconds: "uint ((w :: i64) div 1000000000) < 2 ^ 40"
  using unsigned_less [of w, where 'a = int] by (simp add: uint_div)

lemma to_seconds_bound: "sint (to_seconds now_ns) < 86400000000000"
proof -
  have s: "sint (w div 1000000000) = uint (w div 1000000000)" for w :: i64
    using uint_seconds [of w] by (intro sint_small) simp
  have "sint (- (w div 1000000000)) = - uint (w div 1000000000)" for w :: i64
  proof -
    have "signed_take_bit 63 (- x) = - x" if "0 \<le> x" "x < 2 ^ 40" for x :: int
      using that by (intro signed_take_bit_int_eq_self) simp_all
    from this [OF _ uint_seconds [of w]] show ?thesis by (simp add: sint_word_ariths(4) s)
  qed
  moreover have "- uint w < 86400000000000" for w :: i64 by (rule le_less_trans [of _ 0]) simp_all
  ultimately show ?thesis
    using s [of now_ns] uint_seconds [of now_ns] by (auto simp: to_seconds_def)
qed

lemma contract_never_expires:
  assumes "86400000000000 \<le> sint (gp_expires_at p)"
  shows "\<not> is_expired p (to_seconds now_ns)"
  using assms to_seconds_bound [of now_ns] by (simp add: is_expired_def word_sle_eq)

text \<open>Proposing serializes nothing away: the signatures of an incoming proposal are kept.\<close>

lemma handle_propose_wf:
  assumes "proposal_wf p" "gp_payload p \<noteq> []" "level_byte (gp_level p) \<le> 4" "action_byte (gp_action p) \<le> 15"
  shows "\<exists>r. handle_propose (ArgBytes (proposal_serialize p)) e =
           (e\<lparr>next_id := next_id e + 1,
              proposals := put_proposal (next_id e) (submitted (next_id e) p) (proposals e)\<rparr>, r) \<and>
         status r = Success"
proof -
  have "\<not> 4 < level_byte (gp_level p)" "\<not> 15 < action_byte (gp_action p)" using assms(3,4) by (simp_all add: leD)
  with assms(1,2) show ?thesis by (simp add: handle_propose_def proposal_roundtrip submit_def Let_def)
qed

lemma commit_stored:
  assumes "map_of (proposals e) pid = Some p" "gp_state p = Signing" "threshold_met p"
    "\<not> is_expired p (to_seconds now_ns)"
  shows "commit pid (to_seconds now_ns) e = (set_proposal pid (p\<lparr>gp_state := Committed\<rparr>) e, Ok ())"
  using assms by (simp add: commit_def)

text \<open>
  C38. Forged votes are counted: whatever the state of the engine, a revocation
  proposal that arrives through the contract with three signature records of
  arbitrary content and a negative expiry time is accepted and can be committed
  at once, at any time, and the node then emits RecoveryApproved with the payload
  of the proposer.  No authority is asked and no signature is verified.
\<close>

theorem forged_votes_commit:
  assumes "proposal_wf p" "gp_payload p \<noteq> []" "level_byte (gp_level p) \<le> 4"
    and "gp_action p = CertificateRevocation" "3 \<le> length (gp_signatures p)" "gp_expires_at p <s 0"
  shows "\<exists>e1 r1 e2 r2.
     handle_propose (ArgBytes (proposal_serialize p)) e = (e1, r1) \<and> status r1 = Success \<and>
     handle_commit now_ns (ArgInt (next_id e)) e1 = (e2, r2) \<and> status r2 = Success \<and>
     events r2 = [(''RecoveryApproved'', ascii ''CertificateRevocation proposal approved: '' @ gp_payload p)]"
proof -
  let ?pid = "next_id e" and ?p = "submitted (next_id e) p"
  let ?e1 = "e\<lparr>next_id := ?pid + 1, proposals := put_proposal ?pid ?p (proposals e)\<rparr>"
  obtain r1 where r1: "handle_propose (ArgBytes (proposal_serialize p)) e = (?e1, r1)" "status r1 = Success"
    using handle_propose_wf [of p e] assms by auto
  have "gp_expires_at ?p = gp_expires_at p" using assms(6) by (auto simp: submitted_def Let_def)
  then have "\<not> is_expired ?p (to_seconds now_ns)"
    using assms(6) signed.less_not_sym by (auto simp: is_expired_def)
  moreover have "threshold_met ?p" using assms(4,5) by (simp add: threshold_met_def default_quorum_def)
  ultimately have "commit ?pid (to_seconds now_ns) ?e1 = (set_proposal ?pid (?p\<lparr>gp_state := Committed\<rparr>) ?e1, Ok ())"
    by (intro commit_stored) (simp_all add: get_put)
  then have "\<exists>r2. handle_commit now_ns (ArgInt ?pid) ?e1 = (set_proposal ?pid (?p\<lparr>gp_state := Committed\<rparr>) ?e1, r2) \<and>
      status r2 = Success \<and>
      events r2 = [(''RecoveryApproved'', ascii ''CertificateRevocation proposal approved: '' @ gp_payload p)]"
    using assms(4) by (simp add: handle_commit_def Let_def get_proposal_def set_proposal_def get_put)
  with r1 show ?thesis by blast
qed

definition forged_signature :: GovernanceSignature where
  "forged_signature = \<lparr>gs_authority_id = replicate 32 0, gs_signature = [], gs_signed_at = 0\<rparr>"

definition forged_proposal :: GovernanceProposal where
  "forged_proposal =
     sample_proposal\<lparr>gp_expires_at := - 1, gp_signatures := [forged_signature, forged_signature, forged_signature]\<rparr>"

theorem forged_votes_commit_witness:
  "\<exists>e1 r1 e2 r2.
     handle_propose (ArgBytes (proposal_serialize forged_proposal)) engine_new = (e1, r1) \<and>
     handle_commit 5 (ArgInt 1) e1 = (e2, r2) \<and> status r2 = Success"
proof -
  have "proposal_wf forged_proposal"
    by (simp add: forged_proposal_def sample_proposal_def proposal_wf_def forged_signature_def gs_list_wf_def gs_wf_def
        tier_of_def level_of_def action_of_def proposal_state_of_def)
  then show ?thesis
    using forged_votes_commit [of forged_proposal engine_new 5]
    by (auto simp: forged_proposal_def sample_proposal_def engine_new_def word_sless_alt)
qed

end
