(* ===== verification/Version_Vector.thy ===== *)
theory Version_Vector
  imports Wire "HOL-Library.AList"
begin

text \<open>
  Version vectors (core/network/sync/version_vector.hpp, .cpp): for every node the
  highest epoch seen of it, merged when replicas exchange their state.  The
  unordered_map from names to epochs is an association list with distinct keys; its
  comparison is that of the maps.  Integers are written in the byte order of the
  machine, little-endian.
\<close>

section \<open>Definitions\<close>

datatype VVCompaction = VVFull | AWO

record VersionVector =
  dots :: "(bytes \<times> u64) list"
  compaction :: VVCompaction

definition vv_new :: VersionVector where
  "vv_new = \<lparr>dots = [], compaction = VVFull\<rparr>"

definition vv_eq :: "VersionVector \<Rightarrow> VersionVector \<Rightarrow> bool" where
  "vv_eq a b \<longleftrightarrow>
     length (dots a) = length (dots b) \<and> list_all (\<lambda>(n, ep). map_of (dots b) n = Some ep) (dots a)"

definition vv_get :: "VersionVector \<Rightarrow> bytes \<Rightarrow> u64" where
  "vv_get v n = (case map_of (dots v) n of Some ep \<Rightarrow> ep | None \<Rightarrow> 0)"

definition vv_set :: "bytes \<Rightarrow> u64 \<Rightarrow> VersionVector \<Rightarrow> VersionVector" where
  "vv_set n ep v = v\<lparr>dots := AList.update n ep (dots v)\<rparr>"

definition vv_merge_dot :: "(bytes \<times> u64) list \<Rightarrow> bytes \<times> u64 \<Rightarrow> (bytes \<times> u64) list" where
  "vv_merge_dot ds e =
     (case e of (n, ep) \<Rightarrow>
        (case map_of ds n of
           None \<Rightarrow> AList.update n ep ds
         | Some old \<Rightarrow> if old < ep then AList.update n ep ds else ds))"

definition vv_merge :: "VersionVector \<Rightarrow> VersionVector \<Rightarrow> VersionVector" where
  "vv_merge v w = v\<lparr>dots := foldl vv_merge_dot (dots v) (dots w)\<rparr>"

definition vv_dominates :: "VersionVector \<Rightarrow> VersionVector \<Rightarrow> bool" where
  "vv_dominates v w \<longleftrightarrow>
     \<not> list_ex (\<lambda>(n, ep). case map_of (dots v) n of None \<Rightarrow> True | Some e \<Rightarrow> e < ep) (dots w)"

definition vv_compact :: "u64 \<Rightarrow> VersionVector \<Rightarrow> VersionVector" where
  "vv_compact baseline v =
     (if compaction v = VVFull then v else v\<lparr>dots := filter (\<lambda>(n, ep). baseline < ep) (dots v)\<rparr>)"

definition vv_serialize :: "VersionVector \<Rightarrow> bytes" where
  "vv_serialize v =
     write_le 4 (of_nat (length (dots v)) :: u32)
     @ concat (map (\<lambda>(n, ep). write_le 4 (of_nat (length n) :: u32) @ n @ write_le 8 ep) (dots v))"

abbreviation err_sync_truncated :: error_code where
  "err_sync_truncated \<equiv> smo_err CatSync 1 SevError NoRetry RecNone"

primrec vv_loop :: "nat \<Rightarrow> bytes \<Rightarrow> (bytes \<times> u64) list \<Rightarrow> (bytes \<times> u64) list result" where
  "vv_loop 0 data ds = Ok ds"
| "vv_loop (Suc k) data ds =
     (if length data < 4 then Err err_sync_truncated
      else
        let nlen = unat (read_le 4 data :: u32); r = drop 4 data
        in if length r < nlen + 8 then Err err_sync_truncated
           else vv_loop k (drop (nlen + 8) r) (AList.update (take nlen r) (read_le 8 (drop nlen r)) ds))"

definition vv_deserialize :: "bytes \<Rightarrow> VersionVector result" where
  "vv_deserialize data =
     (if length data < 4 then Err err_sync_truncated
      else rbind (vv_loop (unat (read_le 4 data :: u32)) (drop 4 data) []) (\<lambda>ds.
             Ok \<lparr>dots = ds, compaction = VVFull\<rparr>))"

section \<open>What a vector stands for\<close>

definition vv_wf :: "VersionVector \<Rightarrow> bool" where
  "vv_wf v \<longleftrightarrow> distinct (map fst (dots v))"

text \<open>The join of two partial maps into epochs.\<close>

definition epoch_join :: "(bytes \<rightharpoonup> u64) \<Rightarrow> (bytes \<rightharpoonup> u64) \<Rightarrow> bytes \<rightharpoonup> u64" where
  "epoch_join f g n =
     (case (f n, g n) of (None, y) \<Rightarrow> y | (x, None) \<Rightarrow> x | (Some x, Some y) \<Rightarrow> Some (max x y))"

lemma epoch_join_laws:
  "epoch_join (epoch_join f g) h = epoch_join f (epoch_join g h)"
  "epoch_join f g = epoch_join g f"
  "epoch_join f f = f"
  by (auto simp: epoch_join_def fun_eq_iff max.assoc max.commute max.left_commute split: option.split)

lemma map_of_merge_dot:
  "map_of (vv_merge_dot ds (n, ep)) = epoch_join (map_of ds) [n \<mapsto> ep]"
  by (auto simp: vv_merge_dot_def epoch_join_def fun_eq_iff update_conv max_def split: option.split)

lemma epoch_join_Cons:
  assumes "n \<notin> fst ` set es"
  shows "epoch_join [n \<mapsto> ep] (map_of es) = map_of ((n, ep) # es)"
proof -
  have "map_of es n = None" using assms by (simp add: map_of_eq_None_iff)
  then show ?thesis by (auto simp: epoch_join_def fun_eq_iff split: option.split)
qed

lemma map_of_merge_list:
  "distinct (map fst es) \<Longrightarrow> map_of (foldl vv_merge_dot ds es) = epoch_join (map_of ds) (map_of es)"
proof (induction es arbitrary: ds)
  case Nil
  then show ?case by (auto simp: epoch_join_def fun_eq_iff split: option.split)
next
  case (Cons e es)
  obtain n ep where e: "e = (n, ep)" by (cases e)
  then have "map_of (foldl vv_merge_dot ds (e # es)) = epoch_join (epoch_join (map_of ds) [n \<mapsto> ep]) (map_of es)"
    using Cons by (simp add: map_of_merge_dot)
  also have "\<dots> = epoch_join (map_of ds) (map_of (e # es))"
    using Cons.prems e epoch_join_Cons [of n es ep] by (simp add: epoch_join_laws(1))
  finally show ?case .
qed

lemma distinct_update: "distinct (map fst al) \<Longrightarrow> distinct (map fst (AList.update k v al))"
  by (simp add: update_keys)

lemma distinct_merge_list:
  "distinct (map fst ds) \<Longrightarrow> distinct (map fst (foldl vv_merge_dot ds es))"
proof (induction es arbitrary: ds)
  case (Cons e es)
  have "distinct (map fst (vv_merge_dot ds e))"
    using Cons.prems by (auto simp: vv_merge_dot_def distinct_update split: prod.split option.split)
  with Cons.IH show ?case by simp
qed simp

section \<open>Convergence\<close>

text \<open>A replica whose state joins what it receives.  Two replicas that receive the same
  states, in whatever order and however often, agree on what they observe.\<close>

locale join_replica =
  fixes join :: "'s \<Rightarrow> 's \<Rightarrow> 's"
    and obs :: "'s \<Rightarrow> 'o"
    and sup_obs :: "'o \<Rightarrow> 'o \<Rightarrow> 'o"
    and wf :: "'s \<Rightarrow> bool"
  assumes obs_join: "wf a \<Longrightarrow> wf b \<Longrightarrow> obs (join a b) = sup_obs (obs a) (obs b)"
    and wf_join: "wf a \<Longrightarrow> wf b \<Longrightarrow> wf (join a b)"
    and sup_assoc: "sup_obs (sup_obs x y) z = sup_obs x (sup_obs y z)"
    and sup_commute: "sup_obs x y = sup_obs y x"
    and sup_idem: "sup_obs x x = x"
begin

lemma wf_foldl: "wf a \<Longrightarrow> \<forall>b \<in> set bs. wf b \<Longrightarrow> wf (foldl join a bs)"
  by (induction bs arbitrary: a) (auto simp: wf_join)

lemma obs_foldl: "wf a \<Longrightarrow> \<forall>b \<in> set bs. wf b \<Longrightarrow> obs (foldl join a bs) = fold sup_obs (map obs bs) (obs a)"
  by (induction bs arbitrary: a) (auto simp: wf_join obs_join sup_commute)

lemma sup_left_commute: "sup_obs x (sup_obs y z) = sup_obs y (sup_obs x z)"
  by (metis sup_assoc sup_commute)

lemma sup_left_idem: "sup_obs x (sup_obs x z) = sup_obs x z"
  by (metis sup_assoc sup_idem)

lemma fold_sup_set: "set xs = set ys \<Longrightarrow> fold sup_obs xs z = fold sup_obs ys z"
proof -
  have idem: "comp_fun_idem_on UNIV sup_obs"
    by unfold_locales (simp_all add: fun_eq_iff sup_left_commute sup_left_idem)
  show "set xs = set ys \<Longrightarrow> fold sup_obs xs z = fold sup_obs ys z"
    using comp_fun_idem_on.fold_set_fold [OF idem] by (metis subset_UNIV)
qed

lemma convergence:
  assumes "wf a" "wf b" "obs a = obs b" "\<forall>x \<in> set xs. wf x" "set xs = set ys"
  shows "obs (foldl join a xs) = obs (foldl join b ys)"
  using assms fold_sup_set [of "map obs xs" "map obs ys"] by (simp add: obs_foldl)

text \<open>Every received state is below the result.\<close>

lemma absorbed:
  assumes "wf a" "\<forall>x \<in> set xs. wf x" "x \<in> set xs"
  shows "sup_obs (obs (foldl join a xs)) (obs x) = obs (foldl join a xs)"
proof -
  have "fold sup_obs (obs x # map obs xs) (obs a) = fold sup_obs (map obs xs) (obs a)"
    using assms(3) by (intro fold_sup_set) auto
  moreover have "fold sup_obs zs (sup_obs y w) = sup_obs y (fold sup_obs zs w)" for y w zs
  proof (induction zs arbitrary: w)
    case (Cons z zs)
    then show ?case by (metis fold_simps(2) sup_left_commute)
  qed simp
  ultimately have "sup_obs (obs x) (fold sup_obs (map obs xs) (obs a)) = fold sup_obs (map obs xs) (obs a)"
    by (metis fold_simps(2))
  then show ?thesis using assms by (simp add: obs_foldl sup_commute [of _ "obs x"])
qed

end

interpretation vv: join_replica vv_merge "\<lambda>v. map_of (dots v)" epoch_join vv_wf
proof unfold_locales
  fix a b :: VersionVector
  assume "vv_wf a" "vv_wf b"
  then show "map_of (dots (vv_merge a b)) = epoch_join (map_of (dots a)) (map_of (dots b))"
    and "vv_wf (vv_merge a b)"
    by (simp_all add: vv_merge_def vv_wf_def map_of_merge_list distinct_merge_list)
qed (rule epoch_join_laws)+

lemma vv_eq_iff:
  assumes "vv_wf a" "vv_wf b"
  shows "vv_eq a b \<longleftrightarrow> map_of (dots a) = map_of (dots b)"
proof
  assume eq: "vv_eq a b"
  then have sub: "set (dots a) \<subseteq> set (dots b)" by (auto simp: vv_eq_def list_all_iff dest: map_of_SomeD)
  have "card (set (dots a)) = length (dots a)" "card (set (dots b)) = length (dots b)"
    using assms by (auto simp: vv_wf_def distinct_map intro: distinct_card)
  with eq sub have "set (dots a) = set (dots b)" by (intro card_subset_eq) (simp_all add: vv_eq_def)
  then show "map_of (dots a) = map_of (dots b)" using assms by (simp add: vv_wf_def map_of_inject_set)
next
  assume "map_of (dots a) = map_of (dots b)"
  then show "vv_eq a b"
    using assms map_of_inject_set [of "dots a" "dots b"]
      distinct_card [of "dots a"] distinct_card [of "dots b"]
    by (auto simp: vv_eq_def vv_wf_def list_all_iff distinct_map)
qed

lemma vv_dominates_all:
  assumes "vv_wf w"
  shows "vv_dominates v w \<longleftrightarrow>
    (\<forall>n ep. map_of (dots w) n = Some ep \<longrightarrow> (\<exists>e. map_of (dots v) n = Some e \<and> ep \<le> e))"
proof -
  have "vv_dominates v w \<longleftrightarrow> (\<forall>(n, ep) \<in> set (dots w). \<exists>e. map_of (dots v) n = Some e \<and> ep \<le> e)"
    unfolding vv_dominates_def list_ex_iff by (auto simp: not_less split: option.split_asm option.split)
  then show ?thesis using assms by (auto simp: vv_wf_def)
qed

lemma vv_dominates_iff:
  assumes "vv_wf w"
  shows "vv_dominates v w \<longleftrightarrow> epoch_join (map_of (dots v)) (map_of (dots w)) = map_of (dots v)"
proof -
  have "epoch_join f g n = f n \<longleftrightarrow> (\<forall>ep. g n = Some ep \<longrightarrow> (\<exists>e. f n = Some e \<and> ep \<le> e))" for f g :: "bytes \<rightharpoonup> u64" and n
    by (auto simp: epoch_join_def max_def split: option.split)
  then show ?thesis using assms by (auto simp: vv_dominates_all fun_eq_iff)
qed

section \<open>The format is read back\<close>

definition vv_storable :: "VersionVector \<Rightarrow> bool" where
  "vv_storable v \<longleftrightarrow>
     vv_wf v \<and> compaction v = VVFull \<and> length (dots v) < 2 ^ 32 \<and> (\<forall>(n, ep) \<in> set (dots v). length n < 2 ^ 32)"

lemma read_le_write_simps [wire_simps]:
  "read_le 4 (write_le 4 (w :: u32) @ r) = w"
  "read_le 8 (write_le 8 (v :: u64) @ r) = v"
  by (simp_all add: read_le_write)

lemma update_new: "k \<notin> fst ` set al \<Longrightarrow> AList.update k v al = al @ [(k, v)]"
  by (induction al) auto

lemma vv_loop_write:
  assumes "distinct (map fst (acc @ ds))" "\<forall>(n, ep) \<in> set ds. length n < 2 ^ 32"
  shows "vv_loop (length ds)
     (concat (map (\<lambda>(n, ep). write_le 4 (of_nat (length n) :: u32) @ n @ write_le 8 ep) ds) @ r) acc = Ok (acc @ ds)"
  using assms
proof (induction ds arbitrary: acc)
  case (Cons d ds)
  obtain n ep where d: "d = (n, ep)" by (cases d)
  have "unat (of_nat (length n) :: u32) = length n" using Cons.prems(2) d by (intro unat_of_nat_lt) auto
  moreover have "AList.update n ep acc = acc @ [d]" using Cons.prems(1) d by (auto intro: update_new)
  moreover have "vv_loop (length ds)
     (concat (map (\<lambda>(n, ep). write_le 4 (of_nat (length n) :: u32) @ n @ write_le 8 ep) ds) @ r) (acc @ [d]) =
     Ok ((acc @ [d]) @ ds)"
    using Cons.prems by (intro Cons.IH) auto
  ultimately show ?case using d by (simp add: wire_simps Let_def)
qed simp

interpretation vv_codec: codec vv_serialize vv_deserialize vv_storable
proof unfold_locales
  fix v assume "vv_storable v"
  moreover from this have "unat (of_nat (length (dots v)) :: u32) = length (dots v)"
    by (intro unat_of_nat_lt) (simp add: vv_storable_def)
  ultimately show "vv_deserialize (vv_serialize v) = Ok v"
    using vv_loop_write [of "[]" "dots v" "[]"]
    by (simp add: vv_deserialize_def vv_serialize_def wire_simps vv_storable_def vv_wf_def)
qed

text \<open>
  C17. Replicas converge: two nodes with equal version vectors that merge the same
  vectors, each in its own order and any number of times, end with vectors that
  the comparison finds equal, and the result dominates every vector received.
\<close>

theorem version_vector_convergence:
  assumes "vv_wf a" "vv_wf b" "vv_eq a b" "\<forall>v \<in> set vs. vv_wf v" "set vs = set ws"
  shows "vv_eq (foldl vv_merge a vs) (foldl vv_merge b ws) \<and>
         (\<forall>v \<in> set vs. vv_dominates (foldl vv_merge a vs) v) \<and> vv_dominates (foldl vv_merge a vs) a"
proof -
  have ws: "\<forall>v \<in> set ws. vv_wf v" using assms(4,5) by simp
  have "map_of (dots (foldl vv_merge a vs)) = map_of (dots (foldl vv_merge b ws))"
    using assms vv.convergence [of a b vs ws] by (simp add: vv_eq_iff)
  then have "vv_eq (foldl vv_merge a vs) (foldl vv_merge b ws)"
    using assms ws by (simp add: vv_eq_iff vv.wf_foldl)
  moreover have "vv_dominates (foldl vv_merge a vs) v" if "v \<in> set vs" for v
    using that assms vv.absorbed [of a vs v] by (simp add: vv_dominates_iff)
  moreover have "vv_dominates (foldl vv_merge a vs) a"
  proof -
    have "map_of (dots (foldl vv_merge a vs)) = map_of (dots (foldl vv_merge a (a # vs)))"
      using assms vv.obs_join [of a a] vv.wf_join [of a a] by (simp add: vv.obs_foldl epoch_join_laws(3))
    then show ?thesis using assms vv.absorbed [of a "a # vs" a] by (simp add: vv_dominates_iff)
  qed
  ultimately show ?thesis by blast
qed

definition sample_vv :: "byte \<Rightarrow> u64 \<Rightarrow> VersionVector" where
  "sample_vv n ep = vv_set [n] ep vv_new"

theorem version_vector_convergence_witness:
  "vv_eq (foldl vv_merge vv_new [sample_vv 1 5, sample_vv 2 7, sample_vv 1 9])
         (foldl vv_merge vv_new [sample_vv 1 9, sample_vv 1 5, sample_vv 1 9, sample_vv 2 7])"
  using version_vector_convergence [of vv_new vv_new "[sample_vv 1 5, sample_vv 2 7, sample_vv 1 9]"
      "[sample_vv 1 9, sample_vv 1 5, sample_vv 1 9, sample_vv 2 7]"]
  by (auto simp: vv_wf_def vv_new_def vv_eq_def sample_vv_def vv_set_def)

text \<open>Merging what a replica has compacted away brings it back: after dropping an epoch at
  or below the baseline, a merge with a replica that has not dropped it restores it.\<close>

lemma compact_not_stable:
  "vv_merge (vv_compact 5 \<lparr>dots = [([1], 5)], compaction = AWO\<rparr>) \<lparr>dots = [([1], 5)], compaction = AWO\<rparr> =
   \<lparr>dots = [([1], 5)], compaction = AWO\<rparr>"
  by code_simp

end
