(* ===== verification/Merkle_Tree.thy ===== *)
theory Merkle_Tree
  imports Version_Vector
begin

text \<open>
  The hash trees that replicas compare before they exchange state
  (core/network/sync/merkle_tree.hpp, .cpp): a fixed number of buckets, a hash per
  bucket and a root hash over all bucket hashes, with the wire format.  The hash
  function of the provider is an argument.
\<close>

section \<open>Definitions\<close>

datatype TreeID = TreeMembership | TreeCRL | TreePolicy | TreeContract | TreeInvalid byte

primrec tree_byte :: "TreeID \<Rightarrow> byte" where
  "tree_byte TreeMembership = 0"
| "tree_byte TreeCRL = 1"
| "tree_byte TreePolicy = 2"
| "tree_byte TreeContract = 3"
| "tree_byte (TreeInvalid b) = b"

definition tree_of :: "byte \<Rightarrow> TreeID" where
  "tree_of b = (if b < 4 then [TreeMembership, TreeCRL, TreePolicy, TreeContract] ! unat b else TreeInvalid b)"

primrec tree_bucket_count :: "TreeID \<Rightarrow> nat" where
  "tree_bucket_count TreeMembership = 256"
| "tree_bucket_count TreeCRL = 256"
| "tree_bucket_count TreePolicy = 64"
| "tree_bucket_count TreeContract = 64"
| "tree_bucket_count (TreeInvalid b) = 0"

record MerkleNode =
  mn_hash :: bytes
  mn_epoch :: u64
  mn_data :: bytes

definition node_new :: MerkleNode where
  "node_new = \<lparr>mn_hash = replicate 32 0, mn_epoch = 0, mn_data = []\<rparr>"

record MerkleTree =
  mt_id :: TreeID
  mt_epoch :: u64
  mt_vv :: VersionVector
  mt_root :: bytes
  mt_buckets :: "MerkleNode list"

definition tree_new :: "TreeID \<Rightarrow> MerkleTree" where
  "tree_new i =
     \<lparr>mt_id = i, mt_epoch = 0, mt_vv = vv_new, mt_root = replicate 32 0,
      mt_buckets = replicate (tree_bucket_count i) node_new\<rparr>"

text \<open>memcpy of at most 32 bytes over an array.\<close>

definition copy32 :: "bytes \<Rightarrow> bytes \<Rightarrow> bytes" where
  "copy32 old h = take 32 h @ drop (length (take 32 h)) old"

definition rehash :: "(bytes \<Rightarrow> bytes) \<Rightarrow> MerkleNode \<Rightarrow> MerkleNode" where
  "rehash h b =
     (if mn_data b \<noteq> [] then b\<lparr>mn_hash := copy32 (mn_hash b) (h (mn_data b))\<rparr>
      else b\<lparr>mn_hash := replicate 32 0, mn_epoch := 0\<rparr>)"

definition rebuild :: "(bytes \<Rightarrow> bytes) \<Rightarrow> MerkleTree \<Rightarrow> MerkleTree" where
  "rebuild h t =
     (let bs = map (rehash h) (mt_buckets t)
      in t\<lparr>mt_buckets := bs, mt_root := copy32 (mt_root t) (h (concat (map mn_hash bs)))\<rparr>)"

definition tree_eq :: "MerkleTree \<Rightarrow> MerkleTree \<Rightarrow> bool" where
  "tree_eq t u \<longleftrightarrow> mt_id t = mt_id u \<and> mt_epoch t = mt_epoch u \<and> vv_eq (mt_vv t) (mt_vv u) \<and> mt_root t = mt_root u"

definition node_serialize :: "MerkleNode \<Rightarrow> bytes" where
  "node_serialize n =
     mn_hash n @ write_le 8 (mn_epoch n) @ write_le 4 (of_nat (length (mn_data n)) :: u32) @ mn_data n"

definition node_deserialize :: "bytes \<Rightarrow> MerkleNode result" where
  "node_deserialize data =
     (if length data < 44 then Err err_sync_truncated
      else
        let dlen = unat (read_le 4 (drop 40 data) :: u32); r = drop 44 data
        in if length r < dlen then Err err_sync_truncated
           else Ok \<lparr>mn_hash = take 32 data, mn_epoch = read_le 8 (drop 32 data), mn_data = take dlen r\<rparr>)"

definition tree_serialize :: "MerkleTree \<Rightarrow> bytes" where
  "tree_serialize t =
     [tree_byte (mt_id t)] @ write_le 8 (mt_epoch t)
     @ write_le 4 (of_nat (length (vv_serialize (mt_vv t))) :: u32) @ vv_serialize (mt_vv t)
     @ mt_root t @ write_le 4 (of_nat (length (mt_buckets t)) :: u32)
     @ concat (map node_serialize (mt_buckets t))"

text \<open>The loop over the buckets adds the size of a bucket's data to the position after the
  data has been moved into the tree: what it adds is the size of an empty vector.\<close>

primrec bucket_loop :: "nat \<Rightarrow> bytes \<Rightarrow> MerkleNode list result" where
  "bucket_loop 0 data = Ok []"
| "bucket_loop (Suc n) data =
     rbind (node_deserialize data) (\<lambda>b. rbind (bucket_loop n (drop 44 data)) (\<lambda>bs. Ok (b # bs)))"

definition tree_deserialize :: "bytes \<Rightarrow> MerkleTree result" where
  "tree_deserialize data =
     (if length data < 13 then Err err_sync_truncated
      else
        let vv_len = unat (read_le 4 (drop 9 data) :: u32); r = drop 13 data
        in if length r < vv_len then Err err_sync_truncated
           else
             rbind (vv_deserialize (take vv_len r)) (\<lambda>vv.
               let r1 = drop vv_len r
               in if length r1 < 36 then Err err_sync_truncated
                  else
                    rbind (bucket_loop (unat (read_le 4 (drop 32 r1) :: u32)) (drop 36 r1)) (\<lambda>bs.
                      Ok \<lparr>mt_id = tree_of (data ! 0), mt_epoch = read_le 8 (drop 1 data), mt_vv = vv,
                          mt_root = take 32 r1, mt_buckets = bs\<rparr>)))"

section \<open>The root stands for the data\<close>

text \<open>What the comparison of roots relies on: digests of 32 bytes, none of them the
  all-zero mark of an empty bucket, and no collision among the inputs that occur.\<close>

definition digest_ok :: "(bytes \<Rightarrow> bytes) \<Rightarrow> bytes set \<Rightarrow> bool" where
  "digest_ok h S \<longleftrightarrow> (\<forall>x \<in> S. length (h x) = 32 \<and> h x \<noteq> replicate 32 0) \<and> inj_on h S"

definition leaf_hash :: "(bytes \<Rightarrow> bytes) \<Rightarrow> bytes \<Rightarrow> bytes" where
  "leaf_hash h d = (if d = [] then replicate 32 0 else h d)"

definition hash_inputs :: "(bytes \<Rightarrow> bytes) \<Rightarrow> MerkleTree \<Rightarrow> bytes set" where
  "hash_inputs h t =
     (set (map mn_data (mt_buckets t)) - {[]}) \<union> {concat (map (\<lambda>b. leaf_hash h (mn_data b)) (mt_buckets t))}"

lemma copy32_full: "length h = 32 \<Longrightarrow> length old = 32 \<Longrightarrow> copy32 old h = h"
  by (simp add: copy32_def)

definition tree_wf :: "MerkleTree \<Rightarrow> bool" where
  "tree_wf t \<longleftrightarrow> length (mt_root t) = 32 \<and> (\<forall>b \<in> set (mt_buckets t). length (mn_hash b) = 32)"

lemma rehash_hash:
  assumes "length (mn_hash b) = 32" "mn_data b \<noteq> [] \<Longrightarrow> length (h (mn_data b)) = 32"
  shows "mn_hash (rehash h b) = leaf_hash h (mn_data b)"
  using assms by (simp add: rehash_def leaf_hash_def copy32_full)

lemma root_rebuild:
  assumes "tree_wf t" "digest_ok h S" "hash_inputs h t \<subseteq> S"
  shows "mt_root (rebuild h t) = h (concat (map (\<lambda>b. leaf_hash h (mn_data b)) (mt_buckets t)))"
proof -
  have "mn_hash (rehash h b) = leaf_hash h (mn_data b)" if "b \<in> set (mt_buckets t)" for b
  proof (rule rehash_hash)
    show "length (mn_hash b) = 32" using that assms(1) by (simp add: tree_wf_def)
    show "length (h (mn_data b)) = 32" if "mn_data b \<noteq> []"
      using that \<open>b \<in> _\<close> assms(2,3) by (auto simp: digest_ok_def hash_inputs_def)
  qed
  then have "map (mn_hash \<circ> rehash h) (mt_buckets t) = map (\<lambda>b. leaf_hash h (mn_data b)) (mt_buckets t)"
    by simp
  moreover have "length (h (concat (map (\<lambda>b. leaf_hash h (mn_data b)) (mt_buckets t)))) = 32"
    using assms(2,3) by (simp add: digest_ok_def hash_inputs_def)
  ultimately show ?thesis
    using assms(1) unfolding rebuild_def Let_def tree_wf_def by (simp add: copy32_full del: map_eq_conv)
qed

lemma concat_blocks_inject:
  "\<lbrakk>concat (map f xs) = concat (map f ys); length xs = length ys;
    \<forall>x \<in> set xs \<union> set ys. length (f x) = n\<rbrakk> \<Longrightarrow> map f xs = map f ys"
proof (induction xs arbitrary: ys)
  case (Cons x xs)
  then obtain y ys' where "ys = y # ys'" by (cases ys) auto
  with Cons show ?case by (auto simp: append_eq_append_conv)
qed simp

lemma map_inject_pairs:
  "\<lbrakk>length xs = length ys; \<And>x y. x \<in> set xs \<Longrightarrow> y \<in> set ys \<Longrightarrow> f x = f y \<longleftrightarrow> g x = g y\<rbrakk>
    \<Longrightarrow> map f xs = map f ys \<longleftrightarrow> map g xs = map g ys"
  by (induction xs ys rule: list_induct2) auto

lemma leaf_hash_inject:
  assumes "digest_ok h S" "d \<in> S \<union> {[]}" "e \<in> S \<union> {[]}"
  shows "leaf_hash h d = leaf_hash h e \<longleftrightarrow> d = e"
proof
  assume eq: "leaf_hash h d = leaf_hash h e"
  have "h x \<noteq> replicate 32 0" if "x \<in> S" for x using assms(1) that by (simp add: digest_ok_def)
  then have "d = [] \<longleftrightarrow> e = []" using eq assms(2,3) by (auto simp: leaf_hash_def split: if_splits)
  moreover have "d = e" if "d \<noteq> []" "e \<noteq> []"
    using that eq assms by (auto simp: leaf_hash_def digest_ok_def dest: inj_onD)
  ultimately show "d = e" by auto
qed simp

text \<open>
  C18. Equal roots mean equal replicas: for two trees with the same number of buckets,
  as long as the hash has no collision among the inputs that occur, the roots
  after a rebuild agree exactly when every bucket holds the same data.
\<close>

theorem merkle_root_binds:
  assumes "tree_wf t" "tree_wf u" "length (mt_buckets t) = length (mt_buckets u)"
    and "digest_ok h (hash_inputs h t \<union> hash_inputs h u)"
  shows "mt_root (rebuild h t) = mt_root (rebuild h u) \<longleftrightarrow>
         map mn_data (mt_buckets t) = map mn_data (mt_buckets u)"
proof -
  let ?S = "hash_inputs h t \<union> hash_inputs h u"
  let ?leaves = "\<lambda>t. map (\<lambda>b. leaf_hash h (mn_data b)) (mt_buckets t)"
  have data: "mn_data b \<in> ?S \<union> {[]}" if "b \<in> set (mt_buckets t) \<union> set (mt_buckets u)" for b
    using that by (auto simp: hash_inputs_def)
  have roots: "mt_root (rebuild h t) = h (concat (?leaves t))" "mt_root (rebuild h u) = h (concat (?leaves u))"
    using assms by (auto intro: root_rebuild)
  have "inj_on h ?S" "concat (?leaves t) \<in> ?S" "concat (?leaves u) \<in> ?S"
    using assms(4) by (simp_all add: digest_ok_def hash_inputs_def)
  then have "h (concat (?leaves t)) = h (concat (?leaves u)) \<longleftrightarrow> concat (?leaves t) = concat (?leaves u)"
    by (rule inj_on_eq_iff)
  also have "\<dots> \<longleftrightarrow> ?leaves t = ?leaves u"
  proof -
    have "length (leaf_hash h (mn_data b)) = 32" if "b \<in> set (mt_buckets t) \<union> set (mt_buckets u)" for b
      using data [OF that] assms(4) by (auto simp: leaf_hash_def digest_ok_def)
    then have len: "\<forall>b \<in> set (mt_buckets t) \<union> set (mt_buckets u). length (leaf_hash h (mn_data b)) = 32" by blast
    have "?leaves t = ?leaves u" if "concat (?leaves t) = concat (?leaves u)"
      using that assms(3) len by (rule concat_blocks_inject)
    then show ?thesis by (rule iffI) (assumption, simp only:)
  qed
  also have "\<dots> \<longleftrightarrow> map mn_data (mt_buckets t) = map mn_data (mt_buckets u)"
    using assms(3) data by (intro map_inject_pairs) (simp_all add: leaf_hash_inject [OF assms(4)])
  finally show ?thesis using roots by simp
qed

definition sample_digest :: "bytes \<Rightarrow> bytes" where
  "sample_digest x = take 32 (1 # x @ replicate 32 0)"

definition sample_tree :: "byte \<Rightarrow> MerkleTree" where
  "sample_tree b =
     (tree_new TreePolicy)\<lparr>mt_buckets := [node_new\<lparr>mn_data := [b]\<rparr>, node_new]\<rparr>"

theorem merkle_root_binds_witness:
  "mt_root (rebuild sample_digest (sample_tree 5)) \<noteq> mt_root (rebuild sample_digest (sample_tree 6))"
proof -
  have "tree_wf (sample_tree b)" for b
    by (simp add: tree_wf_def sample_tree_def tree_new_def node_new_def)
  moreover have "digest_ok sample_digest (hash_inputs sample_digest (sample_tree 5) \<union> hash_inputs sample_digest (sample_tree 6))"
    by (simp add: digest_ok_def hash_inputs_def sample_tree_def node_new_def leaf_hash_def sample_digest_def
        numeral_eq_Suc insert_Diff_if) code_simp
  ultimately show ?thesis
    using merkle_root_binds [of "sample_tree 5" "sample_tree 6" sample_digest]
    by (simp add: sample_tree_def node_new_def)
qed

section \<open>The format\<close>

definition node_storable :: "MerkleNode \<Rightarrow> bool" where
  "node_storable n \<longleftrightarrow> length (mn_hash n) = 32 \<and> length (mn_data n) < 2 ^ 32"

lemma node_deserialize_append:
  assumes "node_storable n"
  shows "node_deserialize (node_serialize n @ r) = Ok n"
proof -
  have "unat (of_nat (length (mn_data n)) :: u32) = length (mn_data n)"
    using assms by (intro unat_of_nat_lt) (simp add: node_storable_def)
  then show ?thesis
    using assms by (simp add: node_deserialize_def node_serialize_def node_storable_def wire_simps Let_def)
qed

interpretation node_codec: codec node_serialize node_deserialize node_storable
  by unfold_locales (use node_deserialize_append [where r = "[]"] in simp)

lemma bucket_loop_write:
  "\<lbrakk>\<forall>b \<in> set bs. node_storable b; \<forall>b \<in> set (butlast bs). mn_data b = []\<rbrakk>
    \<Longrightarrow> bucket_loop (length bs) (concat (map node_serialize bs)) = Ok bs"
proof (induction bs)
  case (Cons b bs)
  show ?case
  proof (cases "bs = []")
    case True
    then show ?thesis using Cons.prems node_deserialize_append [of b "[]"] by simp
  next
    case False
    then have "drop 44 (node_serialize b @ concat (map node_serialize bs)) = concat (map node_serialize bs)"
      using Cons.prems by (simp add: node_serialize_def node_storable_def)
    then show ?thesis using Cons False by (simp add: node_deserialize_append)
  qed
qed simp

definition tree_storable :: "MerkleTree \<Rightarrow> bool" where
  "tree_storable t \<longleftrightarrow>
     tree_of (tree_byte (mt_id t)) = mt_id t \<and> vv_storable (mt_vv t) \<and> length (vv_serialize (mt_vv t)) < 2 ^ 32
     \<and> length (mt_root t) = 32 \<and> length (mt_buckets t) < 2 ^ 32
     \<and> (\<forall>b \<in> set (mt_buckets t). node_storable b)
     \<and> (\<forall>b \<in> set (butlast (mt_buckets t)). mn_data b = [])"

text \<open>A tree is read back when no bucket but the last holds data.\<close>

interpretation tree_codec: codec tree_serialize tree_deserialize tree_storable
proof unfold_locales
  fix t assume t: "tree_storable t"
  have "unat (of_nat (length (vv_serialize (mt_vv t))) :: u32) = length (vv_serialize (mt_vv t))"
    and "unat (of_nat (length (mt_buckets t)) :: u32) = length (mt_buckets t)"
    using t by (auto simp: tree_storable_def intro!: unat_of_nat_lt)
  then show "tree_deserialize (tree_serialize t) = Ok t"
    using t bucket_loop_write [of "mt_buckets t"]
    by (simp add: tree_deserialize_def tree_serialize_def tree_storable_def wire_simps Let_def vv_codec.dec_enc)
qed

lemma node_deserialize_hash: "node_deserialize data = Ok n \<Longrightarrow> mn_hash n = take 32 data"
  by (auto simp: node_deserialize_def Let_def split: if_splits)

text \<open>With data in an earlier bucket, what follows is read from the wrong place: the bytes of
  the data are taken for the hash of the next bucket.\<close>

lemma bucket_loop_misread:
  assumes "node_storable a" "mn_data a \<noteq> []" "mn_hash b \<noteq> []" "hd (mn_data a) \<noteq> hd (mn_hash b)"
  shows "bucket_loop (length (a # b # bs)) (concat (map node_serialize (a # b # bs))) \<noteq> Ok (a # b # bs)"
proof
  let ?r = "concat (map node_serialize (b # bs))"
  assume ok: "bucket_loop (length (a # b # bs)) (concat (map node_serialize (a # b # bs))) = Ok (a # b # bs)"
  have "drop 44 (node_serialize a @ ?r) = mn_data a @ ?r"
    using assms(1) by (simp add: node_serialize_def node_storable_def)
  then have "node_deserialize (mn_data a @ ?r) = Ok b"
    using ok assms(1) by (simp add: node_deserialize_append rbind_eq_Ok)
  then have "mn_hash b = take 32 (mn_data a @ ?r)" by (rule node_deserialize_hash)
  then have "hd (mn_hash b) = hd (mn_data a)" using assms(2) by (cases "mn_data a") auto
  with assms(4) show False by simp
qed

end
