(* ===== verification/Raft_Log.thy ===== *)
theory Raft_Log
  imports Smo_Prelude
begin

text \<open>
  The replicated log in memory (core/consensus/raft_log.hpp, .cpp): entries numbered
  from 1, appended at the end and cut from an index on.  The operations run under one
  mutex, so a run of the log is a sequence of operations.
\<close>

section \<open>Definitions\<close>

record RaftLogEntry =
  term_no :: u64
  index_no :: u64
  entry_data :: bytes
  is_noop :: bool

type_synonym InMemoryRaftLog = "RaftLogEntry list"

definition log_last_index :: "InMemoryRaftLog \<Rightarrow> u64" where
  "log_last_index es = (if es = [] then 0 else index_no (last es))"

definition log_last_term :: "InMemoryRaftLog \<Rightarrow> u64" where
  "log_last_term es = (if es = [] then 0 else term_no (last es))"

definition log_append :: "RaftLogEntry \<Rightarrow> InMemoryRaftLog \<Rightarrow> InMemoryRaftLog \<times> u64 result" where
  "log_append entry es =
     (let i = if es = [] then 1 else index_no (last es) + 1;
          es' = es @ [entry\<lparr>index_no := i\<rparr>]
      in (es', Ok (index_no (last es'))))"

definition log_get :: "u64 \<Rightarrow> InMemoryRaftLog \<Rightarrow> RaftLogEntry result" where
  "log_get i es =
     (case find (\<lambda>e. index_no e = i) es of
        Some e \<Rightarrow> Ok e
      | None \<Rightarrow> Err (smo_err CatInternal 100 Critical NoRetry ManualIntervention))"

definition log_truncate :: "u64 \<Rightarrow> InMemoryRaftLog \<Rightarrow> InMemoryRaftLog" where
  "log_truncate from es = filter (\<lambda>e. \<not> from \<le> index_no e) es"

definition log_range :: "u64 \<Rightarrow> u64 \<Rightarrow> InMemoryRaftLog \<Rightarrow> RaftLogEntry list" where
  "log_range s e es = filter (\<lambda>x. s \<le> index_no x \<and> index_no x \<le> e) es"

section \<open>Reachable logs\<close>

datatype log_op = LAppend RaftLogEntry | LTruncate u64

fun log_run :: "log_op \<Rightarrow> InMemoryRaftLog \<Rightarrow> InMemoryRaftLog" where
  "log_run (LAppend e) es = fst (log_append e es)"
| "log_run (LTruncate i) es = log_truncate i es"

definition log_wf :: "InMemoryRaftLog \<Rightarrow> bool" where
  "log_wf es \<longleftrightarrow> length es < 2 ^ 64 \<and> (\<forall>k < length es. unat (index_no (es ! k)) = Suc k)"

lemma log_wf_last: "log_wf es \<Longrightarrow> unat (log_last_index es) = length es"
  by (cases es rule: rev_cases) (auto simp: log_wf_def log_last_index_def)

lemma unat_Suc_u64: "unat (w :: u64) + 1 < 2 ^ 64 \<Longrightarrow> unat (w + 1) = Suc (unat w)"
  by (subst unat_word_ariths(1)) simp

lemma unat_inverse_u64: "of_nat (unat (w :: u64)) = w"
  by simp

lemma log_wf_append:
  assumes "log_wf es" "Suc (length es) < 2 ^ 64"
  shows "log_wf (fst (log_append e es)) \<and> snd (log_append e es) = Ok (of_nat (Suc (length es)))"
proof -
  define i :: u64 where "i = (if es = [] then 1 else index_no (last es) + 1)"
  have i: "unat i = Suc (length es)"
    using log_wf_last [OF assms(1)] assms(2) unat_Suc_u64 [of "log_last_index es"]
    by (simp add: i_def log_last_index_def split: if_splits)
  then have "i = of_nat (Suc (length es))" by (metis unat_inverse_u64)
  then show ?thesis
    using assms i by (auto simp: log_append_def Let_def log_wf_def nth_append less_Suc_eq simp flip: i_def)
qed

text \<open>Cutting removes a suffix: filtering by index is taking a prefix.\<close>

lemma filter_prefix:
  "\<lbrakk>\<forall>k < length es. f (es ! k) = Suc k\<rbrakk> \<Longrightarrow> filter (\<lambda>e. f e \<le> n) es = take n es"
proof (induction es rule: rev_induct)
  case (snoc e es)
  have "\<forall>k < length es. f (es ! k) = Suc k" using snoc.prems by (metis length_append_singleton less_Suc_eq nth_append)
  moreover have "f e = Suc (length es)" using snoc.prems by (metis length_append_singleton lessI nth_append_length)
  ultimately show ?case using snoc.IH by (auto simp: not_le)
qed simp

lemma log_truncate_take:
  assumes "log_wf es"
  shows "log_truncate i es = take (unat i - 1) es"
proof -
  have idx: "\<forall>k < length es. unat (index_no (es ! k)) = Suc k" using assms by (simp add: log_wf_def)
  have "log_truncate i es = filter (\<lambda>e. unat (index_no e) \<le> unat i - 1) es"
    unfolding log_truncate_def
  proof (rule filter_cong [OF refl])
    fix e assume "e \<in> set es"
    then have "0 < unat (index_no e)" using idx by (auto simp: in_set_conv_nth)
    then show "\<not> i \<le> index_no e \<longleftrightarrow> unat (index_no e) \<le> unat i - 1"
      by (auto simp: word_le_nat_alt)
  qed
  with filter_prefix [OF idx] show ?thesis by simp
qed

lemma log_wf_take: "log_wf es \<Longrightarrow> log_wf (take n es)"
  by (auto simp: log_wf_def)

lemma log_run_length: "log_wf es \<Longrightarrow> length (log_run op es) \<le> Suc (length es)"
  by (cases op) (auto simp: log_append_def Let_def log_truncate_take)

lemma log_run_wf: "log_wf es \<Longrightarrow> Suc (length es) < 2 ^ 64 \<Longrightarrow> log_wf (log_run op es)"
  by (cases op) (auto simp: log_wf_append log_truncate_take log_wf_take)

text \<open>
  Every log is numbered without gaps: after any sequence of fewer than 2^64
  appends and truncations of the empty log, the entries carry the indices 1, 2, ...
  in order, the indices of entries given by callers never being used.
\<close>

lemma raft_log_numbered:
  assumes "length ops < 2 ^ 64"
  shows "map (\<lambda>e. unat (index_no e)) (fold log_run ops []) = [1..<Suc (length (fold log_run ops []))]"
proof -
  have "log_wf (fold log_run ops es)" if "log_wf es" "length es + length ops < 2 ^ 64" for es
    using that
  proof (induction ops arbitrary: es)
    case (Cons op ops)
    then show ?case
      using log_run_length [of es op] log_run_wf [of es op] by simp
  qed simp
  from this [of "[]"] have "log_wf (fold log_run ops [])" using assms by (simp add: log_wf_def)
  then show ?thesis by (auto simp: log_wf_def intro!: nth_equalityI simp del: upt_Suc)
qed

definition sample_entry :: "u64 \<Rightarrow> RaftLogEntry" where
  "sample_entry t = \<lparr>term_no = t, index_no = 99, entry_data = [], is_noop = False\<rparr>"

lemma raft_log_numbered_example:
  "map (\<lambda>e. unat (index_no e))
     (fold log_run [LAppend (sample_entry 1), LAppend (sample_entry 1), LTruncate 2, LAppend (sample_entry 2)] [])
   = [1, 2]"
proof -
  let ?ops = "[LAppend (sample_entry 1), LAppend (sample_entry 1), LTruncate 2, LAppend (sample_entry 2)]"
  have "length (fold log_run ?ops []) = 2" by code_simp
  moreover have "length ?ops < 2 ^ 64" "[1..<Suc 2] = [1, 2 :: nat]" by (simp, code_simp)
  ultimately show ?thesis using raft_log_numbered [of ?ops] by (simp only:)
qed

section \<open>The log as a list\<close>

lemma find_index:
  assumes "log_wf es"
  shows "find (\<lambda>e. index_no e = i) es =
     (if 1 \<le> unat i \<and> unat i \<le> length es then Some (es ! (unat i - 1)) else None)"
proof -
  have idx: "unat (index_no (es ! k)) = Suc k" if "k < length es" for k using assms that by (simp add: log_wf_def)
  then have *: "index_no (es ! k) = i \<longleftrightarrow> unat i = Suc k" if "k < length es" for k
    using that by (metis word_unat_eq_iff)
  show ?thesis
  proof (cases "1 \<le> unat i \<and> unat i \<le> length es")
    case True
    then have bound: "unat i - 1 < length es" by auto
    have "index_no (es ! (unat i - 1)) = i" using True * [OF bound] by simp
    moreover have "index_no (es ! j) \<noteq> i" if "j < unat i - 1" for j
      using that bound * [of j] by auto
    ultimately have "find (\<lambda>e. index_no e = i) es = Some (es ! (unat i - 1))"
      using bound unfolding find_Some_iff by (intro exI [of _ "unat i - 1"]) simp
    with True show ?thesis by simp
  next
    case False
    have "index_no e \<noteq> i" if "e \<in> set es" for e
    proof -
      from that obtain k where "k < length es" "e = es ! k" by (auto simp: in_set_conv_nth)
      then show ?thesis using False * [of k] by auto
    qed
    then have "find (\<lambda>e. index_no e = i) es = None" by (auto simp: find_None_iff)
    with False show ?thesis by simp
  qed
qed

text \<open>Reading by index is reading the list, and each write shows in what is read after it.\<close>

lemma log_get_nth:
  assumes "log_wf es"
  shows "log_get i es =
     (if 1 \<le> unat i \<and> unat i \<le> length es then Ok (es ! (unat i - 1))
      else Err (smo_err CatInternal 100 Critical NoRetry ManualIntervention))"
  using assms by (simp add: log_get_def find_index)

lemma log_get_append:
  assumes "log_wf es" "Suc (length es) < 2 ^ 64"
  shows "log_get i (fst (log_append e es)) =
     (if unat i = Suc (length es) then Ok (e\<lparr>index_no := i\<rparr>) else log_get i es)"
proof -
  have wf: "log_wf (fst (log_append e es))" using assms by (simp add: log_wf_append)
  have "fst (log_append e es) = es @ [e\<lparr>index_no := of_nat (Suc (length es))\<rparr>]"
    using log_wf_append [OF assms, of e] by (simp add: log_append_def Let_def)
  moreover have "i = of_nat (Suc (length es))" if "unat i = Suc (length es)"
    using that by (metis unat_inverse_u64)
  ultimately show ?thesis
    using wf assms(1) by (auto simp: log_get_nth nth_append not_less_eq_eq)
qed

lemma log_get_truncate:
  assumes "log_wf es"
  shows "log_get i (log_truncate j es) =
     (if i < j then log_get i es
      else Err (smo_err CatInternal 100 Critical NoRetry ManualIntervention))"
proof -
  have "1 \<le> unat i \<Longrightarrow> unat i \<le> length (take (unat j - 1) es) \<longleftrightarrow> unat i \<le> length es \<and> i < j"
    by (auto simp: word_less_nat_alt)
  then show ?thesis
    using assms log_wf_take [OF assms, of "unat j - 1"]
    by (auto simp: log_truncate_take log_get_nth word_less_nat_alt)
qed

lemma log_range_slice:
  assumes "log_wf es"
  shows "log_range s e es = drop (unat s - 1) (take (unat e) es)"
proof -
  have idx: "\<forall>k < length es. unat (index_no (es ! k)) = Suc k" using assms by (simp add: log_wf_def)
  have idx': "\<forall>k < length (take (unat e) es). unat (index_no (take (unat e) es ! k)) = Suc k" using idx by simp
  have "log_range s e es = filter (\<lambda>x. s \<le> index_no x) (filter (\<lambda>x. unat (index_no x) \<le> unat e) es)"
    by (simp add: log_range_def word_le_nat_alt conj_commute)
  also have "\<dots> = filter (\<lambda>x. s \<le> index_no x) (take (unat e) es)" using filter_prefix [OF idx] by simp
  also have "\<dots> = drop (unat s - 1) (take (unat e) es)"
  proof -
    have "filter (\<lambda>x. s \<le> index_no x) xs = drop (unat s - 1) xs"
      if "\<forall>k < length xs. unat (index_no (xs ! k)) = Suc k" for xs
      using that
    proof (induction xs rule: rev_induct)
      case (snoc x xs)
      have "\<forall>k < length xs. unat (index_no (xs ! k)) = Suc k"
        using snoc.prems by (metis length_append_singleton less_Suc_eq nth_append)
      moreover have "unat (index_no x) = Suc (length xs)"
        using snoc.prems by (metis length_append_singleton lessI nth_append_length)
      ultimately show ?case using snoc.IH by (auto simp: word_le_nat_alt)
    qed simp
    with idx' show ?thesis by blast
  qed
  finally show ?thesis .
qed

text \<open>
  The log behaves as an array from 1: on a log with the numbering above, reading
  an index after an append gives the new entry at the new end and what was there
  before elsewhere; after a cut it gives the old entry below the cut and an error
  from it on; a range is the corresponding slice.
\<close>

lemma raft_log_array:
  assumes "log_wf es" "Suc (length es) < 2 ^ 64"
  shows "log_get i (fst (log_append e es)) =
           (if unat i = Suc (length es) then Ok (e\<lparr>index_no := i\<rparr>) else log_get i es)
         \<and> log_get i (log_truncate j es) =
           (if i < j then log_get i es
            else Err (smo_err CatInternal 100 Critical NoRetry ManualIntervention))
         \<and> log_range s t es = drop (unat s - 1) (take (unat t) es)"
  using assms by (simp add: log_get_append log_get_truncate log_range_slice)

lemma raft_log_array_example:
  "log_get 1 (fst (log_append (sample_entry 7) [])) = Ok ((sample_entry 7)\<lparr>index_no := 1\<rparr>)"
  using raft_log_array [of "[]" 1 "sample_entry 7"] by (simp add: log_wf_def)

end
