(* ===== verification/Ice.thy ===== *)
theory Ice
  imports Complex_Main Cbor_Skip Event_Scan Hex "HOL-Library.Multiset"
begin

text \<open>
  ICE candidates (core/network/ice/ice_candidate.hpp, .cpp): addresses under which a
  node may be reached, their priorities, the pairs of local and remote candidates in
  the order they are checked, the choice of a pair, and the CBOR format.  The clock,
  the interface list of the operating system, the answer of the STUN server, the
  connectivity check over a socket and std::sort are arguments.  A round-trip time is
  a finite double, that is, a rational; it is only stored and compared.
\<close>

section \<open>Candidates\<close>

record Endpoint =
  ep_scheme :: bytes
  ep_host :: bytes
  ep_port :: u16
  ep_path :: bytes

datatype CandidateType = Host | ServerReflexive | Relayed | InvalidType byte

primrec ctype_byte :: "CandidateType \<Rightarrow> byte" where
  "ctype_byte Host = 0"
| "ctype_byte ServerReflexive = 1"
| "ctype_byte Relayed = 2"
| "ctype_byte (InvalidType b) = b"

definition ctype_of :: "byte \<Rightarrow> CandidateType" where
  "ctype_of b = (if b = 0 then Host else if b = 1 then ServerReflexive else if b = 2 then Relayed else InvalidType b)"

record Candidate =
  cand_type :: CandidateType
  foundation :: bytes
  cand_ip :: bytes
  cand_port :: u16
  cand_is_ipv6 :: bool
  cand_priority :: u32
  related_addr :: bytes
  related_port :: u16
  cand_discovered_at :: i64

definition cand_new :: Candidate where
  "cand_new =
     \<lparr>cand_type = Host, foundation = [], cand_ip = [], cand_port = 0, cand_is_ipv6 = False, cand_priority = 0,
      related_addr = [], related_port = 0, cand_discovered_at = 0\<rparr>"

definition cand_eq :: "Candidate \<Rightarrow> Candidate \<Rightarrow> bool" where
  "cand_eq a b \<longleftrightarrow>
     cand_type a = cand_type b \<and> cand_ip a = cand_ip b \<and> cand_port a = cand_port b
     \<and> cand_is_ipv6 a = cand_is_ipv6 b \<and> foundation a = foundation b"

record CandidatePair =
  pair_local :: Candidate
  pair_remote :: Candidate
  pair_priority :: u64
  nominated :: bool
  rtt_ms :: rat
  checked_at :: i64

definition calculate_priority :: "CandidateType \<Rightarrow> u16 \<Rightarrow> byte \<Rightarrow> u32" where
  "calculate_priority t local_preference component_id =
     (let type_pref = (case t of Host \<Rightarrow> 126 | ServerReflexive \<Rightarrow> 110 | _ \<Rightarrow> 0)
      in push_bit 24 type_pref OR push_bit 8 (ucast local_preference AND 0xFFFF) OR (256 - ucast component_id))"

definition calculate_pair_priority :: "u32 \<Rightarrow> u32 \<Rightarrow> u64" where
  "calculate_pair_priority g d =
     push_bit 32 (ucast (min g d) :: u64) + 2 * ucast (max g d) + (if g > d then 1 else 0)"

definition hash_foundation :: "bytes \<Rightarrow> u32" where
  "hash_foundation s = foldl (\<lambda>h c. (h XOR ucast c) * 0x01000193) 0x811C9DC5 s"

definition foundation_to_string :: "u32 \<Rightarrow> bytes" where
  "foundation_to_string h = ascii (bytes_to_hex (write_be 4 h))"

section \<open>Gathering\<close>

record IceConfig =
  enable_relay :: bool
  ice_controlling :: bool
  tie_breaker :: u64

record IceAgent =
  ice_config :: IceConfig
  local_candidates :: "Candidate list"
  remote_candidates :: "Candidate list"
  nominated_pair :: "CandidatePair option"
  checks_started :: bool

definition host_candidate :: "bytes \<Rightarrow> u16 \<Rightarrow> bool \<Rightarrow> i64 \<Rightarrow> Candidate" where
  "host_candidate ip port six now =
     cand_new\<lparr>cand_type := Host, cand_ip := ip, cand_port := port, cand_is_ipv6 := six,
       foundation := foundation_to_string (hash_foundation (ascii ''host:'' @ ip @ ascii '':'' @ decimal (unat port))),
       cand_priority := calculate_priority Host 65535 1, cand_discovered_at := now\<rparr>"

text \<open>An interface address as getifaddrs and inet_ntop give it.\<close>

datatype iface_addr = Inet bytes | Inet6 bytes

definition gather_endpoint :: "i64 \<Rightarrow> Endpoint \<Rightarrow> Candidate list" where
  "gather_endpoint now ep =
     (if ep_port ep = 0 \<or> ep_host ep = [] then []
      else if ep_host ep \<in> {ascii ''0.0.0.0'', ascii ''::'', ascii ''*''} then []
      else [host_candidate (ep_host ep) (ep_port ep) (58 \<in> set (ep_host ep)) now])"

fun gather_iface :: "i64 \<Rightarrow> Candidate list \<Rightarrow> iface_addr \<Rightarrow> Candidate list" where
  "gather_iface now cs (Inet ip) =
     (if ip = ascii ''127.0.0.1'' then cs
      else if list_ex (\<lambda>c. cand_ip c = ip \<and> \<not> cand_is_ipv6 c) cs then cs
      else cs @ [host_candidate ip 0 False now])"
| "gather_iface now cs (Inet6 ip) =
     (if ip = ascii ''::1'' \<or> take 6 ip = ascii ''fe80::'' then cs
      else if list_ex (\<lambda>c. cand_ip c = ip \<and> cand_is_ipv6 c) cs then cs
      else cs @ [host_candidate ip 0 True now])"

definition gather_host_candidates :: "i64 \<Rightarrow> iface_addr list \<Rightarrow> Endpoint list \<Rightarrow> Candidate list" where
  "gather_host_candidates now ifaces eps =
     foldl (gather_iface now) (concat (map (gather_endpoint now) eps)) ifaces"

record MappedAddress =
  mapped_ip :: bytes
  mapped_port :: u16
  mapped_is_ipv6 :: bool
  mapped_discovered_at :: i64

definition mapped_empty :: "MappedAddress \<Rightarrow> bool" where
  "mapped_empty a \<longleftrightarrow> mapped_ip a = [] \<or> mapped_port a = 0"

definition srflx_candidate :: "MappedAddress \<Rightarrow> Endpoint \<Rightarrow> Candidate" where
  "srflx_candidate a ep =
     cand_new\<lparr>cand_type := ServerReflexive, cand_ip := mapped_ip a, cand_port := mapped_port a,
       cand_is_ipv6 := mapped_is_ipv6 a,
       foundation := foundation_to_string (hash_foundation
         (ascii ''srflx:'' @ mapped_ip a @ ascii '':'' @ decimal (unat (mapped_port a)))),
       cand_priority := calculate_priority ServerReflexive 65535 1,
       related_addr := ep_host ep, related_port := ep_port ep,
       cand_discovered_at := mapped_discovered_at a\<rparr>"

definition gather_srflx_candidates :: "MappedAddress result \<Rightarrow> Endpoint list \<Rightarrow> Candidate list" where
  "gather_srflx_candidates stun eps =
     (case stun of
        Err e \<Rightarrow> []
      | Ok a \<Rightarrow> if mapped_empty a then []
                else map (srflx_candidate a) (filter (\<lambda>ep. ep_port ep \<noteq> 0) eps))"

definition gather_relay_candidates :: "i64 \<Rightarrow> Endpoint \<Rightarrow> Candidate list" where
  "gather_relay_candidates now ep =
     (if ep_port ep = 0 \<or> ep_host ep = [] then []
      else [cand_new\<lparr>cand_type := Relayed, cand_ip := ep_host ep, cand_port := ep_port ep,
              cand_is_ipv6 := 58 \<in> set (ep_host ep),
              foundation := foundation_to_string (hash_foundation
                (ascii ''relay:'' @ ep_host ep @ ascii '':'' @ decimal (unat (ep_port ep)))),
              cand_priority := calculate_priority Relayed 65535 1,
              related_addr := ep_host ep, related_port := ep_port ep, cand_discovered_at := now\<rparr>])"

definition gather ::
  "i64 \<Rightarrow> iface_addr list \<Rightarrow> MappedAddress result \<Rightarrow> Endpoint list \<Rightarrow> Endpoint \<Rightarrow> IceAgent \<Rightarrow> IceAgent" where
  "gather now ifaces stun eps relay a =
     a\<lparr>local_candidates :=
         gather_host_candidates now ifaces eps @ gather_srflx_candidates stun eps
         @ (if enable_relay (ice_config a) \<and> ep_port relay \<noteq> 0 \<and> ep_host relay \<noteq> []
            then gather_relay_candidates now relay else [])\<rparr>"

section \<open>Pairs and checks\<close>

definition pair_of :: "Candidate \<Rightarrow> Candidate \<Rightarrow> CandidatePair" where
  "pair_of l r =
     \<lparr>pair_local = l, pair_remote = r,
      pair_priority = calculate_pair_priority (cand_priority l) (cand_priority r),
      nominated = False, rtt_ms = - 1, checked_at = 0\<rparr>"

definition all_pairs :: "IceAgent \<Rightarrow> CandidatePair list" where
  "all_pairs a =
     concat (map (\<lambda>l. map (pair_of l) (filter (\<lambda>r. cand_is_ipv6 l = cand_is_ipv6 r) (remote_candidates a)))
       (local_candidates a))"

definition form_pairs :: "(CandidatePair list \<Rightarrow> CandidatePair list) \<Rightarrow> IceAgent \<Rightarrow> CandidatePair list" where
  "form_pairs srt a = srt (all_pairs a)"

text \<open>The index find_if returns, the length of the list for end().\<close>

definition pair_index :: "CandidatePair \<Rightarrow> CandidatePair list \<Rightarrow> nat" where
  "pair_index p ps =
     length (takeWhile (\<lambda>q. \<not> (cand_eq (pair_local q) (pair_local p) \<and> cand_eq (pair_remote q) (pair_remote p))) ps)"

text \<open>The loop over the pairs, from index i on; n pairs are left.  The check of the i-th
  pair and the clock are given by i.  The outcome is the pair the controlling agent
  returns inside of the loop, if any, with the agent.\<close>

primrec check_loop ::
  "(nat \<Rightarrow> Candidate \<Rightarrow> Candidate \<Rightarrow> bool \<Rightarrow> rat result) \<Rightarrow> (nat \<Rightarrow> i64) \<Rightarrow> nat \<Rightarrow> nat \<Rightarrow> CandidatePair list
     \<Rightarrow> IceAgent \<Rightarrow> IceAgent \<times> CandidatePair option" where
  "check_loop chk clock 0 i ps a = (a, None)"
| "check_loop chk clock (Suc n) i ps a =
     (let p = ps ! i
      in case chk i (pair_remote p) (pair_local p) (ice_controlling (ice_config a)) of
           Err e \<Rightarrow> check_loop chk clock n (Suc i) ps a
         | Ok rtt \<Rightarrow>
             let k = pair_index p ps;
                 ps' = (if k < length ps then ps[k := (ps ! k)\<lparr>rtt_ms := rtt, checked_at := clock i\<rparr>] else ps)
             in if ice_controlling (ice_config a) then
                  (let k' = pair_index (ps' ! i) ps'
                   in if k' < length ps' then
                        (let q = (ps' ! k')\<lparr>nominated := True\<rparr> in (a\<lparr>nominated_pair := Some q\<rparr>, Some q))
                      else check_loop chk clock n (Suc i) ps' a)
                else
                  check_loop chk clock n (Suc i) ps'
                    (case nominated_pair a of
                       Some q \<Rightarrow> if rtt < rtt_ms q then a\<lparr>nominated_pair := Some ((ps' ! i)\<lparr>rtt_ms := rtt\<rparr>)\<rparr> else a
                     | None \<Rightarrow> a\<lparr>nominated_pair := Some ((ps' ! i)\<lparr>rtt_ms := rtt\<rparr>)\<rparr>))"

definition run_connectivity_checks ::
  "(CandidatePair list \<Rightarrow> CandidatePair list) \<Rightarrow> u64 \<Rightarrow> (nat \<Rightarrow> Candidate \<Rightarrow> Candidate \<Rightarrow> bool \<Rightarrow> rat result)
     \<Rightarrow> (nat \<Rightarrow> i64) \<Rightarrow> bool \<Rightarrow> IceAgent \<Rightarrow> IceAgent \<times> CandidatePair result" where
  "run_connectivity_checks srt rnd chk clock controlling a =
     (if checks_started a then (a, Err (smo_err CatDiscovery 605 SevError NoRetry RecNone))
      else
        let cfg = ice_config a;
            a1 = a\<lparr>checks_started := True,
                   ice_config := cfg\<lparr>ice_controlling := controlling,
                     tie_breaker := (if tie_breaker cfg = 0 then rnd else tie_breaker cfg)\<rparr>\<rparr>;
            ps = form_pairs srt a1
        in if ps = [] then (a1, Err (smo_err CatDiscovery 600 SevError NoRetry RecNone))
           else case check_loop chk clock (length ps) 0 ps a1 of
             (a2, Some q) \<Rightarrow> (a2, Ok q)
           | (a2, None) \<Rightarrow>
               (case nominated_pair a2 of
                  None \<Rightarrow> (a2, Err (smo_err CatDiscovery 601 SevError RetryBackoff Reconnect))
                | Some q \<Rightarrow> (a2\<lparr>nominated_pair := Some (q\<lparr>nominated := True\<rparr>)\<rparr>, Ok (q\<lparr>nominated := True\<rparr>))))"

section \<open>The check messages\<close>

definition crc_step :: "u32 \<Rightarrow> u32" where
  "crc_step crc = drop_bit 1 crc XOR (0xEDB88320 AND - (crc AND 1))"

definition crc_byte :: "u32 \<Rightarrow> byte \<Rightarrow> u32" where
  "crc_byte crc b = (crc_step ^^ 8) (crc XOR ucast b)"

definition set_length :: "bytes \<Rightarrow> bytes" where
  "set_length msg =
     (let n = of_nat (length msg - 20) :: u16
      in msg[2 := ucast (drop_bit 8 n AND 0xFF), 3 := ucast (n AND 0xFF)])"

definition build_check_request :: "bytes \<Rightarrow> bool \<Rightarrow> bytes" where
  "build_check_request tid use_candidate =
     (let msg = set_length ([0x00, 0x01, 0, 0, 0x21, 0x12, 0xA4, 0x42] @ tid @ [0x00, 0x25, 0, 0]);
          crc = foldl crc_byte 0xFFFFFFFF msg XOR 0xFFFFFFFF XOR 0x5354554E
      in set_length (msg @ [0x80, 0x28, 0, 4] @ write_be 4 crc))"

definition parse_check_response :: "bytes \<Rightarrow> bytes \<Rightarrow> bool" where
  "parse_check_response data tid \<longleftrightarrow>
     20 \<le> length data
     \<and> (take 2 data = [0x01, 0x01] \<or> take 2 data = [0x01, 0x11])
     \<and> take 4 (drop 4 data) = [0x21, 0x12, 0xA4, 0x42]
     \<and> take 12 (drop 8 data) = tid"

section \<open>The CBOR format\<close>

definition encode_candidate :: "Candidate \<Rightarrow> bytes" where
  "encode_candidate c =
     encode_map (6 + (if related_addr c \<noteq> [] then 1 else 0) + (if related_port c \<noteq> 0 then 1 else 0)
       + (if cand_discovered_at c \<noteq> 0 then 1 else 0))
     @ encode_uint 1 @ encode_uint (ucast (ctype_byte (cand_type c)))
     @ encode_uint 2 @ encode_string (foundation c)
     @ encode_uint 3 @ encode_string (cand_ip c)
     @ encode_uint 4 @ encode_uint (ucast (cand_port c))
     @ encode_uint 5 @ encode_uint (if cand_is_ipv6 c then 1 else 0)
     @ encode_uint 6 @ encode_uint (ucast (cand_priority c))
     @ (if related_addr c \<noteq> [] then encode_uint 7 @ encode_string (related_addr c) else [])
     @ (if related_port c \<noteq> 0 then encode_uint 8 @ encode_uint (ucast (related_port c)) else [])
     @ (if cand_discovered_at c \<noteq> 0 then encode_uint 9 @ encode_uint (cand_discovered_at c) else [])"

definition encode_candidates_cbor :: "Candidate list \<Rightarrow> bytes" where
  "encode_candidates_cbor cs = encode_array (length cs) @ concat (map encode_candidate cs)"

definition decode_candidate_field :: "nat \<Rightarrow> u64 \<Rightarrow> Candidate \<Rightarrow> Decoder \<Rightarrow> Candidate dres \<times> Decoder" where
  "decode_candidate_field f key c d =
     (if key = 1 then dbind (decode_uint d) (\<lambda>v d. (Got (c\<lparr>cand_type := ctype_of (ucast v)\<rparr>), d))
      else if key = 2 then dbind (decode_string d) (\<lambda>v d. (Got (c\<lparr>foundation := v\<rparr>), d))
      else if key = 3 then dbind (decode_string d) (\<lambda>v d. (Got (c\<lparr>cand_ip := v\<rparr>), d))
      else if key = 4 then dbind (decode_uint d) (\<lambda>v d. (Got (c\<lparr>cand_port := ucast v\<rparr>), d))
      else if key = 5 then dbind (decode_uint d) (\<lambda>v d. (Got (c\<lparr>cand_is_ipv6 := (v \<noteq> 0)\<rparr>), d))
      else if key = 6 then dbind (decode_uint d) (\<lambda>v d. (Got (c\<lparr>cand_priority := ucast v\<rparr>), d))
      else if key = 7 then dbind (decode_string d) (\<lambda>v d. (Got (c\<lparr>related_addr := v\<rparr>), d))
      else if key = 8 then dbind (decode_uint d) (\<lambda>v d. (Got (c\<lparr>related_port := ucast v\<rparr>), d))
      else if key = 9 then dbind (decode_uint d) (\<lambda>v d. (Got (c\<lparr>cand_discovered_at := v\<rparr>), d))
      else dbind (skip_value f d) (\<lambda>_ d. (Got c, d)))"

primrec decode_candidate_fields :: "nat \<Rightarrow> nat \<Rightarrow> Candidate \<Rightarrow> Decoder \<Rightarrow> Candidate dres \<times> Decoder" where
  "decode_candidate_fields f 0 c d = (Got c, d)"
| "decode_candidate_fields f (Suc n) c d =
     dbind (decode_uint d) (\<lambda>key d.
       dbind (decode_candidate_field f key c d) (decode_candidate_fields f n))"

primrec decode_candidate_list :: "nat \<Rightarrow> nat \<Rightarrow> Decoder \<Rightarrow> Candidate list dres \<times> Decoder" where
  "decode_candidate_list f 0 d = (Got [], d)"
| "decode_candidate_list f (Suc n) d =
     dbind (decode_map_size d) (\<lambda>m d.
       dbind (decode_candidate_fields f (unat m) cand_new d) (\<lambda>c d.
         dbind (decode_candidate_list f n d) (\<lambda>cs d. (Got (c # cs), d))))"

definition decode_candidates_cbor :: "nat \<Rightarrow> bytes \<Rightarrow> Candidate list dres" where
  "decode_candidates_cbor f data =
     fst (dbind (decode_array_size (decoder data)) (\<lambda>n. decode_candidate_list f (unat n)))"

section \<open>Candidates are read back\<close>

text \<open>A field of a candidate: its key, its encoded value and what reading it does.\<close>

definition field_reads :: "u64 \<Rightarrow> bytes \<Rightarrow> (Candidate \<Rightarrow> Candidate) \<Rightarrow> bool" where
  "field_reads key bs upd \<longleftrightarrow>
     (\<forall>f c d r. dec_ok d \<longrightarrow> current_view d = bs @ r \<longrightarrow>
        (\<exists>d'. decode_candidate_field f key c d = (Got (upd c), d') \<and> moved d r d'))"

lemma field_readsE:
  assumes "field_reads key bs upd" "dec_ok d" "current_view d = bs @ r"
  obtains d' where "decode_candidate_field f key c d = (Got (upd c), d')" "moved d r d'"
  using assms unfolding field_reads_def by blast

lemma field_reads_uint:
  assumes "\<And>f c d. decode_candidate_field f key c d = dbind (decode_uint d) (\<lambda>v d. (Got (upd v c), d))"
  shows "field_reads key (encode_uint v) (upd v)"
  unfolding field_reads_def
proof (intro allI impI)
  fix f c d r assume "dec_ok d" "current_view d = encode_uint v @ r"
  then obtain d' where "decode_uint d = (Got v, d')" "moved d r d'" by (rule decode_uint_at)
  then show "\<exists>d'. decode_candidate_field f key c d = (Got (upd v c), d') \<and> moved d r d'" by (simp add: assms)
qed

lemma field_reads_string:
  assumes "\<And>f c d. decode_candidate_field f key c d = dbind (decode_string d) (\<lambda>v d. (Got (upd v c), d))"
  shows "field_reads key (encode_string v) (upd v)"
  unfolding field_reads_def
proof (intro allI impI)
  fix f c d r assume "dec_ok d" "current_view d = encode_string v @ r"
  then obtain d' where "decode_string d = (Got v, d')" "moved d r d'" by (rule decode_string_at)
  then show "\<exists>d'. decode_candidate_field f key c d = (Got (upd v c), d') \<and> moved d r d'" by (simp add: assms)
qed

definition candidate_fields :: "Candidate \<Rightarrow> (u64 \<times> bytes \<times> (Candidate \<Rightarrow> Candidate)) list" where
  "candidate_fields c =
     [(1, encode_uint (ucast (ctype_byte (cand_type c))), \<lambda>x. x\<lparr>cand_type := ctype_of (ucast (ucast (ctype_byte (cand_type c)) :: u64))\<rparr>),
      (2, encode_string (foundation c), \<lambda>x. x\<lparr>foundation := foundation c\<rparr>),
      (3, encode_string (cand_ip c), \<lambda>x. x\<lparr>cand_ip := cand_ip c\<rparr>),
      (4, encode_uint (ucast (cand_port c)), \<lambda>x. x\<lparr>cand_port := ucast (ucast (cand_port c) :: u64)\<rparr>),
      (5, encode_uint (if cand_is_ipv6 c then 1 else 0), \<lambda>x. x\<lparr>cand_is_ipv6 := ((if cand_is_ipv6 c then 1 else 0 :: u64) \<noteq> 0)\<rparr>),
      (6, encode_uint (ucast (cand_priority c)), \<lambda>x. x\<lparr>cand_priority := ucast (ucast (cand_priority c) :: u64)\<rparr>)]
     @ (if related_addr c \<noteq> [] then [(7, encode_string (related_addr c), \<lambda>x. x\<lparr>related_addr := related_addr c\<rparr>)] else [])
     @ (if related_port c \<noteq> 0
        then [(8, encode_uint (ucast (related_port c)), \<lambda>x. x\<lparr>related_port := ucast (ucast (related_port c) :: u64)\<rparr>)] else [])
     @ (if cand_discovered_at c \<noteq> 0
        then [(9, encode_uint (cand_discovered_at c), \<lambda>x. x\<lparr>cand_discovered_at := cand_discovered_at c\<rparr>)] else [])"

lemma candidate_fields_read: "\<forall>(k, b, u) \<in> set (candidate_fields c). field_reads k b u"
proof -
  have "field_reads 1 (encode_uint v) (\<lambda>x. x\<lparr>cand_type := ctype_of (ucast v)\<rparr>)" for v
    by (rule field_reads_uint) (simp add: decode_candidate_field_def)
  moreover have "field_reads 2 (encode_string s) (\<lambda>x. x\<lparr>foundation := s\<rparr>)" for s
    by (rule field_reads_string) (simp add: decode_candidate_field_def)
  moreover have "field_reads 3 (encode_string s) (\<lambda>x. x\<lparr>cand_ip := s\<rparr>)" for s
    by (rule field_reads_string) (simp add: decode_candidate_field_def)
  moreover have "field_reads 4 (encode_uint v) (\<lambda>x. x\<lparr>cand_port := ucast v\<rparr>)" for v
    by (rule field_reads_uint) (simp add: decode_candidate_field_def)
  moreover have "field_reads 5 (encode_uint v) (\<lambda>x. x\<lparr>cand_is_ipv6 := (v \<noteq> 0)\<rparr>)" for v
    by (rule field_reads_uint) (simp add: decode_candidate_field_def)
  moreover have "field_reads 6 (encode_uint v) (\<lambda>x. x\<lparr>cand_priority := ucast v\<rparr>)" for v
    by (rule field_reads_uint) (simp add: decode_candidate_field_def)
  moreover have "field_reads 7 (encode_string s) (\<lambda>x. x\<lparr>related_addr := s\<rparr>)" for s
    by (rule field_reads_string) (simp add: decode_candidate_field_def)
  moreover have "field_reads 8 (encode_uint v) (\<lambda>x. x\<lparr>related_port := ucast v\<rparr>)" for v
    by (rule field_reads_uint) (simp add: decode_candidate_field_def)
  moreover have "field_reads 9 (encode_uint v) (\<lambda>x. x\<lparr>cand_discovered_at := v\<rparr>)" for v
    by (rule field_reads_uint) (simp add: decode_candidate_field_def)
  ultimately show ?thesis by (auto simp: candidate_fields_def simp del: if_split)
qed

lemma decode_fields_at:
  assumes "\<forall>(k, b, u) \<in> set fs. field_reads k b u" "dec_ok d"
    and "current_view d = concat (map (\<lambda>(k, b, u). encode_uint k @ b) fs) @ r"
  shows "\<exists>d'. decode_candidate_fields f (length fs) c d = (Got (fold (\<lambda>(k, b, u). u) fs c), d') \<and> moved d r d'"
  using assms
proof (induction fs arbitrary: c d)
  case Nil
  then show ?case by (simp add: moved_def)
next
  case (Cons e fs)
  obtain k b u where e: "e = (k, b, u)" by (cases e)
  let ?r = "concat (map (\<lambda>(k, b, u). encode_uint k @ b) fs) @ r"
  have fr: "field_reads k b u" using Cons.prems(1) e by simp
  have "current_view d = encode_uint k @ b @ ?r" using Cons.prems(3) e by simp
  with Cons.prems(2) obtain d1 where d1: "decode_uint d = (Got k, d1)" "moved d (b @ ?r) d1" by (rule decode_uint_at)
  obtain d2 where d2: "decode_candidate_field f k c d1 = (Got (u c), d2)" "moved d1 ?r d2"
    using fr moved_ok [OF d1(2)] moved_view [OF d1(2)] by (rule field_readsE)
  obtain d3 where "decode_candidate_fields f (length fs) (u c) d2 = (Got (fold (\<lambda>(k, b, u). u) fs (u c)), d3)" "moved d2 r d3"
    using Cons.IH [OF _ moved_ok [OF d2(2)] moved_view [OF d2(2)], of "u c"] Cons.prems(1) by auto
  moreover from this have "moved d r d3" using d1(2) d2(2) moved_trans by blast
  ultimately show ?case using d1(1) d2(1) e by simp
qed

definition cand_storable :: "Candidate \<Rightarrow> bool" where
  "cand_storable c \<longleftrightarrow> ctype_of (ctype_byte (cand_type c)) = cand_type c"

lemma ucast_back [simp]:
  "(ucast (ucast (b :: byte) :: u64) :: byte) = b"
  "(ucast (ucast (h :: u16) :: u64) :: u16) = h"
  "(ucast (ucast (w :: u32) :: u64) :: u32) = w"
  by (rule bit_word_eqI; simp add: bit_simps)+

lemma candidate_fields_fold:
  "cand_storable c \<Longrightarrow> fold (\<lambda>(k, b, u). u) (candidate_fields c) cand_new = c"
  by (cases c) (simp add: candidate_fields_def cand_storable_def cand_new_def)

lemma encode_candidate_fields:
  "encode_candidate c =
     encode_map (length (candidate_fields c)) @ concat (map (\<lambda>(k, b, u). encode_uint k @ b) (candidate_fields c))"
  by (simp add: encode_candidate_def candidate_fields_def numeral_eq_Suc)

lemma decode_candidate_list_at:
  assumes "\<forall>c \<in> set cs. cand_storable c" "dec_ok d"
    and "current_view d = concat (map encode_candidate cs) @ r"
  shows "\<exists>d'. decode_candidate_list f (length cs) d = (Got cs, d') \<and> moved d r d'"
  using assms
proof (induction cs arbitrary: d)
  case Nil
  then show ?case by (simp add: moved_def)
next
  case (Cons c cs)
  let ?fs = "concat (map (\<lambda>(k, b, u). encode_uint k @ b) (candidate_fields c))"
  let ?r = "concat (map encode_candidate cs) @ r"
  have "current_view d = encode_map (length (candidate_fields c)) @ ?fs @ ?r"
    using Cons.prems(3) by (simp add: encode_candidate_fields [of c])
  with Cons.prems(2) obtain d1 where d1: "decode_map_size d = (Got (word_of_nat (length (candidate_fields c))), d1)"
      "moved d (?fs @ ?r) d1"
    by (rule decode_map_size_at)
  have n: "unat (word_of_nat (length (candidate_fields c)) :: u64) = length (candidate_fields c)"
    by (rule unat_u64) (simp add: candidate_fields_def)
  obtain d2 where d2: "decode_candidate_fields f (length (candidate_fields c)) cand_new d1 = (Got c, d2)" "moved d1 ?r d2"
    using decode_fields_at [OF candidate_fields_read moved_ok [OF d1(2)] moved_view [OF d1(2)], of f cand_new]
      candidate_fields_fold [of c] Cons.prems(1) by auto
  obtain d3 where "decode_candidate_list f (length cs) d2 = (Got cs, d3)" "moved d2 r d3"
    using Cons.IH [OF _ moved_ok [OF d2(2)] moved_view [OF d2(2)]] Cons.prems(1) by auto
  moreover from this have "moved d r d3" using d1(2) d2(2) moved_trans by blast
  ultimately show ?case using d1(1) d2(1) n by simp
qed

lemma ice_candidates_decode:
  assumes "\<forall>c \<in> set cs. cand_storable c" "length (encode_candidates_cbor cs) < 2 ^ 63" "length cs < 2 ^ 64"
  shows "decode_candidates_cbor f (encode_candidates_cbor cs) = Got cs"
proof -
  let ?d = "decoder (encode_candidates_cbor cs)"
  have ok: "dec_ok ?d" and view: "current_view ?d = encode_array (length cs) @ concat (map encode_candidate cs)"
    using assms(2) by (simp_all add: dec_ok_def decoder_def current_view_def encode_candidates_cbor_def)
  obtain d1 where d1: "decode_array_size ?d = (Got (word_of_nat (length cs)), d1)"
      "moved ?d (concat (map encode_candidate cs)) d1"
    using ok view by (rule decode_array_size_at)
  have "\<exists>d'. decode_candidate_list f (length cs) d1 = (Got cs, d') \<and> moved d1 [] d'"
    using assms(1) moved_ok [OF d1(2)] moved_view [OF d1(2)] by (intro decode_candidate_list_at) simp_all
  then show ?thesis using d1(1) assms(3) by (auto simp: decode_candidates_cbor_def unat_u64)
qed

text \<open>An unknown key is skipped, so that the input on which skip recurses without end makes
  the decoder of candidates do so.\<close>

definition endless_candidates :: bytes where
  "endless_candidates = encode_array 1 @ encode_map 1 @ encode_uint 10 @ endless"

lemma decode_candidates_endless: "decode_candidates_cbor f endless_candidates = OutOfFuel"
proof -
  let ?d = "decoder endless_candidates"
  have len: "length endless_candidates < 2 ^ 63"
    by (simp add: endless_candidates_def endless_bytes encode_array_def encode_map_def encode_uint_def encode_head_def)
  then have ok: "dec_ok ?d" and view: "current_view ?d = encode_array 1 @ encode_map 1 @ encode_uint 10 @ endless"
    by (simp_all add: dec_ok_def decoder_def current_view_def endless_candidates_def)
  obtain d1 where d1: "decode_array_size ?d = (Got (word_of_nat 1), d1)" "moved ?d (encode_map 1 @ encode_uint 10 @ endless) d1"
    using ok view by (rule decode_array_size_at)
  obtain d2 where d2: "decode_map_size d1 = (Got (word_of_nat 1), d2)" "moved d1 (encode_uint 10 @ endless) d2"
    using moved_ok [OF d1(2)] moved_view [OF d1(2)] by (rule decode_map_size_at)
  obtain d3 where d3: "decode_uint d2 = (Got 10, d3)" "moved d2 endless d3"
    using moved_ok [OF d2(2)] moved_view [OF d2(2)] by (rule decode_uint_at)
  have "fst (skip_value f d3) = OutOfFuel"
    using skip_endless [OF moved_ok [OF d3(2)], of "[]"] moved_view [OF d3(2)] by simp
  then show ?thesis
    using d1(1) d2(1) d3(1)
    by (simp add: decode_candidates_cbor_def decode_candidate_field_def dbind_fuel)
qed

section \<open>The order of the pairs\<close>

lemma calculate_pair_priority_nat:
  assumes "unat g < 2 ^ 31" "unat d < 2 ^ 31"
  shows "unat (calculate_pair_priority g d) =
     2 ^ 32 * unat (min g d) + 2 * unat (max g d) + (if g > d then 1 else 0)"
proof -
  have b: "unat (min g d) < 2 ^ 31" "unat (max g d) < 2 ^ 31" using assms by (simp_all add: min_def max_def)
  have u: "unat (ucast (min g d) :: u64) = unat (min g d)" "unat (ucast (max g d) :: u64) = unat (max g d)"
    using b by (simp_all add: unsigned_ucast_eq take_bit_nat_eq_self)
  have "unat (push_bit 32 (ucast (min g d) :: u64)) = 2 ^ 32 * unat (min g d)"
    using b by (simp add: push_bit_eq_mult unat_word_ariths u)
  moreover have "unat (2 * ucast (max g d) :: u64) = 2 * unat (max g d)"
    using b by (simp add: unat_word_ariths u)
  ultimately show ?thesis
    using b unfolding calculate_pair_priority_def by (simp add: unat_word_ariths u)
qed

text \<open>
  Pair priorities order pairs as intended: for candidate priorities below 2^31,
  the range of the standard, the 64-bit pair priority compares lexicographically
  by the smaller priority, then the larger one, then by which side has it.
\<close>

lemma pair_priority_lexicographic:
  assumes "unat g < 2 ^ 31" "unat d < 2 ^ 31" "unat g' < 2 ^ 31" "unat d' < 2 ^ 31"
  shows "calculate_pair_priority g d < calculate_pair_priority g' d' \<longleftrightarrow>
     min g d < min g' d' \<or>
     min g d = min g' d' \<and> (max g d < max g' d' \<or> max g d = max g' d' \<and> \<not> d < g \<and> d' < g')"
proof -
  have key: "(2 ^ 32 * a + x < 2 ^ 32 * b + y) \<longleftrightarrow> a < b \<or> a = b \<and> x < y"
    if "x < 2 ^ 32" "y < 2 ^ 32" for a b x y :: nat
  proof (cases a b rule: linorder_cases)
    case less
    then have "2 ^ 32 * (a + 1) \<le> 2 ^ 32 * b" by simp
    then show ?thesis using less that by simp
  next
    case greater
    then have "2 ^ 32 * (b + 1) \<le> 2 ^ 32 * a" by simp
    then show ?thesis using greater that by simp
  qed simp
  have b: "unat (max g d) < 2 ^ 31" "unat (max g' d') < 2 ^ 31" using assms by (simp_all add: max_def)
  have "calculate_pair_priority g d < calculate_pair_priority g' d' \<longleftrightarrow>
      unat (min g d) < unat (min g' d') \<or> unat (min g d) = unat (min g' d') \<and>
        2 * unat (max g d) + (if d < g then 1 else 0) < 2 * unat (max g' d') + (if d' < g' then 1 else 0)"
    unfolding word_less_nat_alt [of "calculate_pair_priority g d"] calculate_pair_priority_nat [OF assms(1,2)]
      calculate_pair_priority_nat [OF assms(3,4)] add.assoc
    by (rule key) (use b in auto)
  also have "2 * unat (max g d) + (if d < g then 1 else 0) < 2 * unat (max g' d') + (if d' < g' then 1 else 0) \<longleftrightarrow>
      unat (max g d) < unat (max g' d') \<or> unat (max g d) = unat (max g' d') \<and> \<not> d < g \<and> d' < g'"
    by auto
  finally show ?thesis
    unfolding word_less_nat_alt [of "min g d"] word_less_nat_alt [of "max g d"]
      word_unat_eq_iff [of "min g d"] word_unat_eq_iff [of "max g d"] .
qed

lemma pair_priority_lexicographic_example:
  "calculate_pair_priority 0x7EFFFFFF 0x6EFFFFFF < calculate_pair_priority 0x7EFFFFFF 0x7EFFFFFF"
  using pair_priority_lexicographic [of "0x7EFFFFFF" "0x6EFFFFFF" "0x7EFFFFFF" "0x7EFFFFFF"] by simp

text \<open>A remote node may announce any priority: from 2^31 on the larger priority of a pair
  spills into the place of the smaller one.\<close>

lemma pair_priority_spills: "calculate_pair_priority 1 0xFFFFFFFF > calculate_pair_priority 2 2"
  by code_simp

section \<open>Nomination\<close>

lemma pair_index_map:
  "pair_index p ps = length (takeWhile (\<lambda>(l, r). \<not> (cand_eq l (pair_local p) \<and> cand_eq r (pair_remote p)))
     (map (\<lambda>q. (pair_local q, pair_remote q)) ps))"
  by (simp add: pair_index_def takeWhile_map comp_def)

lemma pair_index_member:
  assumes "p \<in> set ps"
  shows "pair_index p ps < length ps"
    and "cand_eq (pair_local (ps ! pair_index p ps)) (pair_local p)"
    and "cand_eq (pair_remote (ps ! pair_index p ps)) (pair_remote p)"
proof -
  let ?P = "\<lambda>q. \<not> (cand_eq (pair_local q) (pair_local p) \<and> cand_eq (pair_remote q) (pair_remote p))"
  have "\<not> ?P p" by (simp add: cand_eq_def)
  then have "takeWhile ?P ps \<noteq> ps" using assms by (metis takeWhile_eq_all_conv)
  then show lt: "pair_index p ps < length ps"
    unfolding pair_index_def by (metis length_takeWhile_le le_neq_implies_less takeWhile_eq_take take_all_iff order_refl)
  from nth_length_takeWhile [OF lt [unfolded pair_index_def]]
  show "cand_eq (pair_local (ps ! pair_index p ps)) (pair_local p)"
    "cand_eq (pair_remote (ps ! pair_index p ps)) (pair_remote p)"
    by (simp_all add: pair_index_def)
qed

lemma check_loop_fails:
  assumes "\<forall>k. i \<le> k \<and> k < i + n \<longrightarrow>
      \<not> is_ok (chk k (pair_remote (ps ! k)) (pair_local (ps ! k)) (ice_controlling (ice_config a)))"
  shows "check_loop chk clock n i ps a = (a, None)"
  using assms
proof (induction n arbitrary: i)
  case (Suc n)
  then have "\<not> is_ok (chk i (pair_remote (ps ! i)) (pair_local (ps ! i)) (ice_controlling (ice_config a)))" by simp
  then obtain e where "chk i (pair_remote (ps ! i)) (pair_local (ps ! i)) (ice_controlling (ice_config a)) = Err e"
    by (metis is_ok.simps(1) result.exhaust)
  with Suc show ?case by (simp add: Let_def)
qed simp

lemma check_loop_first:
  assumes "ice_controlling (ice_config a)" "i \<le> j" "j < i + n" "i + n = length ps"
    and "\<forall>k. i \<le> k \<and> k < j \<longrightarrow> \<not> is_ok (chk k (pair_remote (ps ! k)) (pair_local (ps ! k)) True)"
    and "chk j (pair_remote (ps ! j)) (pair_local (ps ! j)) True = Ok rtt"
  shows "\<exists>q. check_loop chk clock n i ps a = (a\<lparr>nominated_pair := Some q\<rparr>, Some q)
     \<and> nominated q \<and> rtt_ms q = rtt
     \<and> cand_eq (pair_local q) (pair_local (ps ! j)) \<and> cand_eq (pair_remote q) (pair_remote (ps ! j))"
  using assms
proof (induction n arbitrary: i)
  case (Suc n)
  show ?case
  proof (cases "i = j")
    case False
    then have "\<not> is_ok (chk i (pair_remote (ps ! i)) (pair_local (ps ! i)) True)" using Suc.prems by simp
    then obtain e where "chk i (pair_remote (ps ! i)) (pair_local (ps ! i)) True = Err e"
      by (metis is_ok.simps(1) result.exhaust)
    with Suc False show ?thesis by (simp add: Let_def)
  next
    case True
    let ?k = "pair_index (ps ! j) ps"
    define ps' where "ps' = ps[?k := (ps ! ?k)\<lparr>rtt_ms := rtt, checked_at := clock j\<rparr>]"
    have mem: "ps ! j \<in> set ps" using Suc.prems by simp
    note k = pair_index_member [OF mem]
    have maps: "map (\<lambda>q. (pair_local q, pair_remote q)) ps' = map (\<lambda>q. (pair_local q, pair_remote q)) ps"
      unfolding ps'_def map_update using k(1) by (simp add: list_update_same_conv)
    have j': "pair_local (ps' ! j) = pair_local (ps ! j)" "pair_remote (ps' ! j) = pair_remote (ps ! j)"
      using k(1) Suc.prems by (simp_all add: ps'_def nth_list_update)
    have k': "pair_index (ps' ! j) ps' = ?k" by (simp add: pair_index_map maps j')
    have "check_loop chk clock (Suc n) i ps a =
        (a\<lparr>nominated_pair := Some ((ps' ! ?k)\<lparr>nominated := True\<rparr>)\<rparr>, Some ((ps' ! ?k)\<lparr>nominated := True\<rparr>))"
      using Suc.prems True k(1) k' by (simp add: Let_def ps'_def [symmetric]) (simp add: ps'_def)
    moreover have "ps' ! ?k = (ps ! ?k)\<lparr>rtt_ms := rtt, checked_at := clock j\<rparr>" using k(1) by (simp add: ps'_def)
    ultimately show ?thesis using k(2,3) by auto
  qed
qed simp

lemma form_pairs_empty:
  "all_pairs a = [] \<longleftrightarrow>
     \<not> (\<exists>l \<in> set (local_candidates a). \<exists>r \<in> set (remote_candidates a). cand_is_ipv6 l = cand_is_ipv6 r)"
  by (auto simp: all_pairs_def filter_empty_conv)

text \<open>
  C34. The controlling agent nominates the best pair that answers: on a first run,
  with any implementation of the sort, it returns a pair with the candidates of the
  first pair in the order of descending priority whose check succeeds, with the
  measured time; it reports error 601 when no check succeeds, and error 600 when no
  local and remote candidate are of one address family.
\<close>

theorem ice_nominates_first_success:
  assumes srt: "\<And>xs. mset (srt xs) = mset xs"
      "\<And>xs. sorted_wrt (\<lambda>p q. pair_priority q \<le> pair_priority p) (srt xs)"
    and a: "\<not> checks_started a" "nominated_pair a = None"
    and ps: "ps = form_pairs srt a"
    and ok: "ok = (\<lambda>i. is_ok (chk i (pair_remote (ps ! i)) (pair_local (ps ! i)) True))"
  shows "case snd (run_connectivity_checks srt rnd chk clock True a) of
     Ok q \<Rightarrow> nominated q \<and> (\<exists>j < length ps. ok j \<and> (\<forall>k < j. \<not> ok k \<and> pair_priority (ps ! j) \<le> pair_priority (ps ! k))
        \<and> chk j (pair_remote (ps ! j)) (pair_local (ps ! j)) True = Ok (rtt_ms q)
        \<and> cand_eq (pair_local q) (pair_local (ps ! j)) \<and> cand_eq (pair_remote q) (pair_remote (ps ! j)))
   | Err e \<Rightarrow> (\<forall>i < length ps. \<not> ok i) \<and>
       e = (if \<exists>l \<in> set (local_candidates a). \<exists>r \<in> set (remote_candidates a). cand_is_ipv6 l = cand_is_ipv6 r
            then smo_err CatDiscovery 601 SevError RetryBackoff Reconnect
            else smo_err CatDiscovery 600 SevError NoRetry RecNone)"
proof -
  define a1 where "a1 = a\<lparr>checks_started := True, ice_config := (ice_config a)\<lparr>ice_controlling := True,
      tie_breaker := (if tie_breaker (ice_config a) = 0 then rnd else tie_breaker (ice_config a))\<rparr>\<rparr>"
  have ps1: "form_pairs srt a1 = ps" and ctl: "ice_controlling (ice_config a1)" and none: "nominated_pair a1 = None"
    by (simp_all add: ps form_pairs_def all_pairs_def a1_def a)
  have run: "run_connectivity_checks srt rnd chk clock True a =
      (if ps = [] then (a1, Err (smo_err CatDiscovery 600 SevError NoRetry RecNone))
       else case check_loop chk clock (length ps) 0 ps a1 of
         (a2, Some q) \<Rightarrow> (a2, Ok q)
       | (a2, None) \<Rightarrow>
           (case nominated_pair a2 of
              None \<Rightarrow> (a2, Err (smo_err CatDiscovery 601 SevError RetryBackoff Reconnect))
            | Some q \<Rightarrow> (a2\<lparr>nominated_pair := Some (q\<lparr>nominated := True\<rparr>)\<rparr>, Ok (q\<lparr>nominated := True\<rparr>))))"
    using a(1) by (simp add: run_connectivity_checks_def Let_def ps1 a1_def [symmetric])
  have empty: "ps = [] \<longleftrightarrow> \<not> (\<exists>l \<in> set (local_candidates a). \<exists>r \<in> set (remote_candidates a). cand_is_ipv6 l = cand_is_ipv6 r)"
    unfolding ps form_pairs_def using mset_eq_length [OF srt(1) [of "all_pairs a"]] form_pairs_empty [of a]
    by (metis length_0_conv)
  show ?thesis
  proof (cases "\<exists>j < length ps. ok j")
    case True
    define j where "j = (LEAST j. ok j)"
    have j: "j < length ps" "ok j" "\<forall>k < j. \<not> ok k"
      using True unfolding j_def by (auto intro: LeastI dest: not_less_Least Least_le)
    then obtain rtt where rtt: "chk j (pair_remote (ps ! j)) (pair_local (ps ! j)) True = Ok rtt"
      by (auto simp: ok is_ok_iff)
    obtain q where q: "check_loop chk clock (length ps) 0 ps a1 = (a1\<lparr>nominated_pair := Some q\<rparr>, Some q)"
        "nominated q" "rtt_ms q = rtt" "cand_eq (pair_local q) (pair_local (ps ! j))" "cand_eq (pair_remote q) (pair_remote (ps ! j))"
      using check_loop_first [OF ctl, of 0 j "length ps" ps chk rtt clock] j rtt by (auto simp: ok)
    have "pair_priority (ps ! j) \<le> pair_priority (ps ! k)" if "k < j" for k
      using srt(2) [of "all_pairs a"] that j(1) unfolding ps form_pairs_def by (auto simp: sorted_wrt_iff_nth_less)
    then have "\<exists>j < length ps. ok j \<and> (\<forall>k < j. \<not> ok k \<and> pair_priority (ps ! j) \<le> pair_priority (ps ! k))
        \<and> chk j (pair_remote (ps ! j)) (pair_local (ps ! j)) True = Ok (rtt_ms q)
        \<and> cand_eq (pair_local q) (pair_local (ps ! j)) \<and> cand_eq (pair_remote q) (pair_remote (ps ! j))"
      using j rtt q(3-5) by (intro exI [of _ j]) simp
    moreover have "snd (run_connectivity_checks srt rnd chk clock True a) = Ok q"
      using j(1) q(1) unfolding run by (cases "ps = []") auto
    ultimately show ?thesis using q(2) by simp
  next
    case False
    then have "check_loop chk clock (length ps) 0 ps a1 = (a1, None)"
      using ctl by (intro check_loop_fails) (auto simp: ok)
    then have "snd (run_connectivity_checks srt rnd chk clock True a) = Err (if ps = []
        then smo_err CatDiscovery 600 SevError NoRetry RecNone else smo_err CatDiscovery 601 SevError RetryBackoff Reconnect)"
      unfolding run by (simp add: none)
    with False empty show ?thesis by (cases "ps = []") simp_all
  qed
qed

definition sample_candidate :: "byte \<Rightarrow> Candidate" where
  "sample_candidate b = cand_new\<lparr>cand_ip := [b], cand_port := 1, cand_priority := calculate_priority Host 65535 1\<rparr>"

definition sample_agent :: IceAgent where
  "sample_agent =
     \<lparr>ice_config = \<lparr>enable_relay = True, ice_controlling = True, tie_breaker = 1\<rparr>,
      local_candidates = [sample_candidate 1], remote_candidates = [sample_candidate 2],
      nominated_pair = None, checks_started = False\<rparr>"

theorem ice_nominates_first_success_witness:
  "\<exists>q. snd (run_connectivity_checks (sort_key (\<lambda>p. - uint (pair_priority p))) 0 (\<lambda>i r l u. Ok 5) (\<lambda>i. 0) True sample_agent) = Ok q
     \<and> rtt_ms q = 5"
proof -
  let ?srt = "sort_key (\<lambda>p. - uint (pair_priority p))"
  have srt: "mset (?srt xs) = mset xs" "sorted_wrt (\<lambda>p q. pair_priority q \<le> pair_priority p) (?srt xs)" for xs :: "CandidatePair list"
    using sorted_sort_key [of "\<lambda>p. - uint (pair_priority p)" xs]
    by (simp_all add: sorted_map word_le_def)
  have ps: "form_pairs ?srt sample_agent = [pair_of (sample_candidate 1) (sample_candidate 2)]"
    by (simp add: form_pairs_def all_pairs_def sample_agent_def sample_candidate_def cand_new_def)
  have "\<not> checks_started sample_agent" "nominated_pair sample_agent = None" by (simp_all add: sample_agent_def)
  from ice_nominates_first_success [OF srt this refl refl, of "\<lambda>i r l u. Ok 5" 0 "\<lambda>i. 0"]
  show ?thesis by (auto simp: ps split: result.splits)
qed

end
