(* ===== verification/Float64.thy ===== *)
theory Float64
  imports Smo_Prelude Complex_Main "HOL-Library.Log_Nat"
begin

text \<open>
  The C++ double as its 64-bit pattern: the order the comparison operators give,
  the number a finite pattern stands for, and the sum, difference, product and
  quotient rounded to the nearest even pattern, the arithmetic the trust scores
  are computed with.  A result that is not a number is the pattern
  \<open>f64_nan\<close>: the language does not fix its payload, and no definition of the
  development looks at it.

  A magnitude (a pattern without its sign bit) is a natural number, and the
  magnitudes are in the order of the numbers they stand for, so a comparison is
  one of integers.  The facts at the end are what the components use: rounding
  keeps the order against representable numbers, hence is exact on them.
\<close>

type_synonym f64 = u64

section \<open>Patterns\<close>

definition f64_mag :: "f64 \<Rightarrow> nat" where
  "f64_mag x = unat (take_bit 63 x)"

definition f64_neg :: "f64 \<Rightarrow> bool" where
  "f64_neg x = bit x 63"

definition inf_mag :: nat where
  "inf_mag = 0x7FF0000000000000"

definition f64_nan :: f64 where
  "f64_nan = 0x7FF8000000000000"

definition is_nan :: "f64 \<Rightarrow> bool" where
  "is_nan x = (inf_mag < f64_mag x)"

definition is_inf :: "f64 \<Rightarrow> bool" where
  "is_inf x = (f64_mag x = inf_mag)"

definition f64_rank :: "f64 \<Rightarrow> int" where
  "f64_rank x = (if f64_neg x then - int (f64_mag x) else int (f64_mag x))"

definition f64_less :: "f64 \<Rightarrow> f64 \<Rightarrow> bool" where
  "f64_less x y = (\<not> is_nan x \<and> \<not> is_nan y \<and> f64_rank x < f64_rank y)"

definition f64_le :: "f64 \<Rightarrow> f64 \<Rightarrow> bool" where
  "f64_le x y = (\<not> is_nan x \<and> \<not> is_nan y \<and> f64_rank x \<le> f64_rank y)"

section \<open>Numbers\<close>

definition mag_value :: "nat \<Rightarrow> rat" where
  "mag_value m =
     (let e = m div 2 ^ 52; f = m mod 2 ^ 52
      in if e = 0 then of_nat f / 2 ^ 1074 else of_nat (2 ^ 52 + f) * 2 ^ e / 2 ^ 1075)"

definition f64_value :: "f64 \<Rightarrow> rat" where
  "f64_value x = (if f64_neg x then - mag_value (f64_mag x) else mag_value (f64_mag x))"

section \<open>Rounding\<close>

definition pow2 :: "int \<Rightarrow> rat" where
  "pow2 i = (if 0 \<le> i then 2 ^ nat i else 1 / 2 ^ nat (- i))"

definition ilog2 :: "rat \<Rightarrow> int" where
  "ilog2 q =
     (case quotient_of q of (a, b) \<Rightarrow>
        let d = bitlen a - bitlen b in if pow2 d \<le> q then d else d - 1)"

definition round_even :: "rat \<Rightarrow> int" where
  "round_even q =
     (let n = floor q; r = q - of_int n
      in if r < 1 / 2 then n else if 1 / 2 < r then n + 1 else if even n then n else n + 1)"

definition round_mag :: "rat \<Rightarrow> nat" where
  "round_mag q =
     (if q \<le> 0 then 0
      else let u = max (ilog2 q - 52) (- 1074);
               n = round_even (q / pow2 u)
           in min (nat (n + (u + 1074) * 2 ^ 52)) inf_mag)"

definition f64_pack :: "bool \<Rightarrow> nat \<Rightarrow> f64" where
  "f64_pack neg m = (if neg then set_bit 63 (of_nat m) else of_nat m)"

section \<open>Arithmetic\<close>

definition f64_of_int :: "int \<Rightarrow> f64" where
  "f64_of_int n = f64_pack (n < 0) (round_mag (of_int \<bar>n\<bar>))"

definition f64_add :: "f64 \<Rightarrow> f64 \<Rightarrow> f64" where
  "f64_add x y =
     (if is_nan x \<or> is_nan y then f64_nan
      else if is_inf x then (if is_inf y \<and> f64_neg x \<noteq> f64_neg y then f64_nan else x)
      else if is_inf y then y
      else let q = f64_value x + f64_value y
           in if q = 0 then f64_pack (f64_neg x \<and> f64_neg y) 0
              else f64_pack (q < 0) (round_mag \<bar>q\<bar>))"

definition f64_sub :: "f64 \<Rightarrow> f64 \<Rightarrow> f64" where
  "f64_sub x y = f64_add x (flip_bit 63 y)"

definition f64_mul :: "f64 \<Rightarrow> f64 \<Rightarrow> f64" where
  "f64_mul x y =
     (let s = (f64_neg x \<noteq> f64_neg y)
      in if is_nan x \<or> is_nan y then f64_nan
         else if is_inf x \<or> is_inf y
         then (if f64_mag x = 0 \<or> f64_mag y = 0 then f64_nan else f64_pack s inf_mag)
         else f64_pack s (round_mag (mag_value (f64_mag x) * mag_value (f64_mag y))))"

definition f64_div :: "f64 \<Rightarrow> f64 \<Rightarrow> f64" where
  "f64_div x y =
     (let s = (f64_neg x \<noteq> f64_neg y)
      in if is_nan x \<or> is_nan y then f64_nan
         else if is_inf x then (if is_inf y then f64_nan else f64_pack s inf_mag)
         else if is_inf y then f64_pack s 0
         else if f64_mag y = 0 then (if f64_mag x = 0 then f64_nan else f64_pack s inf_mag)
         else f64_pack s (round_mag (mag_value (f64_mag x) / mag_value (f64_mag y))))"

text \<open>The conversion of a double to an unsigned 64-bit integer drops the fraction.  Where the
  integer does not fit the language gives the conversion no meaning: \<open>undef\<close> is what the
  machine answers there.\<close>

definition f64_to_u64 :: "(f64 \<Rightarrow> u64) \<Rightarrow> f64 \<Rightarrow> u64" where
  "f64_to_u64 undef x =
     (if is_nan x \<or> is_inf x then undef x
      else let n = floor (mag_value (f64_mag x)); i = (if f64_neg x then - n else n)
           in if 0 \<le> i \<and> i < 2 ^ 64 then word_of_int i else undef x)"

section \<open>The order of patterns is the order of numbers\<close>

lemma mag_value_split:
  assumes "f < 2 ^ 52"
  shows "mag_value (e * 2 ^ 52 + f) =
    (if e = 0 then of_nat f / 2 ^ 1074 else (2 ^ 52 + of_nat f) * 2 ^ e / 2 ^ 1075)"
proof -
  have "(e * 2 ^ 52 + f) div 2 ^ 52 = e" "(e * 2 ^ 52 + f) mod 2 ^ 52 = f"
    using assms by simp_all
  then show ?thesis by (simp add: mag_value_def Let_def)
qed

lemma mag_value_Suc: "mag_value m < mag_value (Suc m)"
proof -
  define e where "e = m div 2 ^ 52"
  define f where "f = m mod 2 ^ 52"
  have m: "m = e * 2 ^ 52 + f" and f: "f < 2 ^ 52"
    unfolding e_def f_def by simp_all
  show ?thesis
  proof (cases "Suc f < 2 ^ 52")
    case True
    have S: "Suc m = e * 2 ^ 52 + Suc f" using m by simp
    show ?thesis
      unfolding S mag_value_split [OF True] unfolding m mag_value_split [OF f]
      by (simp add: divide_simps)
  next
    case False
    then have ff: "f = 2 ^ 52 - 1" using f by linarith
    have S: "Suc m = Suc e * 2 ^ 52 + 0" using m ff by simp
    have zero: "(0 :: nat) < 2 ^ 52" by simp
    show ?thesis
      unfolding S mag_value_split [OF zero] unfolding m mag_value_split [OF f]
      by (simp add: ff divide_simps)
  qed
qed

lemma mag_value_less_iff [simp]: "mag_value m < mag_value n \<longleftrightarrow> m < n"
  using lift_Suc_mono_less_iff [of mag_value, OF mag_value_Suc] by simp

lemma mag_value_le_iff [simp]: "mag_value m \<le> mag_value n \<longleftrightarrow> m \<le> n"
  by (meson linorder_not_less mag_value_less_iff)

lemma mag_value_0 [simp]: "mag_value 0 = 0"
  by (simp add: mag_value_def)

lemma mag_value_nonneg [simp]: "0 \<le> mag_value m"
  using mag_value_le_iff [of 0 m] by simp

lemma mag_value_eq_0 [simp]: "mag_value m = 0 \<longleftrightarrow> m = 0"
  by (metis mag_value_0 mag_value_le_iff order_antisym order_refl zero_le)

text \<open>Comparing two finite doubles compares their numbers.\<close>

lemma f64_less_value:
  assumes "\<not> is_nan x" "\<not> is_nan y"
  shows "f64_less x y \<longleftrightarrow> f64_value x < f64_value y"
proof -
  have pos: "- mag_value m < mag_value n \<longleftrightarrow> m \<noteq> 0 \<or> n \<noteq> 0" for m n
    using mag_value_nonneg [of m] mag_value_nonneg [of n] mag_value_eq_0 [of m] mag_value_eq_0 [of n]
    by linarith
  have neg: "\<not> mag_value m < - mag_value n" for m n
    using mag_value_nonneg [of m] mag_value_nonneg [of n] by linarith
  show ?thesis
    using assms by (auto simp: f64_less_def f64_value_def f64_rank_def pos neg)
qed

section \<open>Rounding against representable numbers\<close>

lemma pow2_powi: "pow2 i = 2 powi i"
  by (simp add: pow2_def power_int_def field_simps)

lemma pow2_pos [simp]: "0 < pow2 i"
  by (simp add: pow2_def)

lemma pow2_add: "pow2 (i + j) = pow2 i * pow2 j"
  by (simp add: pow2_powi power_int_add)

lemma pow2_less_iff [simp]: "pow2 i < pow2 j \<longleftrightarrow> i < j"
proof -
  have mono: "i < j \<Longrightarrow> pow2 i < pow2 j" for i j
    unfolding pow2_powi by (rule power_int_strict_increasing) simp_all
  show ?thesis using mono [of i j] mono [of j i] by (cases i j rule: linorder_cases) auto
qed

lemma pow2_le_iff [simp]: "pow2 i \<le> pow2 j \<longleftrightarrow> i \<le> j"
  using pow2_less_iff [of j i] by linarith

lemma pow2_diff: "pow2 (i - j) = pow2 i / pow2 j"
  by (simp add: pow2_powi power_int_diff)

lemma bitlen_pow2:
  assumes "0 < a"
  shows "pow2 (bitlen a - 1) \<le> of_int a" "of_int a < pow2 (bitlen a)"
proof -
  have n: "1 \<le> bitlen a" using assms bitlen_eq_zero_iff [of a] bitlen_nonneg [of a] by linarith
  note b = bitlen_bounds [OF assms]
  have "pow2 (bitlen a - 1) = of_int (2 ^ nat (bitlen a - 1))" using n by (simp add: pow2_def)
  then show "pow2 (bitlen a - 1) \<le> of_int a" using b by (simp only: of_int_le_iff)
  have "pow2 (bitlen a) = of_int (2 ^ nat (bitlen a))" using n by (simp add: pow2_def)
  then show "of_int a < pow2 (bitlen a)" using b by (simp only: of_int_less_iff)
qed

lemma ilog2_bounds:
  assumes "0 < q"
  shows "pow2 (ilog2 q) \<le> q" "q < pow2 (ilog2 q + 1)"
proof -
  obtain a b where ab: "quotient_of q = (a, b)" by force
  have b: "0 < b" and q: "q = of_int a / of_int b"
    using ab quotient_of_denom_pos quotient_of_div by auto
  have a: "0 < a" using assms b by (simp add: q zero_less_divide_iff)
  note A = bitlen_pow2 [OF a] and B = bitlen_pow2 [OF b]
  define d where "d = bitlen a - bitlen b"
  have il: "ilog2 q = (if pow2 d \<le> q then d else d - 1)" by (simp add: ilog2_def ab d_def Let_def)
  have "pow2 (d - 1) = pow2 (bitlen a - 1) / pow2 (bitlen b)"
    by (simp add: d_def pow2_diff [symmetric] algebra_simps)
  also have "\<dots> \<le> q" unfolding q using A(1) B(2) b a by (intro frac_le) (auto intro: less_imp_le)
  finally have lo: "pow2 (d - 1) \<le> q" .
  have "q < pow2 (bitlen a) / pow2 (bitlen b - 1)"
    unfolding q using A(2) B(1) b a by (intro frac_less) (auto intro: less_imp_le)
  also have "\<dots> = pow2 (d + 1)" by (simp add: d_def pow2_diff [symmetric] algebra_simps)
  finally have hi: "q < pow2 (d + 1)" .
  show "pow2 (ilog2 q) \<le> q" "q < pow2 (ilog2 q + 1)" using lo hi by (simp_all add: il)
qed

lemma round_even_le: "q \<le> of_int n \<Longrightarrow> round_even q \<le> n"
  unfolding round_even_def Let_def by (auto split: if_splits) linarith+

lemma round_even_ge: "of_int n \<le> q \<Longrightarrow> n \<le> round_even q"
  unfolding round_even_def Let_def by (auto split: if_splits) linarith+

text \<open>Every magnitude is a multiple of a power of two: with at most 53 bits,
  and with exactly 53 above the smallest exponent.\<close>

lemma mag_grid:
  obtains n u where "- 1074 \<le> u" "0 \<le> n" "n < 2 ^ 53" "- 1074 < u \<Longrightarrow> 2 ^ 52 \<le> n"
    "int m = n + (u + 1074) * 2 ^ 52" "mag_value m = of_int n * pow2 u"
    "u = - 1074 \<or> pow2 (u + 52) \<le> mag_value m"
proof -
  define e where "e = m div 2 ^ 52"
  define f where "f = m mod 2 ^ 52"
  have m: "m = e * 2 ^ 52 + f" and f: "f < 2 ^ 52"
    unfolding e_def f_def by simp_all
  show thesis
  proof (cases "e = 0")
    case True
    show thesis
    proof (rule that [of "- 1074" "int f"])
      show "mag_value m = of_int (int f) * pow2 (- 1074)"
        unfolding m mag_value_split [OF f] by (simp add: True pow2_def)
      show "int m = int f + (- 1074 + 1074) * 2 ^ 52" using m True by simp
    qed (use f in auto)
  next
    case False
    define n where "n = 2 ^ 52 + int f"
    define u where "u = int e - 1075"
    have p: "pow2 u = 2 ^ e / 2 ^ 1075"
      unfolding u_def pow2_diff by (simp add: pow2_def)
    have v: "mag_value m = of_int n * pow2 u"
      unfolding m mag_value_split [OF f] by (simp add: False p n_def)
    have "pow2 (u + 52) = 2 ^ 52 * pow2 u" by (simp add: pow2_add) (simp add: pow2_def)
    also have "\<dots> \<le> of_int n * pow2 u" by (intro mult_right_mono) (simp_all add: n_def less_imp_le)
    finally have big: "pow2 (u + 52) \<le> mag_value m" unfolding v .
    show thesis
    proof (rule that [of u n])
      show "int m = n + (u + 1074) * 2 ^ 52"
        using m by (simp add: n_def u_def algebra_simps)
      show "- 1074 \<le> u" using False by (simp add: u_def)
    qed (use f v big in \<open>auto simp: n_def\<close>)
  qed
qed

lemma scaled_ge: "c * pow2 u \<le> q \<Longrightarrow> c \<le> q / pow2 u"
  by (simp add: pos_le_divide_eq)

lemma scaled_le: "q \<le> c * pow2 u \<Longrightarrow> q / pow2 u \<le> c"
  by (simp add: pos_divide_le_eq)

text \<open>A number above a representable one does not round below it, and one below
  it does not round above it.\<close>

lemma round_mag_ge:
  assumes "mag_value m \<le> q" "m \<le> inf_mag"
  shows "m \<le> round_mag q"
proof (cases "q \<le> 0")
  case True
  then have "mag_value m = 0" using assms(1) mag_value_nonneg [of m] by linarith
  then show ?thesis by simp
next
  case False
  then have q: "0 < q" by simp
  obtain n w where g: "- 1074 \<le> w" "n < 2 ^ 53" "int m = n + (w + 1074) * 2 ^ 52"
    "mag_value m = of_int n * pow2 w" "w = - 1074 \<or> pow2 (w + 52) \<le> mag_value m"
    by (rule mag_grid [of m]) blast
  define u where "u = max (ilog2 q - 52) (- 1074)"
  note k = ilog2_bounds [OF q]
  have wu: "w \<le> u"
  proof (rule disjE [OF g(5)])
    assume "pow2 (w + 52) \<le> mag_value m"
    then have "pow2 (w + 52) < pow2 (ilog2 q + 1)" using assms(1) k(2) by linarith
    then show "w \<le> u" by (simp add: u_def)
  qed (simp add: u_def)
  have "int m \<le> round_even (q / pow2 u) + (u + 1074) * 2 ^ 52"
  proof (cases "w = u")
    case True
    have "n \<le> round_even (q / pow2 u)"
      using assms(1) g(4) True by (intro round_even_ge scaled_ge) simp
    then show ?thesis using g(3) True by simp
  next
    case False
    then have u: "u = ilog2 q - 52" using wu g(1) by (auto simp: u_def)
    have "pow2 (ilog2 q) = 2 ^ 52 * pow2 u"
      using pow2_add [of 52 u] by (simp add: u) (simp add: pow2_def)
    then have "of_int (2 ^ 52) \<le> q / pow2 u" using k(1) by (intro scaled_ge) simp
    then have "2 ^ 52 \<le> round_even (q / pow2 u)" by (rule round_even_ge)
    moreover have "w + 1 \<le> u" using wu False by simp
    ultimately show ?thesis using g(2,3) by (simp add: algebra_simps)
  qed
  then have "m \<le> nat (round_even (q / pow2 u) + (u + 1074) * 2 ^ 52)" by linarith
  then show ?thesis using assms(2) q by (simp add: round_mag_def Let_def u_def)
qed

lemma round_mag_le:
  assumes "q \<le> mag_value m"
  shows "round_mag q \<le> m"
proof (cases "q \<le> 0")
  case False
  then have q: "0 < q" by simp
  obtain n w where g: "- 1074 \<le> w" "n < 2 ^ 53" "- 1074 < w \<Longrightarrow> 2 ^ 52 \<le> n"
    "int m = n + (w + 1074) * 2 ^ 52" "mag_value m = of_int n * pow2 w"
    by (rule mag_grid [of m]) blast
  define u where "u = max (ilog2 q - 52) (- 1074)"
  note k = ilog2_bounds [OF q]
  have "mag_value m < 2 ^ 53 * pow2 w"
    unfolding g(5) using g(2) by (intro mult_strict_right_mono) (simp_all flip: of_int_less_iff)
  also have "\<dots> = pow2 (w + 53)" by (simp add: pow2_add) (simp add: pow2_def)
  finally have "pow2 (ilog2 q) < pow2 (w + 53)" using k(1) assms by linarith
  then have uw: "u \<le> w" using g(1) by (simp add: u_def)
  have "round_even (q / pow2 u) + (u + 1074) * 2 ^ 52 \<le> int m"
  proof (cases "w = u")
    case True
    have "round_even (q / pow2 u) \<le> n"
      using assms g(5) True by (intro round_even_le scaled_le) simp
    then show ?thesis using g(4) True by simp
  next
    case False
    have "pow2 (ilog2 q + 1) \<le> pow2 (u + 53)" by (simp add: u_def)
    also have "\<dots> = 2 ^ 53 * pow2 u" by (simp add: pow2_add) (simp add: pow2_def)
    finally have "q / pow2 u \<le> of_int (2 ^ 53)" using k(2) by (intro scaled_le) simp
    then have "round_even (q / pow2 u) \<le> 2 ^ 53" by (rule round_even_le)
    moreover have "u + 1 \<le> w" "2 ^ 52 \<le> n" using uw False g(3) u_def by auto
    ultimately show ?thesis using g(4) by (simp add: algebra_simps)
  qed
  then have "nat (round_even (q / pow2 u) + (u + 1074) * 2 ^ 52) \<le> m" by linarith
  then show ?thesis using q by (simp add: round_mag_def Let_def u_def [symmetric] min_le_iff_disj)
qed (simp add: round_mag_def)

lemma round_mag_exact: "m \<le> inf_mag \<Longrightarrow> round_mag (mag_value m) = m"
  by (simp add: round_mag_ge round_mag_le order_antisym)

lemma round_mag_inf: "round_mag q \<le> inf_mag"
  by (simp add: round_mag_def Let_def inf_mag_def)

section \<open>The unit interval\<close>

text \<open>Numbers at least zero, and those of [0, 1], where scores live.\<close>

definition f64_one :: f64 where
  "f64_one = 0x3FF0000000000000"

definition f64_nonneg :: "f64 \<Rightarrow> bool" where
  "f64_nonneg x = f64_le 0 x"

definition f64_unit :: "f64 \<Rightarrow> bool" where
  "f64_unit x = (f64_le 0 x \<and> f64_le x f64_one)"

lemma inf_mag_lt: "m \<le> inf_mag \<Longrightarrow> m < 2 ^ 63"
  by (simp add: inf_mag_def)

lemma mag_pack:
  assumes "m \<le> inf_mag"
  shows "f64_mag (f64_pack s m) = m"
proof -
  have m: "m < 2 ^ 63" by (rule inf_mag_lt [OF assms])
  have t: "take_bit 63 (set_bit 63 (w :: f64)) = take_bit 63 w" for w
    by (rule bit_word_eqI) (auto simp: bit_simps)
  have "take_bit 63 (of_nat m :: f64) = of_nat m"
    using m by (intro take_bit_small) (simp add: unat_of_nat_lt)
  then show ?thesis using m by (simp add: f64_mag_def f64_pack_def t unat_of_nat_lt)
qed

lemma neg_pack:
  assumes "m \<le> inf_mag"
  shows "f64_neg (f64_pack s m) = s"
proof -
  have m: "m < 2 ^ 63" by (rule inf_mag_lt [OF assms])
  have "\<not> bit (of_nat m :: f64) 63"
    using m bit_take_bit_iff [of 63 "of_nat m :: f64" 63] take_bit_small [of "of_nat m :: f64" 63]
    by (simp add: unat_of_nat_lt)
  then show ?thesis by (simp add: f64_neg_def f64_pack_def bit_simps)
qed

lemma is_nan_pack: "m \<le> inf_mag \<Longrightarrow> \<not> is_nan (f64_pack s m)"
  by (simp add: is_nan_def mag_pack)

lemmas pack_facts [simp] =
  mag_pack [OF round_mag_inf] neg_pack [OF round_mag_inf] is_nan_pack [OF round_mag_inf]
  mag_pack [OF zero_le] neg_pack [OF zero_le] is_nan_pack [OF zero_le]
  mag_pack [OF order_refl] neg_pack [OF order_refl] is_nan_pack [OF order_refl]

lemma f64_zero [simp]: "f64_mag 0 = 0" "\<not> f64_neg 0" "f64_rank 0 = 0" "\<not> is_nan 0"
  by (simp_all add: f64_mag_def f64_neg_def f64_rank_def is_nan_def)

lemma f64_one_facts: "f64_rank f64_one = 0x3FF0000000000000" "\<not> is_nan f64_one"
  by (simp_all add: f64_rank_def f64_one_def f64_mag_def f64_neg_def is_nan_def inf_mag_def)

lemma mag_value_one: "mag_value 0x3FF0000000000000 = 1"
  by (simp add: mag_value_def)

lemma f64_nonneg_iff: "f64_nonneg x \<longleftrightarrow> \<not> is_nan x \<and> (f64_neg x \<longrightarrow> f64_mag x = 0)"
  by (auto simp: f64_nonneg_def f64_le_def f64_rank_def)

lemma f64_unit_iff:
  "f64_unit x \<longleftrightarrow> f64_nonneg x \<and> f64_mag x \<le> 0x3FF0000000000000"
proof -
  have "f64_neg x \<Longrightarrow> f64_rank x \<le> 0" "\<not> f64_neg x \<Longrightarrow> f64_rank x = int (f64_mag x)"
    "f64_neg x \<Longrightarrow> f64_rank x = - int (f64_mag x)"
    by (simp_all add: f64_rank_def)
  then show ?thesis
    by (cases "f64_neg x") (auto simp: f64_unit_def f64_nonneg_def f64_le_def f64_one_facts)
qed

lemma unit_nonneg: "f64_unit x \<Longrightarrow> f64_nonneg x"
  by (simp add: f64_unit_iff)

lemma unit_finite: "f64_unit x \<Longrightarrow> \<not> is_nan x \<and> \<not> is_inf x"
  by (auto simp: f64_unit_iff f64_nonneg_iff is_inf_def inf_mag_def)

lemma nonneg_value: "f64_nonneg x \<Longrightarrow> f64_value x = mag_value (f64_mag x)"
  by (auto simp: f64_nonneg_iff f64_value_def)

lemma unit_0 [simp]: "f64_unit 0"
  by (simp add: f64_unit_iff f64_nonneg_iff)

lemma unit_1 [simp]: "f64_unit f64_one"
  by (simp add: f64_unit_def f64_le_def f64_one_facts)

lemma nonneg_add:
  assumes "f64_nonneg x" "f64_nonneg y"
  shows "f64_nonneg (f64_add x y)"
proof (cases "is_inf x \<or> is_inf y")
  case True
  have "f64_nonneg z \<Longrightarrow> is_inf z \<Longrightarrow> \<not> f64_neg z \<and> \<not> is_nan z" for z
    by (auto simp: f64_nonneg_iff is_inf_def inf_mag_def)
  then have "f64_add x y = x \<or> f64_add x y = y"
    using True assms by (auto simp: f64_add_def f64_nonneg_iff)
  then show ?thesis using assms by auto
next
  case False
  have q: "0 \<le> f64_value x + f64_value y" using assms by (simp add: nonneg_value)
  have n: "\<not> is_nan x" "\<not> is_nan y" using assms by (simp_all add: f64_nonneg_iff)
  show ?thesis
    using False n q round_mag_inf
    by (auto simp: f64_add_def Let_def f64_nonneg_iff)
qed

lemma nan_add: "\<not> is_nan x \<Longrightarrow> \<not> is_inf x \<Longrightarrow> \<not> is_nan y \<Longrightarrow> \<not> is_nan (f64_add x y)"
  by (auto simp: f64_add_def Let_def)

lemma unit_mul:
  assumes "f64_unit x" "f64_unit y"
  shows "f64_unit (f64_mul x y)"
proof -
  have f: "\<not> is_nan x \<and> \<not> is_inf x" "\<not> is_nan y \<and> \<not> is_inf y" using assms by (simp_all add: unit_finite)
  let ?q = "mag_value (f64_mag x) * mag_value (f64_mag y)"
  have "mag_value (f64_mag x) \<le> 1" "mag_value (f64_mag y) \<le> 1"
    using assms by (simp_all add: f64_unit_iff flip: mag_value_one)
  then have "?q \<le> 1" by (simp add: mult_le_one)
  then have le: "round_mag ?q \<le> 0x3FF0000000000000"
    by (intro round_mag_le) (simp add: mag_value_one)
  have z: "f64_neg x \<noteq> f64_neg y \<Longrightarrow> round_mag ?q = 0"
    using assms by (auto simp: f64_unit_iff f64_nonneg_iff round_mag_def)
  show ?thesis
    using f le z by (simp add: f64_mul_def Let_def f64_unit_iff f64_nonneg_iff)
qed

lemma nonneg_mul:
  assumes "f64_nonneg x" "f64_nonneg y" "f64_mag x \<noteq> 0" "\<not> is_inf x"
  shows "f64_nonneg (f64_mul x y)"
proof -
  have n: "\<not> is_nan x" "\<not> is_nan y" and s: "\<not> f64_neg x" "f64_neg y \<longrightarrow> f64_mag y = 0"
    using assms by (auto simp: f64_nonneg_iff)
  have i: "is_inf y \<Longrightarrow> f64_mag y \<noteq> 0" by (simp add: is_inf_def inf_mag_def)
  show ?thesis
    using n s i assms(3,4)
    by (auto simp: f64_mul_def Let_def f64_nonneg_iff round_mag_def [of 0])
qed

lemma nan_mul:
  assumes "\<not> is_nan x" "\<not> is_inf x" "f64_mag x \<noteq> 0" "\<not> is_nan y"
  shows "\<not> is_nan (f64_mul x y)"
proof -
  have "is_inf y \<Longrightarrow> f64_mag y \<noteq> 0" by (simp add: is_inf_def inf_mag_def)
  then show ?thesis using assms by (auto simp: f64_mul_def Let_def)
qed

text \<open>Subtracting a number at least zero from a score leaves at most the score.\<close>

lemma flip_facts:
  "f64_mag (flip_bit 63 y) = f64_mag y" "f64_neg (flip_bit 63 y) = (\<not> f64_neg y)"
  "is_nan (flip_bit 63 y) = is_nan y" "is_inf (flip_bit 63 y) = is_inf y"
  "f64_value (flip_bit 63 y) = - f64_value y"
proof -
  have "take_bit 63 (flip_bit 63 y) = take_bit 63 y"
    by (rule bit_word_eqI) (auto simp: bit_simps)
  then show m: "f64_mag (flip_bit 63 y) = f64_mag y" by (simp add: f64_mag_def)
  show n: "f64_neg (flip_bit 63 y) = (\<not> f64_neg y)" by (simp add: f64_neg_def bit_simps)
  show "is_nan (flip_bit 63 y) = is_nan y" "is_inf (flip_bit 63 y) = is_inf y"
    "f64_value (flip_bit 63 y) = - f64_value y"
    by (simp_all add: is_nan_def is_inf_def f64_value_def m n)
qed

lemma sub_unit:
  assumes x: "f64_unit x" and y: "f64_nonneg y" and pos: "\<not> f64_less (f64_sub x y) 0"
  shows "f64_unit (f64_sub x y)"
proof -
  have fin: "\<not> is_nan x \<and> \<not> is_inf x" by (rule unit_finite [OF x])
  have ny: "\<not> is_nan y" using y by (simp add: f64_nonneg_iff)
  have nan: "\<not> is_nan (f64_sub x y)"
    unfolding f64_sub_def using fin ny by (intro nan_add) (simp_all add: flip_facts)
  have nn: "f64_nonneg (f64_sub x y)"
    using pos nan by (simp add: f64_nonneg_def f64_less_def f64_le_def)
  have iy: "\<not> is_inf y"
  proof
    assume i: "is_inf y"
    then have "\<not> f64_neg y" using y by (auto simp: f64_nonneg_iff is_inf_def inf_mag_def)
    moreover have "f64_sub x y = flip_bit 63 y" using i fin ny by (simp add: f64_sub_def f64_add_def flip_facts)
    ultimately show False using nn i by (simp add: f64_nonneg_iff flip_facts is_inf_def inf_mag_def)
  qed
  define q where "q = f64_value x - f64_value y"
  have q: "q \<le> mag_value (f64_mag x)"
    using unit_nonneg [OF x] y by (simp add: q_def nonneg_value)
  have e: "f64_sub x y = (if q = 0 then f64_pack (f64_neg x \<and> \<not> f64_neg y) 0 else f64_pack (q < 0) (round_mag \<bar>q\<bar>))"
    using fin ny iy by (simp add: f64_sub_def f64_add_def flip_facts q_def Let_def)
  have "f64_mag (f64_sub x y) \<le> f64_mag x"
  proof (cases "q < 0")
    case True
    then have "round_mag \<bar>q\<bar> = 0" using nn e by (simp add: f64_nonneg_iff)
    then show ?thesis using True by (simp add: e)
  next
    case False
    then have "round_mag \<bar>q\<bar> \<le> f64_mag x" using q by (intro round_mag_le) simp
    then show ?thesis using False by (simp add: e)
  qed
  then show ?thesis using nn x by (simp add: f64_unit_iff)
qed

lemma nonneg_div:
  assumes "f64_nonneg x" "\<not> is_inf x" "f64_nonneg y" "f64_mag y \<noteq> 0"
  shows "f64_nonneg (f64_div x y)"
  using assms
  by (auto simp: f64_div_def Let_def f64_nonneg_iff round_mag_def [of 0])

text \<open>Dividing by a number of at least one does not make a number larger.\<close>

lemma mag_div_le:
  assumes "\<not> is_nan x" "\<not> is_inf x" "\<not> is_nan y" "\<not> is_inf y" "0x3FF0000000000000 \<le> f64_mag y"
  shows "f64_mag (f64_div x y) \<le> f64_mag x"
proof -
  have y: "1 \<le> mag_value (f64_mag y)" using assms(5) by (simp flip: mag_value_one)
  then have "mag_value (f64_mag x) / mag_value (f64_mag y) \<le> mag_value (f64_mag x) / 1"
    by (intro divide_left_mono) simp_all
  then have "round_mag (mag_value (f64_mag x) / mag_value (f64_mag y)) \<le> f64_mag x"
    by (intro round_mag_le) simp
  moreover have "f64_mag y \<noteq> 0" using assms(5) by simp
  ultimately show ?thesis using assms(1-4) by (simp add: f64_div_def Let_def)
qed

text \<open>A positive 64-bit integer is at most 2 to the 63 as a double.\<close>

lemma f64_of_int_pos:
  assumes "0 < n" "n < 2 ^ 63"
  shows "f64_nonneg (f64_of_int n)" "f64_mag (f64_of_int n) \<le> 0x43E0000000000000"
proof -
  have "rat_of_int n \<le> of_int (2 ^ 63)" using assms(2) by (simp only: of_int_le_iff)
  then have "rat_of_int n \<le> mag_value 0x43E0000000000000" by (simp add: mag_value_def)
  then have "round_mag (rat_of_int n) \<le> 0x43E0000000000000" by (rule round_mag_le)
  then show "f64_nonneg (f64_of_int n)" "f64_mag (f64_of_int n) \<le> 0x43E0000000000000"
    using assms(1) by (simp_all add: f64_of_int_def f64_nonneg_iff)
qed

text \<open>The two assignments that bring a number into [0, 1].\<close>

lemma nonneg_clamp: "f64_nonneg x \<Longrightarrow> \<not> f64_less f64_one x \<Longrightarrow> f64_unit x"
  by (auto simp: f64_unit_def f64_nonneg_def f64_le_def f64_less_def f64_one_facts)

lemma nan_clamp: "\<not> is_nan x \<Longrightarrow> \<not> f64_less x 0 \<Longrightarrow> f64_nonneg x"
  by (auto simp: f64_nonneg_def f64_le_def f64_less_def)

section \<open>Whole numbers\<close>

text \<open>Every whole number below 2 to the 53 is representable, so rounding keeps the order
  against it.\<close>

lemma mag_of_nat:
  assumes "n < 2 ^ 53"
  obtains m where "m < inf_mag" "mag_value m = of_nat n"
proof (cases "n = 0")
  case True
  then show thesis by (intro that [of 0]) (simp_all add: inf_mag_def)
next
  case False
  define b where "b = nat (bitlen (int n))"
  have pos: "0 < int n" using False by simp
  have "0 < bitlen (int n)" using pos bitlen_eq_zero_iff [of "int n"] bitlen_nonneg [of "int n"] by linarith
  then have b: "1 \<le> b" "bitlen (int n) = int b" by (simp_all add: b_def)
  have "2 ^ nat (int b - 1) \<le> int n" "int n < 2 ^ b" using bitlen_bounds [OF pos] by (simp_all add: b(2))
  moreover have "nat (int b - 1) = b - 1" using b(1) by linarith
  ultimately have "int (2 ^ (b - 1)) \<le> int n" "int n < int (2 ^ b)" by simp_all
  then have n: "2 ^ (b - 1) \<le> n" "n < 2 ^ b" by (simp_all only: of_nat_le_iff of_nat_less_iff)
  have "(2 :: nat) ^ (b - 1) < 2 ^ 53" using n(1) assms by linarith
  then have b53: "b \<le> 53" using b(1) power_less_imp_less_exp [of "2 :: nat" "b - 1" 53] by simp
  define f where "f = n * 2 ^ (53 - b) - 2 ^ 52"
  have lo: "2 ^ 52 \<le> n * 2 ^ (53 - b)"
    using mult_right_mono [OF n(1), of "2 ^ (53 - b)"] b(1) b53 by (simp flip: power_add)
  have "n * 2 ^ (53 - b) < 2 ^ b * 2 ^ (53 - b)" using n(2) by simp
  then have hi: "n * 2 ^ (53 - b) < 2 ^ 53" using b53 by (simp flip: power_add)
  have f: "f < 2 ^ 52" using lo hi by (simp add: f_def)
  have "(2 ^ 52 + of_nat f :: rat) = of_nat (2 ^ 52 + f)" by simp
  also have "2 ^ 52 + f = n * 2 ^ (53 - b)" using lo by (simp add: f_def)
  finally have v: "(2 ^ 52 + of_nat f :: rat) = of_nat n * 2 ^ (53 - b)" by simp
  have "53 - b + (1022 + b) = 1075" using b53 by simp
  then have "(2 :: rat) ^ (53 - b) * 2 ^ (1022 + b) = 2 ^ 1075" unfolding power_add [symmetric] by (rule arg_cong)
  then have "mag_value ((1022 + b) * 2 ^ 52 + f) = of_nat n"
    unfolding mag_value_split [OF f] v by (simp add: mult.assoc)
  moreover have "(1022 + b) * 2 ^ 52 + f < inf_mag" using b53 f by (simp add: inf_mag_def)
  ultimately show thesis by (intro that)
qed

lemma round_nat_le: "n < 2 ^ 53 \<Longrightarrow> q \<le> of_nat n \<Longrightarrow> mag_value (round_mag q) \<le> of_nat n"
  by (metis mag_of_nat mag_value_le_iff round_mag_le)

lemma round_nat_ge: "n < 2 ^ 53 \<Longrightarrow> of_nat n \<le> q \<Longrightarrow> of_nat n \<le> mag_value (round_mag q)"
  by (metis less_imp_le mag_of_nat mag_value_le_iff round_mag_ge)

lemma round_nat: "n < 2 ^ 53 \<Longrightarrow> mag_value (round_mag (of_nat n)) = of_nat n"
  by (simp add: order_antisym round_nat_ge round_nat_le)

lemma below_inf:
  assumes "n < 2 ^ 53" "mag_value m \<le> of_nat n"
  shows "m < inf_mag"
proof -
  obtain k where "k < inf_mag" "mag_value k = of_nat n" by (rule mag_of_nat [OF assms(1)])
  then show ?thesis using assms(2) by (metis le_less_trans mag_value_le_iff)
qed

lemma f64_of_nat:
  assumes "n < 2 ^ 53"
  shows "mag_value (f64_mag (f64_of_int (int n))) = of_nat n" "\<not> f64_neg (f64_of_int (int n))"
    "\<not> is_nan (f64_of_int (int n))" "\<not> is_inf (f64_of_int (int n))"
proof -
  show v: "mag_value (f64_mag (f64_of_int (int n))) = of_nat n" using assms by (simp add: f64_of_int_def round_nat)
  show "\<not> is_inf (f64_of_int (int n))" using below_inf [OF assms eq_refl, OF v] by (simp add: is_inf_def)
qed (simp_all add: f64_of_int_def)

text \<open>A nonnegative double below such a number is converted to its whole part.\<close>

lemma f64_to_u64_floor:
  assumes "n < 2 ^ 53" "mag_value (f64_mag x) \<le> of_nat n" "\<not> f64_neg x"
  shows "int (unat (f64_to_u64 undef x)) = floor (mag_value (f64_mag x))"
proof -
  have m: "f64_mag x < inf_mag" by (rule below_inf [OF assms(1,2)])
  define i where "i = floor (mag_value (f64_mag x))"
  have "i \<le> int n" unfolding i_def using assms(2) by linarith
  moreover have "0 \<le> i" by (simp add: i_def)
  ultimately have i: "0 \<le> i" "i < 2 ^ 64" using assms(1) by simp_all
  then have "f64_to_u64 undef x = word_of_int i"
    using m assms(3) by (simp add: f64_to_u64_def is_nan_def is_inf_def i_def [symmetric] Let_def)
  then show ?thesis using i by (simp add: i_def [symmetric] unsigned_of_int take_bit_int_eq_self)
qed

text \<open>The whole part of a rounded number is less than one away from the number itself.\<close>

lemma floor_round_near:
  assumes "0 \<le> q" and fl: "of_nat u \<le> mag_value (round_mag q)" "mag_value (round_mag q) < of_nat u + 1"
    and u: "Suc u < 2 ^ 53"
  shows "\<bar>of_nat u - q\<bar> < 1"
proof -
  have "\<not> of_nat (Suc u) \<le> q"
  proof
    assume "of_nat (Suc u) \<le> q"
    then have "of_nat (Suc u) \<le> mag_value (round_mag q)" using u by (intro round_nat_ge) simp_all
    then show False using fl(2) by simp
  qed
  then have "q < of_nat u + 1" by (simp add: add.commute)
  moreover have "of_nat u - 1 < q"
  proof (cases u)
    case 0
    then show ?thesis using assms(1) by simp
  next
    case (Suc w)
    have "\<not> q \<le> of_nat w"
    proof
      assume "q \<le> of_nat w"
      then have "mag_value (round_mag q) \<le> of_nat w" using u Suc by (intro round_nat_le) simp_all
      then show False using fl(1) Suc by simp
    qed
    then show ?thesis using Suc by simp
  qed
  ultimately show ?thesis unfolding abs_less_iff by linarith
qed

section \<open>Rounding a number given as a fraction\<close>

lemma ilog2_eq:
  assumes "pow2 k \<le> q" "q < pow2 (k + 1)"
  shows "ilog2 q = k"
proof -
  have q: "0 < q" using assms(1) pow2_pos [of k] by linarith
  have "pow2 k < pow2 (ilog2 q + 1)" "pow2 (ilog2 q) < pow2 (k + 1)"
    using ilog2_bounds [OF q] assms by linarith+
  then show ?thesis by simp
qed

lemma round_mag_at:
  assumes "pow2 k \<le> q" "q < pow2 (k + 1)" "- 1022 \<le> k"
  shows "round_mag q = min (nat (round_even (q / pow2 (k - 52)) + (k + 1022) * 2 ^ 52)) inf_mag"
proof -
  have "0 < q" using assms(1) pow2_pos [of k] by linarith
  moreover have "max (k - 52) (- 1074) = k - 52" using assms(3) by simp
  ultimately show ?thesis unfolding round_mag_def ilog2_eq [OF assms(1,2)] by (simp add: Let_def)
qed

lemma floor_numeral_div: "floor (numeral a / numeral b :: rat) = numeral a div numeral b"
  using floor_divide_of_int_eq [of "numeral a" "numeral b", where 'a = rat] by simp

end
