(* ===== verification/Peer.thy ===== *)
theory Peer
  imports Ice Certificate Float64
begin

text \<open>
  Records of peers and their wire format (core/discovery/discovery.hpp, .cpp).  A state
  and a role are the bytes their enums store.  Reading an endpoint copies strings
  without a bounds check: a length beyond the data is Fault.  The round-trip time is a
  double, written as whole microseconds: the conversions are those of \<open>Float64\<close>, and the
  argument \<open>ub\<close> is what the machine makes of a conversion the language leaves undefined
  (a time that is negative, too large or no number).
\<close>

section \<open>Records\<close>

datatype PeerState = PeerUnknown | PeerOnline | PeerSuspect | PeerOffline | PeerInvalid byte

primrec peer_state_byte :: "PeerState \<Rightarrow> byte" where
  "peer_state_byte PeerUnknown = 0"
| "peer_state_byte PeerOnline = 1"
| "peer_state_byte PeerSuspect = 2"
| "peer_state_byte PeerOffline = 3"
| "peer_state_byte (PeerInvalid b) = b"

definition peer_state_of :: "byte \<Rightarrow> PeerState" where
  "peer_state_of b =
     (if b = 0 then PeerUnknown else if b = 1 then PeerOnline else if b = 2 then PeerSuspect
      else if b = 3 then PeerOffline else PeerInvalid b)"

record PeerRecord =
  pr_node_id :: bytes
  display_name :: bytes
  hostname :: bytes
  mesh_name :: bytes
  pr_role :: Role
  tags :: "bytes list"
  platform :: bytes
  arch :: bytes
  pr_version :: bytes
  location :: bytes
  aliases :: "bytes list"
  pr_endpoint :: Endpoint
  mapped_address :: MappedAddress
  relay_capable :: bool
  pr_state :: PeerState
  last_seen :: i64
  ping_misses :: "32 word"
  pr_rtt :: f64
  ice_candidates :: "Candidate list"

definition no_endpoint :: Endpoint where
  "no_endpoint = \<lparr>ep_scheme = [], ep_host = [], ep_port = 0, ep_path = []\<rparr>"

definition no_address :: MappedAddress where
  "no_address = \<lparr>mapped_ip = [], mapped_port = 0, mapped_is_ipv6 = False, mapped_discovered_at = 0\<rparr>"

definition peer_new :: PeerRecord where
  "peer_new =
     \<lparr>pr_node_id = replicate 32 0, display_name = [], hostname = [], mesh_name = [], pr_role = Role_Reader, tags = [],
      platform = [], arch = [], pr_version = [], location = [], aliases = [], pr_endpoint = no_endpoint,
      mapped_address = no_address, relay_capable = False, pr_state = PeerUnknown, last_seen = 0, ping_misses = 0,
      pr_rtt = 0, ice_candidates = []\<rparr>"

section \<open>Writers\<close>

definition write_str :: "bytes \<Rightarrow> bytes" where
  "write_str s = write_be 2 (of_nat (length s) :: u16) @ s"

definition write_strs :: "bytes list \<Rightarrow> bytes" where
  "write_strs xs = write_be 2 (of_nat (length xs) :: u16) @ concat (map write_str xs)"

definition write_endpoint :: "Endpoint \<Rightarrow> bytes" where
  "write_endpoint ep =
     write_str (ep_scheme ep) @ write_str (ep_host ep) @ write_be 2 (ep_port ep) @ write_str (ep_path ep)"

definition write_mapped_address :: "MappedAddress \<Rightarrow> bytes" where
  "write_mapped_address a =
     (if mapped_empty a then [0]
      else 1 # write_str (mapped_ip a) @ write_be 2 (mapped_port a)
        @ (if mapped_is_ipv6 a then 1 else 0) # write_be 8 (mapped_discovered_at a))"

definition write_ice_candidates :: "Candidate list \<Rightarrow> bytes" where
  "write_ice_candidates cs =
     (if cs = [] then write_be 4 (0 :: u32)
      else (let data = encode_candidates_cbor cs in write_be 4 (of_nat (length data) :: u32) @ data))"

definition f64_thousand :: f64 where
  "f64_thousand = 0x408F400000000000"

definition rtt_to_us :: "(f64 \<Rightarrow> u64) \<Rightarrow> f64 \<Rightarrow> u64" where
  "rtt_to_us ub rtt = f64_to_u64 ub (f64_mul rtt f64_thousand)"

definition rtt_of_us :: "u64 \<Rightarrow> f64" where
  "rtt_of_us us = f64_div (f64_of_int (uint us)) f64_thousand"

definition peer_serialize :: "(f64 \<Rightarrow> u64) \<Rightarrow> PeerRecord \<Rightarrow> bytes" where
  "peer_serialize ub p =
     pr_node_id p @ [peer_state_byte (pr_state p)] @ write_be 8 (last_seen p) @ [ucast (ping_misses p)]
     @ write_str (display_name p) @ write_str (hostname p) @ write_str (mesh_name p) @ [pr_role p]
     @ write_strs (tags p) @ write_str (platform p) @ write_str (arch p) @ write_str (pr_version p)
     @ write_str (location p) @ write_strs (aliases p)
     @ write_endpoint (pr_endpoint p) @ write_mapped_address (mapped_address p)
     @ [if relay_capable p then 1 else 0] @ write_be 8 (rtt_to_us ub (pr_rtt p))
     @ write_ice_candidates (ice_candidates p)"

section \<open>Readers\<close>

definition pbind :: "'a dres \<Rightarrow> ('a \<Rightarrow> 'b dres) \<Rightarrow> 'b dres" where
  "pbind r k = (case r of Got x \<Rightarrow> k x | Fail e \<Rightarrow> Fail e | Fault \<Rightarrow> Fault | OutOfFuel \<Rightarrow> OutOfFuel)"

definition copy_str :: "bytes \<Rightarrow> (bytes \<times> bytes) dres" where
  "copy_str bs =
     (case read_be 2 bs of (n :: u16, r) \<Rightarrow>
        if length r < unat n then Fault else Got (take (unat n) r, drop (unat n) r))"

definition read_endpoint :: "bytes \<Rightarrow> (Endpoint \<times> bytes) dres" where
  "read_endpoint bs =
     pbind (copy_str bs) (\<lambda>(scheme, r).
     pbind (copy_str r) (\<lambda>(host, r).
     case read_be 2 r of (port, r) \<Rightarrow>
     pbind (copy_str r) (\<lambda>(path, r).
       Got (\<lparr>ep_scheme = scheme, ep_host = host, ep_port = port, ep_path = path\<rparr>, r))))"

definition read_mapped_address :: "bytes \<Rightarrow> MappedAddress \<times> bytes" where
  "read_mapped_address bs =
     (case bs of
        [] \<Rightarrow> (no_address, bs)
      | b # r \<Rightarrow>
          if b = 0 then (no_address, r)
          else if length r < 2 then (no_address, r)
          else case read_be 2 r of (n :: u16, r) \<Rightarrow>
            if length r < unat n then (no_address, r)
            else
              let a = no_address\<lparr>mapped_ip := take (unat n) r\<rparr>; r = drop (unat n) r
              in if length r < 2 then (a, r)
                 else case read_be 2 r of (port, r) \<Rightarrow>
                   let a = a\<lparr>mapped_port := port\<rparr>
                   in case r of
                        [] \<Rightarrow> (a, r)
                      | six # r \<Rightarrow>
                          let a = a\<lparr>mapped_is_ipv6 := (six \<noteq> 0)\<rparr>
                          in if 8 \<le> length r
                             then (case read_be 8 r of (t, r) \<Rightarrow> (a\<lparr>mapped_discovered_at := t\<rparr>, r))
                             else (a, r))"

definition read_str :: "bytes \<Rightarrow> bytes \<times> bytes" where
  "read_str bs =
     (if length bs < 2 then ([], bs)
      else case read_be 2 bs of (n :: u16, r) \<Rightarrow>
        if length r < unat n then ([], r) else (take (unat n) r, drop (unat n) r))"

primrec read_str_loop :: "nat \<Rightarrow> bytes \<Rightarrow> bytes list \<times> bytes" where
  "read_str_loop 0 bs = ([], bs)"
| "read_str_loop (Suc n) bs =
     (case read_str bs of (s, r) \<Rightarrow>
        if s = [] \<and> r = [] then ([], r)
        else (case read_str_loop n r of (xs, r) \<Rightarrow> (s # xs, r)))"

definition read_str_vec :: "bytes \<Rightarrow> bytes list \<times> bytes" where
  "read_str_vec bs =
     (if length bs < 2 then ([], bs)
      else case read_be 2 bs of (n :: u16, r) \<Rightarrow> read_str_loop (unat n) r)"

definition read_u8_or :: "byte \<Rightarrow> bytes \<Rightarrow> byte \<times> bytes" where
  "read_u8_or b bs = (case bs of [] \<Rightarrow> (b, []) | x # r \<Rightarrow> (x, r))"

definition read_ice_candidates :: "nat \<Rightarrow> bytes \<Rightarrow> (Candidate list \<times> bytes) dres" where
  "read_ice_candidates f bs =
     (if length bs < 4 then Got ([], bs)
      else case read_be 4 bs of (n :: u32, r) \<Rightarrow>
        if n = 0 \<or> length r < unat n then Got ([], r)
        else case decode_candidates_cbor f (take (unat n) r) of
          Got cs \<Rightarrow> Got (cs, drop (unat n) r)
        | Fail e \<Rightarrow> Got ([], drop (unat n) r)
        | Fault \<Rightarrow> Fault
        | OutOfFuel \<Rightarrow> OutOfFuel)"

abbreviation err_peer :: error_code where
  "err_peer \<equiv> smo_err CatDiscovery 400 Info RetrySafe RecNone"

definition peer_deserialize :: "nat \<Rightarrow> bytes \<Rightarrow> PeerRecord dres" where
  "peer_deserialize f data =
     (if length data < 32 then Fail err_peer
      else if drop 32 data = [] then Fail err_peer
      else
        case read_be 8 (drop 33 data) of (seen, r) \<Rightarrow>
        case read_u8_or 0 r of (misses, r) \<Rightarrow>
        case read_str r of (display, r) \<Rightarrow>
        case read_str r of (host, r) \<Rightarrow>
        case read_str r of (mesh, r) \<Rightarrow>
        case read_u8_or Role_Reader r of (rol, r) \<Rightarrow>
        case read_str_vec r of (tgs, r) \<Rightarrow>
        case read_str r of (plat, r) \<Rightarrow>
        case read_str r of (arc, r) \<Rightarrow>
        case read_str r of (vers, r) \<Rightarrow>
        case read_str r of (loc, r) \<Rightarrow>
        case read_str_vec r of (als, r) \<Rightarrow>
        pbind (read_endpoint r) (\<lambda>(ep, r).
          case read_mapped_address r of (mapped, r) \<Rightarrow>
          case read_u8_or 0 r of (relay, r) \<Rightarrow>
          case (if 8 \<le> length r then (case read_be 8 r of (us, r) \<Rightarrow> (rtt_of_us us, r)) else (0, r)) of (rtt, r) \<Rightarrow>
          pbind (read_ice_candidates f r) (\<lambda>(cs, r).
            Got \<lparr>pr_node_id = take 32 data, display_name = display, hostname = host, mesh_name = mesh,
              pr_role = rol, tags = tgs, platform = plat, arch = arc, pr_version = vers, location = loc,
              aliases = als, pr_endpoint = ep, mapped_address = mapped, relay_capable = (relay \<noteq> 0),
              pr_state = peer_state_of (data ! 32), last_seen = seen, ping_misses = ucast misses,
              pr_rtt = rtt, ice_candidates = cs\<rparr>)))"

section \<open>Records are read back\<close>

lemma pbind_simps [simp]:
  "pbind (Got x) k = k x" "pbind (Fail e) k = Fail e" "pbind Fault k = Fault" "pbind OutOfFuel k = OutOfFuel"
  by (simp_all add: pbind_def)

lemma unat_u16: "n < 2 ^ 16 \<Longrightarrow> unat (word_of_nat n :: u16) = n"
  by (rule unat_of_nat_lt) simp

lemma unat_u32: "n < 2 ^ 32 \<Longrightarrow> unat (word_of_nat n :: u32) = n"
  by (rule unat_of_nat_lt) simp

definition short :: "bytes \<Rightarrow> bool" where
  "short s \<longleftrightarrow> length s < 2 ^ 16"

lemma copy_str_write: "short s \<Longrightarrow> copy_str (write_str s @ r) = Got (s, r)"
  by (simp add: copy_str_def write_str_def wire_simps unat_u16 short_def)

lemma read_str_write: "short s \<Longrightarrow> read_str (write_str s @ r) = (s, r)"
  by (simp add: read_str_def write_str_def wire_simps unat_u16 short_def)

lemma read_str_loop_write:
  "list_all short xs \<Longrightarrow> r \<noteq> [] \<Longrightarrow> read_str_loop (length xs) (concat (map write_str xs) @ r) = (xs, r)"
  by (induction xs) (auto simp: read_str_write)

lemma read_strs_write:
  "list_all short xs \<Longrightarrow> length xs < 2 ^ 16 \<Longrightarrow> r \<noteq> [] \<Longrightarrow> read_str_vec (write_strs xs @ r) = (xs, r)"
  by (simp add: read_str_vec_def write_strs_def wire_simps unat_u16 read_str_loop_write)

definition endpoint_ok :: "Endpoint \<Rightarrow> bool" where
  "endpoint_ok ep \<longleftrightarrow> short (ep_scheme ep) \<and> short (ep_host ep) \<and> short (ep_path ep)"

lemma read_endpoint_write: "endpoint_ok ep \<Longrightarrow> read_endpoint (write_endpoint ep @ r) = Got (ep, r)"
  by (simp add: read_endpoint_def write_endpoint_def endpoint_ok_def copy_str_write wire_simps)

definition address_ok :: "MappedAddress \<Rightarrow> bool" where
  "address_ok a \<longleftrightarrow> short (mapped_ip a) \<and> (mapped_empty a \<longrightarrow> a = no_address)"

lemma read_mapped_address_write:
  "address_ok a \<Longrightarrow> read_mapped_address (write_mapped_address a @ r) = (a, r)"
  by (cases "mapped_empty a")
    (simp_all add: read_mapped_address_def write_mapped_address_def address_ok_def write_str_def wire_simps
      unat_u16 short_def no_address_def Let_def)

definition candidates_ok :: "Candidate list \<Rightarrow> bool" where
  "candidates_ok cs \<longleftrightarrow>
     list_all cand_storable cs \<and> length (encode_candidates_cbor cs) < 2 ^ 32 \<and> length cs < 2 ^ 64"

lemma encode_candidates_nonempty: "encode_candidates_cbor cs \<noteq> []"
  by (simp add: encode_candidates_cbor_def encode_array_def encode_head_nonempty)

lemma read_ice_candidates_write:
  assumes "candidates_ok cs"
  shows "read_ice_candidates f (write_ice_candidates cs) = Got (cs, [])"
proof (cases "cs = []")
  case True
  have "read_be 4 (write_be 4 (0 :: u32)) = (0 :: u32, [])" using read_be_write [of 4 "0 :: u32" "[]"] by simp
  with True show ?thesis by (simp add: read_ice_candidates_def write_ice_candidates_def)
next
  case False
  let ?d = "encode_candidates_cbor cs"
  have u: "unat (word_of_nat (length ?d) :: u32) = length ?d"
    using assms by (intro unat_u32) (simp add: candidates_ok_def)
  then have "(word_of_nat (length ?d) :: u32) \<noteq> 0" using encode_candidates_nonempty [of cs] by auto
  moreover have "decode_candidates_cbor f ?d = Got cs"
    using assms by (intro ice_candidates_decode) (simp_all add: candidates_ok_def list_all_iff)
  ultimately show ?thesis
    using False u by (simp add: read_ice_candidates_def write_ice_candidates_def wire_simps Let_def)
qed

definition peer_storable :: "PeerRecord \<Rightarrow> bool" where
  "peer_storable p \<longleftrightarrow>
     length (pr_node_id p) = 32 \<and> peer_state_of (peer_state_byte (pr_state p)) = pr_state p
     \<and> unat (ping_misses p) < 256
     \<and> list_all short [display_name p, hostname p, mesh_name p, platform p, arch p, pr_version p, location p]
     \<and> list_all short (tags p) \<and> length (tags p) < 2 ^ 16 \<and> list_all short (aliases p) \<and> length (aliases p) < 2 ^ 16
     \<and> endpoint_ok (pr_endpoint p) \<and> address_ok (mapped_address p) \<and> candidates_ok (ice_candidates p)"

lemma write_nonempty [simp]: "write_endpoint ep \<noteq> []" "write_str s \<noteq> []"
  by (simp_all add: write_endpoint_def write_str_def numeral_2_eq_2)

lemma misses_byte: "unat (w :: 32 word) < 256 \<Longrightarrow> (ucast (ucast w :: byte) :: 32 word) = w"
  using take_bit_small [of w 8] by (simp add: unsigned_ucast_eq)

text \<open>What stands before the candidates, and how the rest of a record is read after it.\<close>

definition peer_head :: "(f64 \<Rightarrow> u64) \<Rightarrow> PeerRecord \<Rightarrow> bytes" where
  "peer_head ub p =
     write_be 8 (last_seen p) @ [ucast (ping_misses p)]
     @ write_str (display_name p) @ write_str (hostname p) @ write_str (mesh_name p) @ [pr_role p]
     @ write_strs (tags p) @ write_str (platform p) @ write_str (arch p) @ write_str (pr_version p)
     @ write_str (location p) @ write_strs (aliases p)
     @ write_endpoint (pr_endpoint p) @ write_mapped_address (mapped_address p)
     @ [if relay_capable p then 1 else 0] @ write_be 8 (rtt_to_us ub (pr_rtt p))"

lemma peer_serialize_head:
  "peer_serialize ub p =
     pr_node_id p @ peer_state_byte (pr_state p) # peer_head ub p @ write_ice_candidates (ice_candidates p)"
  by (simp add: peer_serialize_def peer_head_def)

lemma peer_deserialize_head:
  assumes "peer_storable p"
  shows "peer_deserialize f (pr_node_id p @ peer_state_byte (pr_state p) # peer_head ub p @ tail) =
     pbind (read_ice_candidates f tail) (\<lambda>(cs, r). Got (p\<lparr>pr_rtt := rtt_of_us (rtt_to_us ub (pr_rtt p)), ice_candidates := cs\<rparr>))"
proof -
  note wr = read_str_write read_strs_write read_endpoint_write read_mapped_address_write misses_byte read_u8_or_def
  let ?d = "pr_node_id p @ peer_state_byte (pr_state p) # peer_head ub p @ tail"
  have upd: "p\<lparr>pr_rtt := t, ice_candidates := cs\<rparr> =
      \<lparr>pr_node_id = pr_node_id p, display_name = display_name p, hostname = hostname p, mesh_name = mesh_name p,
       pr_role = pr_role p, tags = tags p, platform = platform p, arch = arch p, pr_version = pr_version p,
       location = location p, aliases = aliases p, pr_endpoint = pr_endpoint p, mapped_address = mapped_address p,
       relay_capable = relay_capable p, pr_state = pr_state p, last_seen = last_seen p, ping_misses = ping_misses p,
       pr_rtt = t, ice_candidates = cs\<rparr>" for t cs
    by (cases p) simp
  have nid: "length (pr_node_id p) = 32" using assms by (simp add: peer_storable_def)
  have fields: "\<not> length ?d < 32" "drop 32 ?d \<noteq> []" "take 32 ?d = pr_node_id p" "?d ! 32 = peer_state_byte (pr_state p)"
    and rest: "drop 33 ?d = peer_head ub p @ tail"
    using nid by (simp_all add: nth_append)
  show ?thesis
    using assms unfolding peer_deserialize_def rest fields(3,4) if_not_P [OF fields(1)] if_not_P [OF fields(2)]
    by (simp add: peer_head_def wr wire_simps peer_storable_def write_nonempty upd)
qed

section \<open>Round-trip times\<close>

lemma thousand: "mag_value (f64_mag f64_thousand) = 1000" "\<not> f64_neg f64_thousand" "\<not> is_nan f64_thousand"
    "\<not> is_inf f64_thousand" "f64_mag f64_thousand \<noteq> 0"
  by (simp_all add: f64_thousand_def f64_mag_def f64_neg_def is_nan_def is_inf_def inf_mag_def mag_value_def)

text \<open>A positive time below 2 to the 40 milliseconds: its product with 1000 is rounded, and the
  fraction of that dropped.\<close>

lemma rtt_to_us_floor:
  assumes "\<not> f64_neg x" "mag_value (f64_mag x) < 2 ^ 40"
  defines "v \<equiv> mag_value (round_mag (mag_value (f64_mag x) * 1000))"
  shows "int (unat (rtt_to_us ub x)) = floor v" "v \<le> of_nat (2 ^ 50)"
proof -
  have "f64_mag x < inf_mag" by (rule below_inf [of "2 ^ 40"]) (use assms(2) in simp_all)
  then have x: "\<not> is_nan x" "\<not> is_inf x" by (simp_all add: is_nan_def is_inf_def)
  have y: "f64_mul x f64_thousand = f64_pack False (round_mag (mag_value (f64_mag x) * 1000))"
    using x assms(1) by (simp add: f64_mul_def thousand)
  show v: "v \<le> of_nat (2 ^ 50)"
    unfolding v_def by (rule round_nat_le) (use assms(2) in simp_all)
  show "int (unat (rtt_to_us ub x)) = floor v"
    using f64_to_u64_floor [of "2 ^ 50" "f64_mul x f64_thousand" ub] v by (simp add: y rtt_to_us_def v_def)
qed

lemma rtt_to_us_near:
  assumes "f64_nonneg x" "f64_value x < 2 ^ 40"
  shows "\<bar>of_nat (unat (rtt_to_us ub x)) - 1000 * f64_value x\<bar> < 1"
proof (cases "f64_mag x = 0")
  case True
  then have "f64_mul x f64_thousand = f64_pack (f64_neg x) 0"
    using assms(1) by (simp add: f64_mul_def f64_nonneg_iff thousand is_inf_def [of x] inf_mag_def round_mag_def)
  then have "rtt_to_us ub x = 0" by (simp add: rtt_to_us_def f64_to_u64_def is_inf_def inf_mag_def)
  then show ?thesis using True by (simp add: f64_value_def)
next
  case False
  let ?q = "mag_value (f64_mag x) * 1000"
  define u where "u = unat (rtt_to_us ub x)"
  have n: "\<not> f64_neg x" and x: "f64_value x = mag_value (f64_mag x)"
    using assms(1) False by (auto simp: f64_nonneg_iff nonneg_value)
  note v = rtt_to_us_floor(1) [OF n assms(2) [unfolded x], of ub, folded u_def]
    rtt_to_us_floor(2) [OF n assms(2) [unfolded x]]
  have "rat_of_nat u = of_int (floor (mag_value (round_mag ?q)))" unfolding v(1) [symmetric] by simp
  then have fl: "of_nat u \<le> mag_value (round_mag ?q)" "mag_value (round_mag ?q) < of_nat u + 1"
    using floor_correct [of "mag_value (round_mag ?q)"] by simp_all
  have "rat_of_nat u \<le> of_nat (2 ^ 50)" using fl(1) v(2) by (rule order_trans)
  then have u: "u \<le> 2 ^ 50" by (simp only: of_nat_le_iff)
  show ?thesis
    using floor_round_near [of ?q u] fl u unfolding u_def [symmetric] x by (simp add: mult.commute)
qed

lemma rtt_whole:
  assumes "n < 2 ^ 40"
  shows "rtt_of_us (rtt_to_us ub (f64_of_int (int n))) = f64_of_int (int n)"
proof -
  have n: "n < 2 ^ 53" "1000 * n < 2 ^ 53" using assms by simp_all
  note x = f64_of_nat [OF n(1)] and y = f64_of_nat [OF n(2)]
  have "rat_of_nat n < of_nat (2 ^ 40)" using assms by (simp only: of_nat_less_iff)
  then have "mag_value (f64_mag (f64_of_int (int n))) < 2 ^ 40" by (simp add: x(1))
  from rtt_to_us_floor(1) [OF x(2) this, of ub]
  have "int (unat (rtt_to_us ub (f64_of_int (int n)))) = floor (mag_value (round_mag (of_nat (1000 * n))))"
    by (simp add: x(1) mult.commute)
  also have "\<dots> = int (1000 * n)" unfolding round_nat [OF n(2)] by (rule floor_of_nat)
  finally have "uint (rtt_to_us ub (f64_of_int (int n))) = int (1000 * n)" by simp
  then have "rtt_of_us (rtt_to_us ub (f64_of_int (int n))) = f64_pack False (round_mag (of_nat n))"
    using y by (simp add: rtt_of_us_def f64_div_def thousand)
  then show ?thesis by (simp add: f64_of_int_def)
qed


definition sample_peer :: PeerRecord where
  "sample_peer = peer_new\<lparr>display_name := [65], tags := [[1], []], pr_state := PeerOnline, last_seen := 7,
     ice_candidates := [cand_new\<lparr>cand_ip := [1]\<rparr>]\<rparr>"

lemma sample_peer_storable: "peer_storable (sample_peer\<lparr>pr_rtt := t\<rparr>)"
  by (simp add: peer_storable_def sample_peer_def peer_new_def short_def endpoint_ok_def no_endpoint_def
      address_ok_def no_address_def peer_state_of_def candidates_ok_def cand_storable_def cand_new_def ctype_of_def
      encode_candidates_cbor_def encode_candidate_def encode_array_def encode_map_def encode_uint_def encode_string_def
      encode_head_def)


text \<open>A count of microseconds does not survive being read and written again: 1001 of them come
  back as 1000, since the product of 1000 and the double next to 1.001 is rounded below 1001.\<close>

lemma rtt_drifts: "rtt_to_us ub (rtt_of_us 1001) = 1000"
proof -
  have c: "round_mag (1001 / 1000) = 0x3FF004189374BC6A"
    by (subst round_mag_at [of 0]) (simp_all add: pow2_def round_even_def inf_mag_def Let_def floor_numeral_div)
  have d: "round_mag (mag_value 0x3FF004189374BC6A * 1000) = 0x408F47FFFFFFFFFF"
    by (subst round_mag_at [of 9])
      (simp_all add: pow2_def round_even_def inf_mag_def Let_def mag_value_def floor_numeral_div)
  have "rtt_of_us 1001 = f64_pack False (round_mag (1001 / 1000))"
    using f64_of_nat [of 1001] by (simp add: rtt_of_us_def f64_div_def thousand)
  then have x: "f64_mag (rtt_of_us 1001) = 0x3FF004189374BC6A" "\<not> f64_neg (rtt_of_us 1001)"
    by (simp_all only: c) (simp_all add: mag_pack neg_pack inf_mag_def)
  have "int (unat (rtt_to_us ub (rtt_of_us 1001))) = floor (mag_value 0x408F47FFFFFFFFFF)"
    using rtt_to_us_floor(1) [OF x(2), of ub] unfolding x(1) d by (simp add: mag_value_def)
  also have "\<dots> = 1000" by (simp add: mag_value_def floor_numeral_div)
  finally have "uint (rtt_to_us ub (rtt_of_us 1001)) = 1000" by simp
  then show ?thesis by (simp add: word_uint_eq_iff)
qed

end
