(* ===== verification/Membership.thy ===== *)
theory Membership
  imports Peer "HOL-Library.AList"
begin

text \<open>
  The membership table and the health monitor (core/discovery/discovery.hpp, .cpp).
  Both are hash maps keyed by the first eight bytes of a node id, here association
  lists with distinct keys; a loop over the map follows the list.  int64_t times are
  read as signed numbers.
\<close>

section \<open>The table\<close>

type_synonym i32 = "32 word"

definition to_key :: "bytes \<Rightarrow> u64" where
  "to_key i = read_le 8 i"

record MembershipTable =
  records :: "(u64 \<times> PeerRecord) list"
  capacity :: nat

definition table_new :: MembershipTable where
  "table_new = \<lparr>records = [], capacity = 1000\<rparr>"

definition table_upsert :: "PeerRecord \<Rightarrow> MembershipTable \<Rightarrow> MembershipTable \<times> unit result" where
  "table_upsert p t =
     (let key = to_key (pr_node_id p)
      in case map_of (records t) key of
           Some _ \<Rightarrow> (t\<lparr>records := AList.update key p (records t)\<rparr>, Ok ())
         | None \<Rightarrow>
             if capacity t \<le> length (records t) then (t, Err (smo_err CatDiscovery 405 Warn NoRetry RecNone))
             else (t\<lparr>records := AList.update key p (records t)\<rparr>, Ok ()))"

definition table_lookup :: "bytes \<Rightarrow> MembershipTable \<Rightarrow> PeerRecord result" where
  "table_lookup i t = (case map_of (records t) (to_key i) of None \<Rightarrow> Err err_peer | Some p \<Rightarrow> Ok p)"

definition lookup_by_name :: "bytes \<Rightarrow> MembershipTable \<Rightarrow> PeerRecord result" where
  "lookup_by_name n t =
     (case find (\<lambda>(k, p). display_name p = n \<or> n \<in> set (aliases p)) (records t) of
        None \<Rightarrow> Err err_peer | Some (k, p) \<Rightarrow> Ok p)"

definition peers :: "MembershipTable \<Rightarrow> PeerRecord list" where
  "peers t = map snd (records t)"

definition peers_with_state :: "PeerState \<Rightarrow> MembershipTable \<Rightarrow> PeerRecord list" where
  "peers_with_state s t = filter (\<lambda>p. pr_state p = s) (peers t)"

definition peers_by_role :: "Role \<Rightarrow> MembershipTable \<Rightarrow> PeerRecord list" where
  "peers_by_role r t = filter (\<lambda>p. pr_role p = r) (peers t)"

definition peers_by_tag :: "bytes \<Rightarrow> MembershipTable \<Rightarrow> PeerRecord list" where
  "peers_by_tag tag t = filter (\<lambda>p. tag \<in> set (tags p)) (peers t)"

definition peers_by_os :: "bytes \<Rightarrow> MembershipTable \<Rightarrow> PeerRecord list" where
  "peers_by_os os t = filter (\<lambda>p. platform p = os) (peers t)"

definition peers_by_arch :: "bytes \<Rightarrow> MembershipTable \<Rightarrow> PeerRecord list" where
  "peers_by_arch a t = filter (\<lambda>p. arch p = a) (peers t)"

definition peers_by_mesh :: "bytes \<Rightarrow> MembershipTable \<Rightarrow> PeerRecord list" where
  "peers_by_mesh n t = filter (\<lambda>p. mesh_name p = n) (peers t)"

definition table_remove :: "bytes \<Rightarrow> MembershipTable \<Rightarrow> MembershipTable \<times> unit result" where
  "table_remove i t =
     (case map_of (records t) (to_key i) of
        None \<Rightarrow> (t, Err err_peer)
      | Some _ \<Rightarrow> (t\<lparr>records := AList.delete (to_key i) (records t)\<rparr>, Ok ()))"

definition table_serialize :: "(f64 \<Rightarrow> u64) \<Rightarrow> MembershipTable \<Rightarrow> bytes" where
  "table_serialize ub t =
     write_be 4 (of_nat (length (records t)) :: u32)
     @ concat (map (\<lambda>(k, p). let ser = peer_serialize ub p in write_be 4 (of_nat (length ser) :: u32) @ ser) (records t))"

primrec table_loop :: "nat \<Rightarrow> nat \<Rightarrow> bytes \<Rightarrow> (u64 \<times> PeerRecord) list \<Rightarrow> (u64 \<times> PeerRecord) list dres" where
  "table_loop f 0 bs rs = Got rs"
| "table_loop f (Suc n) bs rs =
     (if length bs < 4 then Got rs
      else case read_be 4 bs of (len :: u32, r) \<Rightarrow>
        if length r < unat len then Got rs
        else case peer_deserialize f (take (unat len) r) of
          Got p \<Rightarrow>
            (let key = to_key (pr_node_id p)
             in table_loop f n (drop (unat len) r)
                  (case map_of rs key of None \<Rightarrow> AList.update key p rs | Some _ \<Rightarrow> rs))
        | Fail e \<Rightarrow> table_loop f n (drop (unat len) r) rs
        | Fault \<Rightarrow> Fault
        | OutOfFuel \<Rightarrow> OutOfFuel)"

definition table_deserialize :: "nat \<Rightarrow> bytes \<Rightarrow> MembershipTable dres" where
  "table_deserialize f data =
     (case read_be 4 data of (cnt :: u32, r) \<Rightarrow>
        pbind (table_loop f (unat cnt) r []) (\<lambda>rs. Got (table_new\<lparr>records := rs\<rparr>)))"

section \<open>The monitor\<close>

record PingRecord =
  sent_at :: i64
  misses :: i32

type_synonym HealthMonitor = "(u64 \<times> PingRecord) list"

definition record_ping :: "bytes \<Rightarrow> i64 \<Rightarrow> HealthMonitor \<Rightarrow> HealthMonitor" where
  "record_ping i now hm =
     (case map_of hm (to_key i) of
        None \<Rightarrow> AList.update (to_key i) \<lparr>sent_at = now, misses = 1\<rparr> hm
      | Some p \<Rightarrow> AList.update (to_key i) (p\<lparr>sent_at := now, misses := misses p + 1\<rparr>) hm)"

definition record_pong :: "bytes \<Rightarrow> i64 \<Rightarrow> HealthMonitor \<Rightarrow> HealthMonitor" where
  "record_pong i now hm =
     (case map_of hm (to_key i) of
        None \<Rightarrow> AList.update (to_key i) \<lparr>sent_at = now, misses = 0\<rparr> hm
      | Some p \<Rightarrow> AList.update (to_key i) (p\<lparr>misses := 0, sent_at := now\<rparr>) hm)"

definition ping_expired :: "i64 \<Rightarrow> i64 \<Rightarrow> PingRecord \<Rightarrow> bool" where
  "ping_expired now timeout p \<longleftrightarrow> misses p \<noteq> 0 \<and> sint timeout < sint now - sint (sent_at p)"

definition tick_ping :: "i64 \<Rightarrow> i64 \<Rightarrow> PingRecord \<Rightarrow> PingRecord" where
  "tick_ping now timeout p =
     (if ping_expired now timeout p then p\<lparr>misses := misses p + 1, sent_at := now\<rparr> else p)"

definition tick_table :: "i64 \<Rightarrow> i64 \<Rightarrow> i32 \<Rightarrow> u64 \<times> PingRecord \<Rightarrow> MembershipTable \<Rightarrow> MembershipTable" where
  "tick_table now timeout max_misses e t =
     (case e of (key, p) \<Rightarrow>
        if \<not> ping_expired now timeout p then t
        else
          let n = misses p + 1
          in case map_of (records t) key of
               None \<Rightarrow> t
             | Some rec \<Rightarrow>
                 fst (table_upsert (rec\<lparr>pr_state := (if sint max_misses \<le> sint n then PeerOffline else PeerSuspect),
                                       ping_misses := n\<rparr>) t))"

definition monitor_tick ::
  "i64 \<Rightarrow> i64 \<Rightarrow> i32 \<Rightarrow> HealthMonitor \<Rightarrow> MembershipTable \<Rightarrow> HealthMonitor \<times> MembershipTable" where
  "monitor_tick now timeout max_misses hm t =
     (map (\<lambda>(k, p). (k, tick_ping now timeout p)) hm, fold (tick_table now timeout max_misses) hm t)"

definition monitor_state :: "bytes \<Rightarrow> HealthMonitor \<Rightarrow> PeerState" where
  "monitor_state i hm =
     (case map_of hm (to_key i) of
        None \<Rightarrow> PeerUnknown
      | Some p \<Rightarrow> if 3 \<le> sint (misses p) then PeerOffline
                  else if 0 < sint (misses p) then PeerSuspect else PeerOnline)"

definition monitor_misses :: "bytes \<Rightarrow> HealthMonitor \<Rightarrow> i32" where
  "monitor_misses i hm = (case map_of hm (to_key i) of None \<Rightarrow> 0 | Some p \<Rightarrow> misses p)"

section \<open>Well-formed tables\<close>

definition table_wf :: "MembershipTable \<Rightarrow> bool" where
  "table_wf t \<longleftrightarrow>
     distinct (map fst (records t)) \<and> (\<forall>(k, p) \<in> set (records t). k = to_key (pr_node_id p))
     \<and> length (records t) \<le> capacity t"

lemma table_wf_key: "table_wf t \<Longrightarrow> map_of (records t) k = Some p \<Longrightarrow> k = to_key (pr_node_id p)"
  by (auto simp: table_wf_def dest!: map_of_SomeD)

lemma set_update: "distinct (map fst al) \<Longrightarrow> set (AList.update k v al) = {(k, v)} \<union> {e \<in> set al. fst e \<noteq> k}"
  by (induction al) (auto simp: rev_image_eqI)

lemma length_update: "length (AList.update k v al) = (if k \<in> fst ` set al then length al else Suc (length al))"
  by (induction al) auto

lemma table_wf_upsert:
  assumes "table_wf t"
  shows "table_wf (fst (table_upsert p t))" "capacity (fst (table_upsert p t)) = capacity t"
proof -
  show "capacity (fst (table_upsert p t)) = capacity t" by (simp add: table_upsert_def Let_def split: option.split)
  have "table_wf (t\<lparr>records := AList.update (to_key (pr_node_id p)) p (records t)\<rparr>)"
    if "length (AList.update (to_key (pr_node_id p)) p (records t)) \<le> capacity t"
    using assms that by (auto simp: table_wf_def set_update update_keys)
  moreover have "to_key (pr_node_id p) \<in> fst ` set (records t)" if "map_of (records t) (to_key (pr_node_id p)) = Some q" for q
    using that by (metis domI dom_map_of_conv_image_fst)
  ultimately show "table_wf (fst (table_upsert p t))"
    using assms by (auto simp: table_upsert_def Let_def length_update table_wf_def split: option.split)
qed

lemma lookup_upsert:
  "is_ok (snd (table_upsert p t)) \<Longrightarrow>
     map_of (records (fst (table_upsert p t))) = (map_of (records t))(to_key (pr_node_id p) \<mapsto> p)"
  "\<not> is_ok (snd (table_upsert p t)) \<Longrightarrow> fst (table_upsert p t) = t"
  by (auto simp: table_upsert_def Let_def update_conv' split: option.splits if_splits)

lemma upsert_known: "map_of (records t) (to_key (pr_node_id p)) = Some q \<Longrightarrow> is_ok (snd (table_upsert p t))"
  by (simp add: table_upsert_def Let_def)

lemma table_wf_remove:
  assumes "table_wf t"
  shows "table_wf (fst (table_remove i t))" "capacity (fst (table_remove i t)) = capacity t"
proof -
  show "capacity (fst (table_remove i t)) = capacity t" by (simp add: table_remove_def split: option.split)
  show "table_wf (fst (table_remove i t))"
    using assms
    by (auto intro: le_trans [OF length_filter_le] simp: table_remove_def table_wf_def AList.delete_eq distinct_map_filter split: option.split)
qed

lemma table_wf_tick: "table_wf t \<Longrightarrow> table_wf (tick_table now timeout mm e t) \<and> capacity (tick_table now timeout mm e t) = capacity t"
  by (auto simp: tick_table_def Let_def table_wf_upsert split: prod.split option.split)

lemma table_wf_ticks:
  "table_wf t \<Longrightarrow> table_wf (fold (tick_table now timeout mm) hm t) \<and> capacity (fold (tick_table now timeout mm) hm t) = capacity t"
  by (induction hm arbitrary: t) (auto simp: table_wf_tick)

text \<open>The state a table shows of a peer, by key.\<close>

lemma tick_table_lookup:
  assumes "table_wf t"
  shows "map_of (records (tick_table now timeout mm (k, p) t)) =
     (if ping_expired now timeout p
      then (case map_of (records t) k of None \<Rightarrow> map_of (records t)
            | Some rec \<Rightarrow> (map_of (records t))(k \<mapsto> rec\<lparr>pr_state := (if sint mm \<le> sint (misses p + 1) then PeerOffline else PeerSuspect),
                             ping_misses := misses p + 1\<rparr>))
      else map_of (records t))"
proof (cases "map_of (records t) k")
  case (Some rec)
  let ?q = "rec\<lparr>pr_state := (if sint mm \<le> sint (misses p + 1) then PeerOffline else PeerSuspect), ping_misses := misses p + 1\<rparr>"
  have k: "to_key (pr_node_id ?q) = k" using table_wf_key [OF assms Some] by simp
  then have "is_ok (snd (table_upsert ?q t))" using Some upsert_known [of t ?q] by simp
  from lookup_upsert(1) [OF this] k show ?thesis using Some by (simp add: tick_table_def Let_def)
qed (simp add: tick_table_def Let_def)

lemma read_le_take: "read_le n (take n bs) = read_le n bs"
  by (induction n arbitrary: bs) (auto split: list.split)

section \<open>Silent peers\<close>

definition judged :: "i32 \<Rightarrow> PingRecord \<Rightarrow> PeerRecord \<Rightarrow> PeerRecord" where
  "judged mm p rec = rec\<lparr>pr_state := (if sint mm \<le> sint (misses p + 1) then PeerOffline else PeerSuspect),
     ping_misses := misses p + 1\<rparr>"

lemma ticks_lookup:
  "\<lbrakk>table_wf t; distinct (map fst hm)\<rbrakk> \<Longrightarrow>
     map_of (records (fold (tick_table now timeout mm) hm t)) k =
     (case map_of hm k of
        None \<Rightarrow> map_of (records t) k
      | Some p \<Rightarrow> if ping_expired now timeout p then map_option (judged mm p) (map_of (records t) k)
                  else map_of (records t) k)"
proof (induction hm arbitrary: t)
  case (Cons e hm)
  obtain k' p where e: "e = (k', p)" by (cases e)
  let ?t = "tick_table now timeout mm e t"
  have wf: "table_wf ?t" using Cons.prems(1) by (simp add: table_wf_tick)
  have "k' \<notin> fst ` set hm" using Cons.prems(2) e by simp
  then have none: "map_of hm k' = None" by (simp add: map_of_eq_None_iff)
  show ?case
  proof (cases "k = k'")
    case True
    then show ?thesis
      using Cons.IH [OF wf] Cons.prems e none tick_table_lookup [OF Cons.prems(1), of now timeout mm k' p]
      by (auto simp: judged_def split: option.split)
  next
    case False
    then have "map_of (records ?t) k = map_of (records t) k"
      using tick_table_lookup [OF Cons.prems(1), of now timeout mm k' p] e by (auto split: option.split)
    then show ?thesis using Cons.IH [OF wf] Cons.prems e False by (simp split: option.split)
  qed
qed simp

lemma map_of_tick: "map_of (map (\<lambda>(k, p). (k, g p)) hm) k = map_option g (map_of hm k)"
  by (induction hm) auto

text \<open>
  C35. A peer that does not answer is found out: once a ping to it has been recorded
  and no pong follows, a tick more than five seconds later shows it as Suspect with
  two misses, and another tick more than five seconds after that as Offline with
  three, in the table and in the monitor alike, whatever other peers there are.  Five
  seconds and three misses are the defaults of the code, and the ping is the first one to the
  peer.  RFC 0015 has three missed pings before Suspect and three more cycles before
  Offline: the code is earlier, since the ping itself counts as a miss and any late tick
  before the third miss makes a peer Suspect.
\<close>

theorem silent_peer_goes_offline:
  assumes "table_wf t" "distinct (map fst hm)" "map_of hm (to_key i) = None"
    and "map_of (records t) (to_key i) = Some rec"
    and "sint t0 + 5000000000 < sint t1" "sint t1 + 5000000000 < sint t2"
    and "monitor_tick t1 5000000000 3 (record_ping i t0 hm) t = (hm1, tb1)"
    and "monitor_tick t2 5000000000 3 hm1 tb1 = (hm2, tb2)"
  shows "table_lookup i tb1 = Ok (rec\<lparr>pr_state := PeerSuspect, ping_misses := 2\<rparr>)
       \<and> monitor_state i hm1 = PeerSuspect
       \<and> table_lookup i tb2 = Ok (rec\<lparr>pr_state := PeerOffline, ping_misses := 3\<rparr>)
       \<and> monitor_state i hm2 = PeerOffline"
proof -
  let ?k = "to_key i" and ?hm = "record_ping i t0 hm"
  have five: "sint (5000000000 :: i64) = 5000000000" by simp
  have s: "sint (2 :: i32) = 2" "sint (3 :: i32) = 3" by simp_all
  have hm: "map_of ?hm ?k = Some \<lparr>sent_at = t0, misses = 1\<rparr>" and d0: "distinct (map fst ?hm)"
    using assms(2,3) by (simp_all add: record_ping_def update_conv' update_keys)
  have hm1: "hm1 = map (\<lambda>(k, p). (k, tick_ping t1 5000000000 p)) ?hm"
    and tb1: "tb1 = fold (tick_table t1 5000000000 3) ?hm t"
    and hm2: "hm2 = map (\<lambda>(k, p). (k, tick_ping t2 5000000000 p)) hm1"
    and tb2: "tb2 = fold (tick_table t2 5000000000 3) hm1 tb1"
    using assms(7,8) by (simp_all add: monitor_tick_def)
  have e1: "ping_expired t1 5000000000 \<lparr>sent_at = t0, misses = 1\<rparr>" using assms(5) five by (simp add: ping_expired_def)
  have m1: "map_of hm1 ?k = Some \<lparr>sent_at = t1, misses = 2\<rparr>"
    using hm e1 by (simp add: hm1 map_of_tick tick_ping_def)
  have e2: "ping_expired t2 5000000000 \<lparr>sent_at = t1, misses = 2\<rparr>" using assms(6) five by (simp add: ping_expired_def)
  have m2: "map_of hm2 ?k = Some \<lparr>sent_at = t2, misses = 3\<rparr>"
    using m1 e2 by (simp add: hm2 map_of_tick tick_ping_def)
  have l1: "map_of (records tb1) ?k = Some (rec\<lparr>pr_state := PeerSuspect, ping_misses := 2\<rparr>)"
    using ticks_lookup [OF assms(1) d0, of t1 5000000000 3 ?k] hm e1 assms(4) s by (simp add: tb1 judged_def)
  have wf1: "table_wf tb1" using assms(1) by (simp add: tb1 table_wf_ticks)
  have d1: "distinct (map fst hm1)" using d0 by (simp add: hm1 comp_def case_prod_beta)
  have l2: "map_of (records tb2) ?k = Some (rec\<lparr>pr_state := PeerOffline, ping_misses := 3\<rparr>)"
    using ticks_lookup [OF wf1 d1, of t2 5000000000 3 ?k] m1 e2 l1 s by (simp add: tb2 judged_def)
  show ?thesis using l1 l2 m1 m2 s by (simp add: table_lookup_def monitor_state_def)
qed

definition sample_table :: MembershipTable where
  "sample_table = fst (table_upsert peer_new table_new)"

theorem silent_peer_goes_offline_witness:
  "table_lookup (replicate 32 0) (snd (monitor_tick 12000000000 5000000000 3
       (fst (monitor_tick 6000000000 5000000000 3 (record_ping (replicate 32 0) 0 []) sample_table))
       (snd (monitor_tick 6000000000 5000000000 3 (record_ping (replicate 32 0) 0 []) sample_table)))) =
   Ok (peer_new\<lparr>pr_state := PeerOffline, ping_misses := 3\<rparr>)"
proof -
  let ?i = "replicate 32 0 :: bytes"
  have wf: "table_wf sample_table"
    unfolding sample_table_def by (rule table_wf_upsert) (simp add: table_wf_def table_new_def)
  have rec: "map_of (records sample_table) (to_key ?i) = Some peer_new"
    by (simp add: sample_table_def table_upsert_def table_new_def peer_new_def)
  have times: "sint (0 :: i64) + 5000000000 < sint (6000000000 :: i64)"
      "sint (6000000000 :: i64) + 5000000000 < sint (12000000000 :: i64)"
    by simp_all
  show ?thesis
    using silent_peer_goes_offline [OF wf _ _ rec times prod.collapse [symmetric] prod.collapse [symmetric], of "[]"]
    by simp
qed

text \<open>
  Peers are told apart by eight bytes only: storing a record under a node id
  whose first eight bytes equal those of a known peer replaces that peer's record,
  and from then on looking up the known peer gives the other node's record.
\<close>

lemma key_prefix_takeover:
  assumes "table_lookup victim t = Ok rec" "take 8 (pr_node_id p) = take 8 victim"
    and "8 \<le> length victim" "8 \<le> length (pr_node_id p)"
  shows "snd (table_upsert p t) = Ok () \<and> table_lookup victim (fst (table_upsert p t)) = Ok p"
proof -
  have "to_key (pr_node_id p) = to_key victim"
    using assms(2-4) read_le_take [of 8] by (metis to_key_def)
  then show ?thesis
    using assms(1) by (auto simp: table_lookup_def table_upsert_def Let_def update_conv' split: option.splits)
qed

lemma key_prefix_takeover_example:
  "table_lookup (replicate 32 0)
     (fst (table_upsert (peer_new\<lparr>pr_node_id := replicate 31 0 @ [9]\<rparr>) sample_table)) =
   Ok (peer_new\<lparr>pr_node_id := replicate 31 0 @ [9]\<rparr>)"
proof -
  have "table_lookup (replicate 32 0) sample_table = Ok peer_new"
    by (simp add: table_lookup_def sample_table_def table_upsert_def table_new_def peer_new_def)
  from key_prefix_takeover [OF this, of "peer_new\<lparr>pr_node_id := replicate 31 0 @ [9]\<rparr>"] show ?thesis by simp
qed

end
