(* ===== verification/Membership_Sync.thy ===== *)
theory Membership_Sync
  imports Membership
begin

text \<open>
  Membership events (core/network/sync/membership_sync.hpp, .cpp): changes of the
  membership are numbered, kept in a bounded log, delivered to subscribers and
  exchanged with other nodes.  A callback is a number; calling it appends the event
  to the trace of deliveries.  The operations run one after the other.
\<close>

section \<open>Definitions\<close>

datatype MembershipEventType =
  PeerAdded | PeerRemoved | PeerUpdated | PeerRenamed | CapabilityChange | CertificateRotate | StateChange
| EventInvalid byte

primrec event_byte :: "MembershipEventType \<Rightarrow> byte" where
  "event_byte PeerAdded = 1"
| "event_byte PeerRemoved = 2"
| "event_byte PeerUpdated = 3"
| "event_byte PeerRenamed = 4"
| "event_byte CapabilityChange = 5"
| "event_byte CertificateRotate = 6"
| "event_byte StateChange = 7"
| "event_byte (EventInvalid b) = b"

definition event_of :: "byte \<Rightarrow> MembershipEventType" where
  "event_of b =
     (if b = 1 then PeerAdded else if b = 2 then PeerRemoved else if b = 3 then PeerUpdated
      else if b = 4 then PeerRenamed else if b = 5 then CapabilityChange else if b = 6 then CertificateRotate
      else if b = 7 then StateChange else EventInvalid b)"

record MembershipEvent =
  ev_type :: MembershipEventType
  ev_node_id :: bytes
  timestamp_ns :: i64
  ev_sequence :: u64
  old_display_name :: bytes
  new_display_name :: bytes
  new_role :: Role
  added_caps :: "bytes list"
  removed_caps :: "bytes list"
  ev_endpoint :: Endpoint
  new_state :: PeerState
  new_cert :: Certificate

definition cert_blank :: Certificate where
  "cert_blank =
     \<lparr>subject_pubkey = [], issuer_pubkey = [], mesh_id = [], role = Role_Reader, display_name = [], capabilities = [],
      cert_epoch = 0, not_before = 0, not_after = 0, signature = []\<rparr>"

definition event_new :: "MembershipEventType \<Rightarrow> bytes \<Rightarrow> MembershipEvent" where
  "event_new ty i =
     \<lparr>ev_type = ty, ev_node_id = i, timestamp_ns = 0, ev_sequence = 0, old_display_name = [], new_display_name = [],
      new_role = Role_Reader, added_caps = [], removed_caps = [], ev_endpoint = no_endpoint,
      new_state = PeerUnknown, new_cert = cert_blank\<rparr>"

record MembershipSync =
  ms_table :: MembershipTable
  subscribers :: "(u64 \<times> nat) list"
  next_sub_id :: u64
  ms_sequence :: u64
  event_log :: "MembershipEvent list"
  max_event_log :: nat
  deliveries :: "(nat \<times> MembershipEvent) list"

definition sync_new :: "MembershipTable \<Rightarrow> MembershipSync" where
  "sync_new t =
     \<lparr>ms_table = t, subscribers = [], next_sub_id = 1, ms_sequence = 0, event_log = [], max_event_log = 1000,
      deliveries = []\<rparr>"

definition subscribe :: "nat \<Rightarrow> MembershipSync \<Rightarrow> MembershipSync \<times> u64" where
  "subscribe cb ms =
     (let i = next_sub_id ms; nxt = next_sub_id ms + 1
      in (ms\<lparr>next_sub_id := nxt, subscribers := subscribers ms @ [(nxt, cb)]\<rparr>, i))"

definition unsubscribe :: "u64 \<Rightarrow> MembershipSync \<Rightarrow> MembershipSync" where
  "unsubscribe i ms = ms\<lparr>subscribers := filter (\<lambda>s. fst s \<noteq> i) (subscribers ms)\<rparr>"

definition stamp :: "i64 \<Rightarrow> u64 \<Rightarrow> MembershipEvent \<Rightarrow> MembershipEvent" where
  "stamp now n ev = ev\<lparr>timestamp_ns := now, ev_sequence := n\<rparr>"

definition emit :: "i64 \<Rightarrow> MembershipEvent \<Rightarrow> MembershipSync \<Rightarrow> MembershipSync" where
  "emit now ev ms =
     (let n = ms_sequence ms + 1;
          e = stamp now n ev;
          log = event_log ms @ [e];
          log' = (if max_event_log ms < length log then tl log else log)
      in ms\<lparr>ms_sequence := n, event_log := log',
            deliveries := deliveries ms @ map (\<lambda>(i, cb). (cb, e)) (subscribers ms)\<rparr>)"

definition emit_peer_added :: "i64 \<Rightarrow> PeerRecord \<Rightarrow> MembershipSync \<Rightarrow> MembershipSync" where
  "emit_peer_added now p = emit now ((event_new PeerAdded (pr_node_id p))\<lparr>ev_endpoint := pr_endpoint p\<rparr>)"

definition emit_peer_removed :: "i64 \<Rightarrow> bytes \<Rightarrow> MembershipSync \<Rightarrow> MembershipSync" where
  "emit_peer_removed now i = emit now (event_new PeerRemoved i)"

definition emit_peer_updated :: "i64 \<Rightarrow> PeerRecord \<Rightarrow> PeerRecord \<Rightarrow> MembershipSync \<Rightarrow> MembershipSync" where
  "emit_peer_updated now old p = emit now ((event_new PeerUpdated (pr_node_id p))\<lparr>ev_endpoint := pr_endpoint p\<rparr>)"

definition emit_peer_renamed :: "i64 \<Rightarrow> bytes \<Rightarrow> bytes \<Rightarrow> bytes \<Rightarrow> MembershipSync \<Rightarrow> MembershipSync" where
  "emit_peer_renamed now i old new =
     emit now ((event_new PeerRenamed i)\<lparr>old_display_name := old, new_display_name := new\<rparr>)"

definition emit_capability_changed ::
  "i64 \<Rightarrow> bytes \<Rightarrow> Role \<Rightarrow> Role \<Rightarrow> bytes list \<Rightarrow> bytes list \<Rightarrow> MembershipSync \<Rightarrow> MembershipSync" where
  "emit_capability_changed now i old new added removed =
     emit now ((event_new CapabilityChange i)\<lparr>new_role := new, added_caps := added, removed_caps := removed\<rparr>)"

definition emit_certificate_rotated :: "i64 \<Rightarrow> bytes \<Rightarrow> Certificate \<Rightarrow> MembershipSync \<Rightarrow> MembershipSync" where
  "emit_certificate_rotated now i c = emit now (event_new CertificateRotate i)"

definition emit_state_changed ::
  "i64 \<Rightarrow> bytes \<Rightarrow> PeerState \<Rightarrow> PeerState \<Rightarrow> i32 \<Rightarrow> MembershipSync \<Rightarrow> MembershipSync" where
  "emit_state_changed now i old new n = emit now ((event_new StateChange i)\<lparr>new_state := new\<rparr>)"

section \<open>The wire format\<close>

definition put_str :: "bytes \<Rightarrow> bytes" where
  "put_str s = write_le 2 (of_nat (length s) :: u16) @ s"

definition put_endpoint :: "Endpoint \<Rightarrow> bytes" where
  "put_endpoint ep = put_str (ep_scheme ep) @ put_str (ep_host ep) @ write_le 2 (ep_port ep)"

definition serialize_event_payload :: "MembershipEvent \<Rightarrow> bytes" where
  "serialize_event_payload ev =
     (case ev_type ev of
        PeerAdded \<Rightarrow> put_endpoint (ev_endpoint ev)
      | PeerUpdated \<Rightarrow> put_endpoint (ev_endpoint ev)
      | PeerRemoved \<Rightarrow> []
      | PeerRenamed \<Rightarrow> put_str (old_display_name ev) @ put_str (new_display_name ev)
      | StateChange \<Rightarrow> [peer_state_byte (new_state ev)]
      | CapabilityChange \<Rightarrow>
          [new_role ev] @ write_le 2 (of_nat (length (added_caps ev)) :: u16)
          @ write_le 2 (of_nat (length (removed_caps ev)) :: u16)
          @ concat (map put_str (added_caps ev)) @ concat (map put_str (removed_caps ev))
      | CertificateRotate \<Rightarrow>
          put_str (cert_serialize (new_cert ev))
      | EventInvalid b \<Rightarrow> [])"

definition serialize_event :: "MembershipEvent \<Rightarrow> bytes" where
  "serialize_event ev =
     (let payload = serialize_event_payload ev
      in [event_byte (ev_type ev)] @ ev_node_id ev @ write_le 8 (timestamp_ns ev) @ write_le 8 (ev_sequence ev)
         @ write_le 4 (of_nat (length payload) :: u32) @ payload)"

definition serialize_events :: "MembershipEvent list \<Rightarrow> bytes" where
  "serialize_events evs =
     write_le 4 (of_nat (length evs) :: u32) @ concat (map serialize_event evs)"

definition take_le :: "nat \<Rightarrow> bytes \<Rightarrow> 'a::len word \<times> bytes" where
  "take_le n bs = (if length bs < n then (0, bs) else (read_le n bs, drop n bs))"

definition get_str :: "bytes \<Rightarrow> bytes \<times> bytes" where
  "get_str bs =
     (case take_le 2 bs of (n :: u16, r) \<Rightarrow>
        if length r < unat n then ([], r) else (take (unat n) r, drop (unat n) r))"

primrec get_strs :: "nat \<Rightarrow> bytes \<Rightarrow> bytes list \<times> bytes" where
  "get_strs 0 bs = ([], bs)"
| "get_strs (Suc n) bs = (case get_str bs of (s, r) \<Rightarrow> (case get_strs n r of (xs, r) \<Rightarrow> (s # xs, r)))"

definition get_endpoint :: "bytes \<Rightarrow> Endpoint \<times> bytes" where
  "get_endpoint bs =
     (case get_str bs of (scheme, r) \<Rightarrow>
      case get_str r of (host, r) \<Rightarrow>
      case take_le 2 r of (port, r) \<Rightarrow>
        (\<lparr>ep_scheme = scheme, ep_host = host, ep_port = port, ep_path = []\<rparr>, r))"

definition read_payload :: "bytes \<Rightarrow> MembershipEvent \<Rightarrow> MembershipEvent" where
  "read_payload payload ev =
     (case ev_type ev of
        PeerAdded \<Rightarrow> ev\<lparr>ev_endpoint := fst (get_endpoint payload)\<rparr>
      | PeerUpdated \<Rightarrow> ev\<lparr>ev_endpoint := fst (get_endpoint payload)\<rparr>
      | PeerRemoved \<Rightarrow> ev
      | PeerRenamed \<Rightarrow>
          (case get_str payload of (old, r) \<Rightarrow> ev\<lparr>old_display_name := old, new_display_name := fst (get_str r)\<rparr>)
      | StateChange \<Rightarrow> ev\<lparr>new_state := peer_state_of (fst (take_le 1 payload))\<rparr>
      | CapabilityChange \<Rightarrow>
          (case take_le 1 payload of (rol, r) \<Rightarrow>
           case take_le 2 r of (na :: u16, r) \<Rightarrow>
           case take_le 2 r of (nr :: u16, r) \<Rightarrow>
           case get_strs (unat na) r of (added, r) \<Rightarrow>
             ev\<lparr>new_role := rol, added_caps := added, removed_caps := fst (get_strs (unat nr) r)\<rparr>)
      | CertificateRotate \<Rightarrow>
          (case take_le 2 payload of (n :: u16, r) \<Rightarrow>
             if 0 < n \<and> unat n \<le> length r
             then (case cert_deserialize (take (unat n) r) of Ok c \<Rightarrow> ev\<lparr>new_cert := c\<rparr> | Err e \<Rightarrow> ev)
             else ev)
      | EventInvalid b \<Rightarrow> ev)"

definition apply_event :: "MembershipEvent \<Rightarrow> MembershipTable \<Rightarrow> MembershipTable" where
  "apply_event ev t =
     (if ev_type ev \<in> {PeerAdded, PeerUpdated, StateChange} then
        (let old = (case table_lookup (ev_node_id ev) t of Ok p \<Rightarrow> p | Err e \<Rightarrow> peer_new);
             st = (if ev_type ev = StateChange
                   then (if new_state ev \<noteq> PeerUnknown then new_state ev else PeerOnline) else PeerOnline);
             rec = old\<lparr>pr_node_id := ev_node_id ev, pr_state := st, last_seen := timestamp_ns ev\<rparr>
         in fst (table_upsert
              (if ep_port (ev_endpoint ev) \<noteq> 0 \<and> ep_host (ev_endpoint ev) \<noteq> []
               then rec\<lparr>pr_endpoint := ev_endpoint ev\<rparr> else rec) t))
      else if ev_type ev = PeerRemoved then fst (table_remove (ev_node_id ev) t)
      else t)"

text \<open>One event read off the data; None where the loop breaks.\<close>

definition read_event :: "bytes \<Rightarrow> (MembershipEvent \<times> bytes) option" where
  "read_event bs =
     (case take_le 1 bs of (ty, r) \<Rightarrow>
        if length r < 32 then None
        else
          case take_le 8 (drop 32 r) of (ts, r1) \<Rightarrow>
          case take_le 8 r1 of (sq, r2) \<Rightarrow>
          case take_le 4 r2 of (n :: u32, r3) \<Rightarrow>
            if length r3 < unat n then None
            else Some (read_payload (take (unat n) r3)
                         ((event_new (event_of ty) (take 32 r))\<lparr>timestamp_ns := ts, ev_sequence := sq\<rparr>),
                       drop (unat n) r3))"

definition apply_and_emit :: "i64 \<Rightarrow> MembershipEvent \<Rightarrow> MembershipSync \<Rightarrow> MembershipSync" where
  "apply_and_emit now ev ms = emit now ev (ms\<lparr>ms_table := apply_event ev (ms_table ms)\<rparr>)"

text \<open>The clock is read once per event: it is a function of the events left.\<close>

primrec apply_loop :: "(nat \<Rightarrow> i64) \<Rightarrow> nat \<Rightarrow> bytes \<Rightarrow> MembershipSync \<Rightarrow> MembershipSync" where
  "apply_loop clock 0 bs ms = ms"
| "apply_loop clock (Suc n) bs ms =
     (case read_event bs of
        None \<Rightarrow> ms
      | Some (ev, r) \<Rightarrow> apply_loop clock n r (apply_and_emit (clock n) ev ms))"

definition apply_events :: "(nat \<Rightarrow> i64) \<Rightarrow> bytes \<Rightarrow> MembershipSync \<Rightarrow> MembershipSync" where
  "apply_events clock data ms =
     (case take_le 4 data of (n :: u32, r) \<Rightarrow> apply_loop clock (unat n) r ms)"

definition pending_events :: "u64 \<Rightarrow> MembershipSync \<Rightarrow> MembershipEvent list" where
  "pending_events since ms = rev (takeWhile (\<lambda>e. \<not> ev_sequence e \<le> since) (rev (event_log ms)))"

section \<open>The log\<close>

text \<open>The events a sequence of calls emits, numbered after q.\<close>

primrec stamped :: "u64 \<Rightarrow> (i64 \<times> MembershipEvent) list \<Rightarrow> MembershipEvent list" where
  "stamped q [] = []"
| "stamped q (e # es) = stamp (fst e) (q + 1) (snd e) # stamped (q + 1) es"

definition emit_all :: "(i64 \<times> MembershipEvent) list \<Rightarrow> MembershipSync \<Rightarrow> MembershipSync" where
  "emit_all es ms = fold (\<lambda>(now, ev). emit now ev) es ms"

lemma length_stamped [simp]: "length (stamped q es) = length es"
  by (induction es arbitrary: q) auto

lemma stamped_sequence:
  "\<lbrakk>unat q + length es < 2 ^ 64; e \<in> set (stamped q es)\<rbrakk> \<Longrightarrow> q < ev_sequence e"
proof (induction es arbitrary: q)
  case (Cons x es)
  have q: "unat (q + 1) = Suc (unat q)" using Cons.prems(1) by (subst unat_word_ariths) simp
  then have "q < q + 1" by (simp add: word_less_nat_alt)
  moreover have "q + 1 < ev_sequence e" if "e \<in> set (stamped (q + 1) es)"
    using that q Cons.prems(1) by (intro Cons.IH) simp_all
  ultimately show ?case using Cons.prems(2) by (auto simp: stamp_def)
qed simp

text \<open>A state whose log is bounded and holds no number above the counter.\<close>

definition sync_wf :: "MembershipSync \<Rightarrow> bool" where
  "sync_wf ms \<longleftrightarrow>
     max_event_log ms = 1000 \<and> length (event_log ms) \<le> 1000
     \<and> (\<forall>e \<in> set (event_log ms). ev_sequence e \<le> ms_sequence ms)"

lemma sync_wf_new: "sync_wf (sync_new t)"
  by (simp add: sync_wf_def sync_new_def)

lemma tl_drop_snoc:
  assumes "k \<le> length xs"
  shows "tl (drop k xs @ [x]) = drop (Suc k) (xs @ [x])"
proof -
  have "drop (Suc k) (xs @ [x]) = tl (drop k (xs @ [x]))" by (simp only: drop_Suc tl_drop)
  with assms show ?thesis by simp
qed

lemma emit_all_log:
  assumes "max_event_log ms = 1000" "length (event_log ms) \<le> 1000"
  shows "ms_sequence (emit_all es ms) = ms_sequence ms + of_nat (length es)
    \<and> event_log (emit_all es ms) =
           drop (length (event_log ms) + length es - 1000) (event_log ms @ stamped (ms_sequence ms) es)
    \<and> max_event_log (emit_all es ms) = 1000"
  using assms
proof (induction es arbitrary: ms)
  case (Cons e es)
  let ?m = "emit (fst e) (snd e) ms" and ?x = "stamp (fst e) (ms_sequence ms + 1) (snd e)"
  have log: "event_log ?m = drop (length (event_log ms) - 999) (event_log ms @ [?x])"
  proof (cases "length (event_log ms) = 1000")
    case True
    then show ?thesis using Cons.prems tl_drop_snoc [of 0 "event_log ms" ?x] by (simp add: emit_def Let_def)
  qed (use Cons.prems in \<open>simp add: emit_def Let_def\<close>)
  have m: "max_event_log ?m = 1000" "ms_sequence ?m = ms_sequence ms + 1" "length (event_log ?m) \<le> 1000"
    using Cons.prems log by (simp_all add: emit_def Let_def)
  have "emit_all (e # es) ms = emit_all es ?m" by (simp add: emit_all_def case_prod_beta)
  moreover have "drop (length (event_log ?m) + length es - 1000) (event_log ?m @ ys) =
      drop (length (event_log ms) + length (e # es) - 1000) (event_log ms @ ?x # ys)" for ys
    using Cons.prems(2) log by (cases "length (event_log ms) = 1000") auto
  ultimately show ?case using Cons.IH [OF m(1,3)] m(2) by simp
qed (simp add: emit_all_def)

lemma rev_takeWhile_rev:
  assumes "\<forall>x \<in> set xs. \<not> P x" "\<forall>y \<in> set ys. P y"
  shows "rev (takeWhile P (rev (xs @ ys))) = ys"
proof -
  have "takeWhile P (rev xs) = []" using assms(1) by (cases xs rule: rev_cases) auto
  moreover have "takeWhile P (rev ys @ rev xs) = rev ys @ takeWhile P (rev xs)"
    using assms(2) by (intro takeWhile_append2) simp
  ultimately show ?thesis by simp
qed

text \<open>
  What a peer has not seen is what it is sent: after any number of further events,
  pending_events since the number reached before gives exactly these events, in
  order and numbered consecutively, or the last thousand of them when there are
  more.
\<close>

lemma pending_after_emits:
  assumes "sync_wf ms" "unat (ms_sequence ms) + length es < 2 ^ 64"
  shows "pending_events (ms_sequence ms) (emit_all es ms) = drop (length es - 1000) (stamped (ms_sequence ms) es)"
proof -
  let ?q = "ms_sequence ms" and ?d = "length (event_log ms) + length es - 1000"
  have wf: "max_event_log ms = 1000" "length (event_log ms) \<le> 1000" using assms(1) by (simp_all add: sync_wf_def)
  have log: "event_log (emit_all es ms) = drop ?d (event_log ms) @ drop (length es - 1000) (stamped ?q es)"
    using emit_all_log [OF wf, of es] wf(2) by auto
  have "\<forall>x \<in> set (drop ?d (event_log ms)). \<not> \<not> ev_sequence x \<le> ?q"
    using assms(1) by (auto simp: sync_wf_def dest: in_set_dropD)
  moreover have "\<forall>x \<in> set (drop (length es - 1000) (stamped ?q es)). \<not> ev_sequence x \<le> ?q"
    using stamped_sequence [OF assms(2)] by (auto simp: not_le dest: in_set_dropD)
  ultimately show ?thesis unfolding pending_events_def log by (rule rev_takeWhile_rev)
qed

definition sample_event :: MembershipEvent where
  "sample_event = event_new PeerRemoved (replicate 32 7)"

lemma pending_after_emits_example:
  "pending_events 0 (emit_all [(5, sample_event), (6, sample_event)] (sync_new table_new)) =
     [stamp 5 1 sample_event, stamp 6 2 sample_event]"
  using pending_after_emits [OF sync_wf_new [of table_new], of "[(5, sample_event), (6, sample_event)]"]
  by (simp add: sync_new_def)

text \<open>The number subscribe returns is not the one it stores: unsubscribing with it keeps the
  callback, and removes the one subscribed just before.\<close>

lemma unsubscribe_removes_other:
  assumes "subscribe c1 ms = (ms1, i1)" "subscribe c2 ms1 = (ms2, i2)" "next_sub_id ms + 2 \<noteq> next_sub_id ms + 1"
  shows "(i2 + 1, c2) \<in> set (subscribers (unsubscribe i2 ms2)) \<and> i2 \<notin> fst ` set (subscribers (unsubscribe i2 ms2))
     \<and> (i2, c1) \<in> set (subscribers ms2)"
  using assms by (auto simp: subscribe_def unsubscribe_def Let_def)

section \<open>Events are replicated\<close>

lemma take_le_write [wire_simps]:
  "take_le (Suc 0) (b # r) = (b, r)"
  "take_le 2 (write_le 2 (h :: u16) @ r) = (h, r)"
  "take_le 4 (write_le 4 (w :: u32) @ r) = (w, r)"
  "take_le 8 (write_le 8 (v :: u64) @ r) = (v, r)"
  by (simp_all add: take_le_def read_le_write)

lemma get_str_put: "short s \<Longrightarrow> get_str (put_str s @ r) = (s, r)"
  by (simp add: get_str_def put_str_def wire_simps unat_u16 short_def)

lemma get_strs_put: "list_all short xs \<Longrightarrow> get_strs (length xs) (concat (map put_str xs) @ r) = (xs, r)"
  by (induction xs) (auto simp: get_str_put)

definition event_base :: "MembershipEvent \<Rightarrow> MembershipEvent" where
  "event_base ev = (event_new (ev_type ev) (ev_node_id ev))\<lparr>timestamp_ns := timestamp_ns ev, ev_sequence := ev_sequence ev\<rparr>"

text \<open>An event that carries what its type carries, within the limits of the format.\<close>

definition payload_ok :: "MembershipEvent \<Rightarrow> bool" where
  "payload_ok ev \<longleftrightarrow>
     (case ev_type ev of
        PeerAdded \<Rightarrow> ev = (event_base ev)\<lparr>ev_endpoint := ev_endpoint ev\<rparr> \<and> endpoint_ok (ev_endpoint ev) \<and> ep_path (ev_endpoint ev) = []
      | PeerUpdated \<Rightarrow> ev = (event_base ev)\<lparr>ev_endpoint := ev_endpoint ev\<rparr> \<and> endpoint_ok (ev_endpoint ev) \<and> ep_path (ev_endpoint ev) = []
      | PeerRemoved \<Rightarrow> ev = event_base ev
      | PeerRenamed \<Rightarrow> ev = (event_base ev)\<lparr>old_display_name := old_display_name ev, new_display_name := new_display_name ev\<rparr>
          \<and> short (old_display_name ev) \<and> short (new_display_name ev)
      | StateChange \<Rightarrow> ev = (event_base ev)\<lparr>new_state := new_state ev\<rparr> \<and> peer_state_of (peer_state_byte (new_state ev)) = new_state ev
      | CapabilityChange \<Rightarrow> ev = (event_base ev)\<lparr>new_role := new_role ev, added_caps := added_caps ev, removed_caps := removed_caps ev\<rparr>
          \<and> list_all short (added_caps ev) \<and> list_all short (removed_caps ev)
          \<and> length (added_caps ev) < 2 ^ 16 \<and> length (removed_caps ev) < 2 ^ 16
      | CertificateRotate \<Rightarrow> ev = (event_base ev)\<lparr>new_cert := new_cert ev\<rparr> \<and> cert_wf (new_cert ev)
          \<and> signature (new_cert ev) = [] \<and> short (cert_serialize (new_cert ev))
      | EventInvalid b \<Rightarrow> False)"

lemma cert_serialize_nonempty: "cert_serialize c \<noteq> []"
  by (simp add: cert_serialize_def)

lemma read_payload_write:
  assumes "payload_ok ev"
  shows "read_payload (serialize_event_payload ev) (event_base ev) = ev"
proof (cases "ev_type ev")
  case PeerAdded
  have "get_endpoint (put_endpoint (ev_endpoint ev)) = (ev_endpoint ev, [])"
    using assms PeerAdded take_le_write(2) [of _ "[]"]
    by (simp add: payload_ok_def get_endpoint_def put_endpoint_def endpoint_ok_def get_str_put)
  then show ?thesis
    using assms PeerAdded by (simp add: payload_ok_def read_payload_def serialize_event_payload_def event_base_def event_new_def)
next
  case PeerUpdated
  have "get_endpoint (put_endpoint (ev_endpoint ev)) = (ev_endpoint ev, [])"
    using assms PeerUpdated take_le_write(2) [of _ "[]"]
    by (simp add: payload_ok_def get_endpoint_def put_endpoint_def endpoint_ok_def get_str_put)
  then show ?thesis
    using assms PeerUpdated by (simp add: payload_ok_def read_payload_def serialize_event_payload_def event_base_def event_new_def)
next
  case PeerRenamed
  then show ?thesis
    using assms get_str_put [of _ "[]"]
    by (simp add: payload_ok_def read_payload_def serialize_event_payload_def event_base_def event_new_def get_str_put)
next
  case CapabilityChange
  then show ?thesis
    using assms get_strs_put [of _ "[]"]
    by (simp add: payload_ok_def read_payload_def serialize_event_payload_def event_base_def event_new_def get_strs_put
        wire_simps unat_u16)
next
  case CertificateRotate
  let ?c = "new_cert ev"
  have u: "unat (word_of_nat (length (cert_serialize ?c)) :: u16) = length (cert_serialize ?c)"
    using assms CertificateRotate by (intro unat_u16) (simp add: payload_ok_def short_def)
  then have "(0 :: u16) < word_of_nat (length (cert_serialize ?c))"
    using cert_serialize_nonempty [of ?c] by (simp add: word_less_nat_alt)
  moreover have "cert_deserialize (cert_serialize ?c) = Ok ?c"
    using assms CertificateRotate cert_deserialize_body(1) [of ?c] by (cases ?c) (simp add: payload_ok_def)
  ultimately show ?thesis
    using assms CertificateRotate u
    by (simp add: payload_ok_def read_payload_def serialize_event_payload_def event_base_def event_new_def put_str_def wire_simps)
qed (use assms in \<open>simp_all add: payload_ok_def read_payload_def serialize_event_payload_def event_base_def event_new_def wire_simps\<close>)

definition event_storable :: "MembershipEvent \<Rightarrow> bool" where
  "event_storable ev \<longleftrightarrow>
     length (ev_node_id ev) = 32 \<and> payload_ok ev \<and> length (serialize_event_payload ev) < 2 ^ 32"

lemma event_of_byte: "payload_ok ev \<Longrightarrow> event_of (event_byte (ev_type ev)) = ev_type ev"
  by (cases "ev_type ev") (simp_all add: event_of_def payload_ok_def)

lemma read_event_write:
  assumes "event_storable ev"
  shows "read_event (serialize_event ev @ r) = Some (ev, r)"
proof -
  let ?p = "serialize_event_payload ev"
  have ok: "payload_ok ev" "length (ev_node_id ev) = 32" and u: "unat (word_of_nat (length ?p) :: u32) = length ?p"
    using assms by (auto simp: event_storable_def intro: unat_u32)
  have base: "(event_new (ev_type ev) (ev_node_id ev))\<lparr>timestamp_ns := timestamp_ns ev, ev_sequence := ev_sequence ev\<rparr> = event_base ev"
    by (simp add: event_base_def)
  show ?thesis
    using ok u by (simp add: read_event_def serialize_event_def Let_def wire_simps event_of_byte base read_payload_write)
qed

primrec timed :: "(nat \<Rightarrow> i64) \<Rightarrow> MembershipEvent list \<Rightarrow> (i64 \<times> MembershipEvent) list" where
  "timed clock [] = []"
| "timed clock (ev # evs) = (clock (length evs), ev) # timed clock evs"

lemma length_timed [simp]: "length (timed clock evs) = length evs"
  by (induction evs) auto

lemma emit_table: "emit now ev (ms\<lparr>ms_table := t\<rparr>) = (emit now ev ms)\<lparr>ms_table := t\<rparr>"
  by (simp add: emit_def Let_def)

lemma emit_all_table: "emit_all es (ms\<lparr>ms_table := t\<rparr>) = (emit_all es ms)\<lparr>ms_table := t\<rparr>"
  by (induction es arbitrary: ms) (auto simp: emit_all_def emit_table)

lemma apply_loop_write:
  "\<forall>ev \<in> set evs. event_storable ev \<Longrightarrow>
     apply_loop clock (length evs) (concat (map serialize_event evs) @ r) ms =
     (emit_all (timed clock evs) ms)\<lparr>ms_table := fold apply_event evs (ms_table ms)\<rparr>"
proof (induction evs arbitrary: ms)
  case Nil
  then show ?case by (simp add: emit_all_def)
next
  case (Cons ev evs)
  let ?m = "apply_and_emit (clock (length evs)) ev ms"
  have m: "?m = (emit (clock (length evs)) ev ms)\<lparr>ms_table := apply_event ev (ms_table ms)\<rparr>"
    by (simp add: apply_and_emit_def emit_table)
  have "apply_loop clock (length (ev # evs)) (concat (map serialize_event (ev # evs)) @ r) ms =
      apply_loop clock (length evs) (concat (map serialize_event evs) @ r) ?m"
    using Cons.prems by (simp add: read_event_write)
  also have "\<dots> = (emit_all (timed clock evs) ?m)\<lparr>ms_table := fold apply_event evs (ms_table ?m)\<rparr>"
    using Cons.prems by (intro Cons.IH) simp
  also have "\<dots> = (emit_all (timed clock (ev # evs)) ms)\<lparr>ms_table := fold apply_event (ev # evs) (ms_table ms)\<rparr>"
    unfolding m emit_all_table by (simp add: emit_all_def)
  finally show ?case .
qed

lemma apply_events_write:
  assumes "\<forall>ev \<in> set evs. event_storable ev" "length evs < 2 ^ 32"
  shows "apply_events clock (serialize_events evs) ms =
     (emit_all (timed clock evs) ms)\<lparr>ms_table := fold apply_event evs (ms_table ms)\<rparr>"
  using assms apply_loop_write [OF assms(1), of clock "[]"]
  by (simp add: apply_events_def serialize_events_def wire_simps unat_u32)

lemma payload_stamp: "payload_ok (stamp now n ev) = payload_ok ev"
  "serialize_event_payload (stamp now n ev) = serialize_event_payload ev"
proof -
  show "serialize_event_payload (stamp now n ev) = serialize_event_payload ev"
    by (cases "ev_type ev") (simp_all add: serialize_event_payload_def stamp_def)
  show "payload_ok (stamp now n ev) = payload_ok ev"
    by (cases ev; cases "ev_type ev") (simp_all add: payload_ok_def stamp_def event_base_def event_new_def)
qed

lemma stamped_storable:
  "\<forall>ev \<in> snd ` set es. event_storable ev \<Longrightarrow> e \<in> set (stamped q es) \<Longrightarrow> event_storable e"
proof (induction es arbitrary: q)
  case (Cons x es)
  have "event_storable (stamp now n (snd x))" for now n
    using Cons.prems(1) payload_stamp [of now n "snd x"] by (simp add: event_storable_def stamp_def)
  with Cons show ?case by auto
qed simp

lemma snd_timed: "snd ` set (timed clock evs) = set evs"
  by (induction evs) auto

text \<open>
  C19. Gossip replicates and never settles: a node that receives the wire form of up to
  a thousand events applies each of them to its table in order; and all of them
  are pending there again, under new numbers, ready to be sent to every peer
  including the one they came from, in a form that is received the same way.
\<close>

theorem gossip_applies_and_echoes:
  assumes "sync_wf ms" "\<forall>ev \<in> set evs. event_storable ev" "length evs \<le> 1000"
    and "unat (ms_sequence ms) + length evs < 2 ^ 64"
    and "ms' = apply_events clock (serialize_events evs) ms"
  shows "ms_table ms' = fold apply_event evs (ms_table ms)
     \<and> pending_events (ms_sequence ms) ms' = stamped (ms_sequence ms) (timed clock evs)
     \<and> (\<forall>e \<in> set (pending_events (ms_sequence ms) ms'). event_storable e)"
proof -
  have ms': "ms' = (emit_all (timed clock evs) ms)\<lparr>ms_table := fold apply_event evs (ms_table ms)\<rparr>"
    using assms(2,3,5) by (simp add: apply_events_write)
  have "pending_events (ms_sequence ms) ms' = pending_events (ms_sequence ms) (emit_all (timed clock evs) ms)"
    by (simp add: ms' pending_events_def)
  also have "\<dots> = stamped (ms_sequence ms) (timed clock evs)"
    using pending_after_emits [OF assms(1), of "timed clock evs"] assms(3,4) by simp
  finally have p: "pending_events (ms_sequence ms) ms' = stamped (ms_sequence ms) (timed clock evs)" .
  have "\<forall>ev \<in> snd ` set (timed clock evs). event_storable ev" using assms(2) by (simp add: snd_timed)
  then have "\<forall>e \<in> set (stamped (ms_sequence ms) (timed clock evs)). event_storable e"
    using stamped_storable by blast
  with p ms' show ?thesis by simp
qed

theorem gossip_applies_and_echoes_witness:
  "pending_events 0 (apply_events (\<lambda>k. 9) (serialize_events [sample_event]) (sync_new table_new)) =
     [stamp 9 1 sample_event]"
proof -
  let ?ms = "sync_new table_new"
  have e: "\<forall>ev \<in> set [sample_event]. event_storable ev"
    by (simp add: event_storable_def sample_event_def payload_ok_def event_base_def event_new_def serialize_event_payload_def)
  have q: "ms_sequence ?ms = 0" by (simp add: sync_new_def)
  have len: "length [sample_event] \<le> 1000" "unat (ms_sequence ?ms) + length [sample_event] < 2 ^ 64"
    by (simp_all add: q)
  have "stamped 0 (timed (\<lambda>k. 9) [sample_event]) = [stamp 9 1 sample_event]" by simp
  then show ?thesis
    using gossip_applies_and_echoes [OF sync_wf_new e len refl, of "\<lambda>k. 9"] unfolding q by simp
qed

end
