(* ===== verification/Discovery.thy ===== *)
theory Discovery
  imports Membership_Sync
begin

text \<open>
  The discovery protocol (core/discovery/discovery.hpp, .cpp): its messages, the
  handlers of the engine and the dispatch of UDP datagrams.  The table is the one the
  membership events are about.  Whether the i-th connection to an endpoint succeeds, the clock
  of the events, and what a record contains after it has been moved from are
  arguments.
\<close>

section \<open>Messages\<close>

record HelloMsg =
  hello_node_id :: bytes
  pubkey_fingerprint :: u64
  protocol_version :: u16
  hello_endpoint :: Endpoint

record WelcomeMsg =
  welcome_node_id :: bytes
  welcome_record :: PeerRecord

record PingMsg =
  ping_timestamp :: i64
  ping_sender :: bytes

record OfflineMsg =
  offline_node_id :: bytes
  offline_reason :: byte

definition hello_serialize :: "HelloMsg \<Rightarrow> bytes" where
  "hello_serialize m =
     hello_node_id m @ write_be 8 (pubkey_fingerprint m) @ write_be 2 (protocol_version m)
     @ write_endpoint (hello_endpoint m)"

definition hello_deserialize :: "bytes \<Rightarrow> HelloMsg dres" where
  "hello_deserialize data =
     (if length data < 32 then Fail err_peer
      else
        case read_be 8 (drop 32 data) of (fp, r) \<Rightarrow>
        case read_be 2 r of (v, r) \<Rightarrow>
        pbind (read_endpoint r) (\<lambda>(ep, r).
          Got \<lparr>hello_node_id = take 32 data, pubkey_fingerprint = fp, protocol_version = v, hello_endpoint = ep\<rparr>))"

definition welcome_serialize :: "(f64 \<Rightarrow> u64) \<Rightarrow> WelcomeMsg \<Rightarrow> bytes" where
  "welcome_serialize ub m =
     (let rec = peer_serialize ub (welcome_record m)
      in welcome_node_id m @ write_be 4 (of_nat (length rec) :: u32) @ rec)"

definition welcome_deserialize :: "nat \<Rightarrow> bytes \<Rightarrow> WelcomeMsg dres" where
  "welcome_deserialize f data =
     (if length data < 32 then Fail err_peer
      else
        case read_be 4 (drop 32 data) of (n :: u32, r) \<Rightarrow>
        if length r < unat n then Fail err_peer
        else pbind (peer_deserialize f (take (unat n) r)) (\<lambda>p.
          Got \<lparr>welcome_node_id = take 32 data, welcome_record = p\<rparr>))"

text \<open>PingMsg and PongMsg have one wire format.\<close>

definition ping_serialize :: "PingMsg \<Rightarrow> bytes" where
  "ping_serialize m = write_be 8 (ping_timestamp m) @ ping_sender m"

definition ping_deserialize :: "bytes \<Rightarrow> PingMsg" where
  "ping_deserialize data =
     (case read_be 8 data of (t, r) \<Rightarrow>
        \<lparr>ping_timestamp = t, ping_sender = (if 32 \<le> length r then take 32 r else replicate 32 0)\<rparr>)"

definition offline_serialize :: "OfflineMsg \<Rightarrow> bytes" where
  "offline_serialize m = offline_node_id m @ [offline_reason m]"

definition offline_deserialize :: "bytes \<Rightarrow> OfflineMsg dres" where
  "offline_deserialize data =
     (if length data < 32 then Fail err_peer
      else Got \<lparr>offline_node_id = take 32 data,
                offline_reason = (if drop 32 data = [] then 0 else data ! 32)\<rparr>)"

datatype DiscoveryMsgType = Hello | Welcome | Ping | Pong | Discover | NodeInfo | Offline | OtherMsg byte

primrec msg_type_byte :: "DiscoveryMsgType \<Rightarrow> byte" where
  "msg_type_byte Hello = 1"
| "msg_type_byte Welcome = 2"
| "msg_type_byte Ping = 3"
| "msg_type_byte Pong = 4"
| "msg_type_byte Discover = 5"
| "msg_type_byte NodeInfo = 6"
| "msg_type_byte Offline = 7"
| "msg_type_byte (OtherMsg b) = b"

definition msg_type_of :: "byte \<Rightarrow> DiscoveryMsgType" where
  "msg_type_of b =
     (if b = 1 then Hello else if b = 2 then Welcome else if b = 3 then Ping else if b = 4 then Pong
      else if b = 5 then Discover else if b = 6 then NodeInfo else if b = 7 then Offline else OtherMsg b)"

definition wrap_discovery_msg :: "DiscoveryMsgType \<Rightarrow> bytes \<Rightarrow> bytes" where
  "wrap_discovery_msg ty payload = 0x44 # msg_type_byte ty # payload"

definition is_discovery_msg :: "bytes \<Rightarrow> bool" where
  "is_discovery_msg data \<longleftrightarrow> 2 \<le> length data \<and> data ! 0 = 0x44"

section \<open>Finding a seed\<close>

text \<open>What a seed answers: None where connecting, sending or receiving fails.\<close>

fun find_seed_loop :: "nat \<Rightarrow> (Endpoint \<Rightarrow> bytes \<Rightarrow> bytes option) \<Rightarrow> bytes \<Rightarrow> Endpoint list \<Rightarrow> PeerRecord dres" where
  "find_seed_loop f ask hello [] = Fail (smo_err CatDiscovery 406 SevError RetryBackoff ManualIntervention)"
| "find_seed_loop f ask hello (s # seeds) =
     (case ask s hello of
        None \<Rightarrow> find_seed_loop f ask hello seeds
      | Some answer \<Rightarrow>
          (case welcome_deserialize f answer of
             Got m \<Rightarrow> Got (welcome_record m)
           | Fail e \<Rightarrow> find_seed_loop f ask hello seeds
           | Fault \<Rightarrow> Fault
           | OutOfFuel \<Rightarrow> OutOfFuel))"

definition find_seed ::
  "nat \<Rightarrow> (Endpoint \<Rightarrow> bytes \<Rightarrow> bytes option) \<Rightarrow> bytes \<Rightarrow> Endpoint list \<Rightarrow> PeerRecord dres" where
  "find_seed f ask local_id seeds =
     find_seed_loop f ask
       (hello_serialize \<lparr>hello_node_id = local_id, pubkey_fingerprint = 0, protocol_version = 1, hello_endpoint = no_endpoint\<rparr>)
       seeds"

section \<open>The engine\<close>

record DiscoveryEngine =
  de_sync :: MembershipSync
  de_has_sync :: bool
  de_monitor :: HealthMonitor
  de_sent :: "(Endpoint \<times> bytes) list"

abbreviation de_table :: "DiscoveryEngine \<Rightarrow> MembershipTable" where
  "de_table e \<equiv> ms_table (de_sync e)"

definition set_table :: "MembershipTable \<Rightarrow> DiscoveryEngine \<Rightarrow> DiscoveryEngine" where
  "set_table t e = e\<lparr>de_sync := (de_sync e)\<lparr>ms_table := t\<rparr>\<rparr>"

record de_env =
  moved_from :: "PeerRecord \<Rightarrow> PeerRecord"
  event_time :: i64
  can_connect :: "nat \<Rightarrow> Endpoint \<Rightarrow> bool"
  de_ub :: "f64 \<Rightarrow> u64"

definition upsert_and_emit :: "de_env \<Rightarrow> PeerRecord \<Rightarrow> DiscoveryEngine \<Rightarrow> DiscoveryEngine \<times> unit result" where
  "upsert_and_emit env rec e =
     (case table_upsert rec (de_table e) of (t, r) \<Rightarrow>
        let e1 = set_table t e
        in (if is_ok r \<and> de_has_sync e
            then e1\<lparr>de_sync := emit_peer_added (event_time env) (moved_from env rec) (de_sync e1)\<rparr> else e1, r))"

definition handle_hello :: "de_env \<Rightarrow> HelloMsg \<Rightarrow> Endpoint \<Rightarrow> i64 \<Rightarrow> DiscoveryEngine \<Rightarrow> DiscoveryEngine \<times> unit result" where
  "handle_hello env m from now e =
     (if protocol_version m \<noteq> 1 then (e, Ok ())
      else
        upsert_and_emit env
          (peer_new\<lparr>pr_node_id := hello_node_id m,
             pr_endpoint := (if ep_port (hello_endpoint m) \<noteq> 0 \<and> ep_host (hello_endpoint m) \<noteq> [] then hello_endpoint m else from),
             pr_state := PeerOnline, last_seen := now, ping_misses := 0\<rparr>) e)"

definition handle_welcome :: "de_env \<Rightarrow> WelcomeMsg \<Rightarrow> i64 \<Rightarrow> DiscoveryEngine \<Rightarrow> DiscoveryEngine \<times> unit result" where
  "handle_welcome env m now e =
     upsert_and_emit env ((welcome_record m)\<lparr>pr_state := PeerOnline, last_seen := now, ping_misses := 0\<rparr>) e"

definition handle_ping :: "PingMsg \<Rightarrow> i64 \<Rightarrow> DiscoveryEngine \<Rightarrow> DiscoveryEngine \<times> unit result" where
  "handle_ping m now e = (e, Ok ())"

definition handle_pong :: "PingMsg \<Rightarrow> i64 \<Rightarrow> DiscoveryEngine \<Rightarrow> DiscoveryEngine \<times> unit result" where
  "handle_pong m now e = (e, Ok ())"

definition send_node_info :: "de_env \<Rightarrow> Endpoint \<Rightarrow> DiscoveryEngine \<Rightarrow> DiscoveryEngine" where
  "send_node_info env to e =
     e\<lparr>de_sent := de_sent e @
         concat (map (\<lambda>(i, p). if can_connect env i to
                   then [(to, wrap_discovery_msg NodeInfo (peer_serialize (de_ub env) p))] else [])
           (List.enumerate 0 (filter (\<lambda>p. pr_state p \<noteq> PeerOffline) (peers (de_table e)))))\<rparr>"

definition handle_discover :: "de_env \<Rightarrow> Endpoint \<Rightarrow> i64 \<Rightarrow> DiscoveryEngine \<Rightarrow> DiscoveryEngine \<times> unit result" where
  "handle_discover env from now e = (send_node_info env from e, Ok ())"

definition handle_node_info :: "PeerRecord \<Rightarrow> i64 \<Rightarrow> DiscoveryEngine \<Rightarrow> DiscoveryEngine \<times> unit result" where
  "handle_node_info p now e =
     (let rec = p\<lparr>last_seen := now, pr_state := (if pr_state p = PeerUnknown then PeerOnline else pr_state p)\<rparr>
      in case table_upsert rec (de_table e) of (t, r) \<Rightarrow> (set_table t e, r))"

definition handle_offline :: "OfflineMsg \<Rightarrow> i64 \<Rightarrow> DiscoveryEngine \<Rightarrow> DiscoveryEngine \<times> unit result" where
  "handle_offline m now e =
     (case table_lookup (offline_node_id m) (de_table e) of
        Err _ \<Rightarrow> (e, Ok ())
      | Ok p \<Rightarrow>
          (case table_upsert (p\<lparr>pr_state := PeerOffline, last_seen := now\<rparr>) (de_table e) of (t, r) \<Rightarrow> (set_table t e, r)))"

definition engine_tick :: "i64 \<Rightarrow> DiscoveryEngine \<Rightarrow> DiscoveryEngine" where
  "engine_tick now e =
     (case monitor_tick now 5000000000 3 (de_monitor e) (de_table e) of (hm, t) \<Rightarrow> (set_table t e)\<lparr>de_monitor := hm\<rparr>)"

text \<open>A message that does not parse is dropped; a fault or an endless loop while parsing
  ends the node.\<close>

definition parsed :: "'m dres \<Rightarrow> DiscoveryEngine \<Rightarrow> ('m \<Rightarrow> DiscoveryEngine \<times> unit result) \<Rightarrow> (DiscoveryEngine \<times> unit result) dres" where
  "parsed m e k =
     (case m of Got x \<Rightarrow> Got (k x) | Fail _ \<Rightarrow> Got (e, Ok ()) | Fault \<Rightarrow> Fault | OutOfFuel \<Rightarrow> OutOfFuel)"

definition dispatch_discovery_datagram ::
  "de_env \<Rightarrow> nat \<Rightarrow> bytes \<Rightarrow> Endpoint \<Rightarrow> i64 \<Rightarrow> DiscoveryEngine \<Rightarrow> (DiscoveryEngine \<times> unit result) dres" where
  "dispatch_discovery_datagram env f data from now e =
     (if \<not> is_discovery_msg data then Got (e, Ok ())
      else
        let payload = drop 2 data
        in case msg_type_of (data ! 1) of
             Hello \<Rightarrow> parsed (hello_deserialize payload) e (\<lambda>m. handle_hello env m from now e)
           | Welcome \<Rightarrow> parsed (welcome_deserialize f payload) e (\<lambda>m. handle_welcome env m now e)
           | Ping \<Rightarrow> Got (handle_ping (ping_deserialize payload) now e)
           | Pong \<Rightarrow> Got (handle_pong (ping_deserialize payload) now e)
           | Discover \<Rightarrow> Got (handle_discover env from now e)
           | NodeInfo \<Rightarrow> parsed (peer_deserialize f payload) e (\<lambda>p. handle_node_info p now e)
           | Offline \<Rightarrow> parsed (offline_deserialize payload) e (\<lambda>m. handle_offline m now e)
           | OtherMsg b \<Rightarrow> Got (e, Ok ()))"

section \<open>The table stays well formed\<close>

lemma set_table_table [simp]: "de_table (set_table t e) = t"
  by (simp add: set_table_def)

lemma emit_table_same [simp]: "ms_table (emit now ev ms) = ms_table ms"
  by (simp add: emit_def Let_def)

lemma upsert_and_emit_table: "de_table (fst (upsert_and_emit env rec e)) = fst (table_upsert rec (de_table e))"
  by (simp add: upsert_and_emit_def Let_def emit_peer_added_def split: prod.split)

definition engine_wf :: "nat \<Rightarrow> DiscoveryEngine \<Rightarrow> bool" where
  "engine_wf c e \<longleftrightarrow> table_wf (de_table e) \<and> capacity (de_table e) = c"

lemma handlers_wf:
  assumes "engine_wf c e"
  shows "engine_wf c (fst (handle_hello env m from now e))"
    and "engine_wf c (fst (handle_welcome env w now e))"
    and "engine_wf c (fst (handle_discover env from now e))"
    and "engine_wf c (fst (handle_node_info p now e))"
    and "engine_wf c (fst (handle_offline off now e))"
  using assms
  by (auto simp: engine_wf_def handle_hello_def handle_welcome_def handle_discover_def send_node_info_def
      handle_node_info_def handle_offline_def Let_def upsert_and_emit_table table_wf_upsert
      split: prod.split result.split dest!: arg_cong [of "table_upsert _ _" _ fst] elim: subst)

lemma parsed_wf:
  assumes "parsed m e k = Got (e', r)" "engine_wf c e" "\<And>x. engine_wf c (fst (k x))"
  shows "engine_wf c e'"
proof (cases m)
  case (Got x)
  then have "k x = (e', r)" using assms(1) by (simp add: parsed_def)
  with assms(3) [of x] show ?thesis by simp
qed (use assms in \<open>simp_all add: parsed_def\<close>)

lemma dispatch_wf:
  assumes "engine_wf c e" "dispatch_discovery_datagram env f data from now e = Got (e', r)"
  shows "engine_wf c e'"
proof (cases "is_discovery_msg data")
  case False
  then show ?thesis using assms by (simp add: dispatch_discovery_datagram_def)
next
  case True
  note h = handlers_wf [OF assms(1)]
  from True assms(2) show ?thesis
  proof (cases "msg_type_of (data ! 1)")
    case Discover
    with True assms(2) have "e' = fst (handle_discover env from now e)"
      by (simp add: dispatch_discovery_datagram_def handle_discover_def)
    with h(3) show ?thesis by simp
  qed (use assms(1) h in \<open>auto simp: dispatch_discovery_datagram_def Let_def handle_ping_def handle_pong_def elim!: parsed_wf\<close>)
qed

lemma tick_wf: "engine_wf c e \<Longrightarrow> engine_wf c (engine_tick now e)"
  by (simp add: engine_wf_def engine_tick_def monitor_tick_def table_wf_ticks set_table_def)

text \<open>Whatever arrives on the socket, in any order with the ticks of the monitor.\<close>

inductive engine_steps :: "DiscoveryEngine \<Rightarrow> DiscoveryEngine \<Rightarrow> bool" where
  start: "engine_steps e e"
| datagram: "engine_steps e e1 \<Longrightarrow> dispatch_discovery_datagram env f data from now e1 = Got (e2, r) \<Longrightarrow> engine_steps e e2"
| ticked: "engine_steps e e1 \<Longrightarrow> engine_steps e (engine_tick now e1)"

lemma engine_steps_wf: "engine_steps e e' \<Longrightarrow> engine_wf c e \<Longrightarrow> engine_wf c e'"
  by (induction rule: engine_steps.induct) (auto intro: dispatch_wf tick_wf)

text \<open>
  C16. The membership table is bounded and consistent whatever arrives: after any
  datagrams from anyone, interleaved with ticks, the table holds no more records
  than its capacity, no two under one key, each under the key of its own node id.
\<close>

theorem membership_table_bounded:
  assumes "engine_steps e e'" "table_wf (de_table e)"
  shows "length (records (de_table e')) \<le> capacity (de_table e) \<and> distinct (map fst (records (de_table e')))
     \<and> (\<forall>i p. table_lookup i (de_table e') = Ok p \<longrightarrow> to_key (pr_node_id p) = to_key i)"
proof -
  have "engine_wf (capacity (de_table e)) e'"
    using engine_steps_wf [OF assms(1)] assms(2) by (simp add: engine_wf_def)
  then have wf: "table_wf (de_table e')" "capacity (de_table e') = capacity (de_table e)" by (simp_all add: engine_wf_def)
  have "to_key (pr_node_id p) = to_key i" if "table_lookup i (de_table e') = Ok p" for i p
    using that table_wf_key [OF wf(1)] by (auto simp: table_lookup_def split: option.splits)
  with wf show ?thesis by (auto simp: table_wf_def)
qed

definition sample_engine :: DiscoveryEngine where
  "sample_engine = \<lparr>de_sync = sync_new (table_new\<lparr>capacity := 1\<rparr>), de_has_sync = False, de_monitor = [], de_sent = []\<rparr>"

definition sample_env :: de_env where
  "sample_env = \<lparr>moved_from = id, event_time = 0, can_connect = (\<lambda>i ep. True), de_ub = id\<rparr>"

definition sample_hello :: "byte \<Rightarrow> HelloMsg" where
  "sample_hello b = \<lparr>hello_node_id = replicate 32 b, pubkey_fingerprint = 0, protocol_version = 1, hello_endpoint = no_endpoint\<rparr>"

lemma hello_roundtrip:
  assumes "length (hello_node_id m) = 32" "endpoint_ok (hello_endpoint m)"
  shows "hello_deserialize (hello_serialize m) = Got m"
  using assms read_endpoint_write [OF assms(2), of "[]"]
  by (simp add: hello_deserialize_def hello_serialize_def wire_simps)

lemma dispatch_hello:
  assumes "length (hello_node_id m) = 32" "endpoint_ok (hello_endpoint m)"
  shows "dispatch_discovery_datagram env f (wrap_discovery_msg Hello (hello_serialize m)) from now e =
     Got (handle_hello env m from now e)"
  using hello_roundtrip [OF assms]
  by (simp add: dispatch_discovery_datagram_def wrap_discovery_msg_def is_discovery_msg_def msg_type_of_def parsed_def)

theorem membership_table_bounded_witness:
  "length (records (de_table (fst (handle_hello sample_env (sample_hello 1) no_endpoint 5 sample_engine)))) \<le> 1"
proof -
  let ?e = "fst (handle_hello sample_env (sample_hello 1) no_endpoint 5 sample_engine)"
  have "dispatch_discovery_datagram sample_env 0 (wrap_discovery_msg Hello (hello_serialize (sample_hello 1))) no_endpoint 5 sample_engine =
      Got (?e, snd (handle_hello sample_env (sample_hello 1) no_endpoint 5 sample_engine))"
    by (subst dispatch_hello) (simp_all add: sample_hello_def endpoint_ok_def no_endpoint_def short_def)
  then have steps: "engine_steps sample_engine ?e" by (rule datagram [OF start])
  have wf: "table_wf (de_table sample_engine)" by (simp add: sample_engine_def sync_new_def table_wf_def table_new_def)
  have "capacity (de_table sample_engine) = 1" by (simp add: sample_engine_def sync_new_def)
  with membership_table_bounded [OF steps wf] show ?thesis by simp
qed

section \<open>What a datagram does\<close>

text \<open>
  C36. Hello registers the sender: a well-formed Hello datagram of protocol version 1,
  from a known node or while there is room, is handled without error, and looking
  up the sender then gives an Online record seen now, at the endpoint it announced
  or, without one, at the address the datagram came from.
\<close>

theorem hello_registers_sender:
  assumes "length (hello_node_id m) = 32" "endpoint_ok (hello_endpoint m)" "protocol_version m = 1"
    and "is_ok (table_lookup (hello_node_id m) (de_table e)) \<or> length (records (de_table e)) < capacity (de_table e)"
  shows "\<exists>e' p. dispatch_discovery_datagram env f (wrap_discovery_msg Hello (hello_serialize m)) from now e = Got (e', Ok ())
     \<and> table_lookup (hello_node_id m) (de_table e') = Ok p \<and> pr_node_id p = hello_node_id m
     \<and> pr_state p = PeerOnline \<and> last_seen p = now \<and> ping_misses p = 0
     \<and> pr_endpoint p = (if ep_port (hello_endpoint m) \<noteq> 0 \<and> ep_host (hello_endpoint m) \<noteq> [] then hello_endpoint m else from)"
proof -
  define p where "p = peer_new\<lparr>pr_node_id := hello_node_id m,
     pr_endpoint := (if ep_port (hello_endpoint m) \<noteq> 0 \<and> ep_host (hello_endpoint m) \<noteq> [] then hello_endpoint m else from),
     pr_state := PeerOnline, last_seen := now, ping_misses := 0\<rparr>"
  have ok: "snd (table_upsert p (de_table e)) = Ok ()"
    using assms(4) by (auto simp: table_upsert_def Let_def p_def table_lookup_def split: option.splits)
  let ?h = "handle_hello env m from now e"
  have h: "?h = upsert_and_emit env p e" using assms(3) by (simp add: handle_hello_def p_def)
  have "snd ?h = Ok ()" using ok by (auto simp: h upsert_and_emit_def Let_def split: prod.split)
  then have d: "dispatch_discovery_datagram env f (wrap_discovery_msg Hello (hello_serialize m)) from now e = Got (fst ?h, Ok ())"
    by (subst dispatch_hello [OF assms(1,2)]) (metis prod.collapse)
  have "map_of (records (de_table (fst ?h))) = (map_of (records (de_table e)))(to_key (pr_node_id p) \<mapsto> p)"
    unfolding h upsert_and_emit_table using ok by (intro lookup_upsert) simp
  then have "table_lookup (hello_node_id m) (de_table (fst ?h)) = Ok p" by (simp add: table_lookup_def p_def)
  with d show ?thesis by (intro exI [of _ "fst ?h"] exI [of _ p]) (simp add: p_def)
qed

theorem hello_registers_sender_witness:
  "\<exists>e' p. dispatch_discovery_datagram sample_env 0 (wrap_discovery_msg Hello (hello_serialize (sample_hello 3))) no_endpoint 5 sample_engine = Got (e', Ok ())
     \<and> table_lookup (replicate 32 3) (de_table e') = Ok p \<and> pr_state p = PeerOnline"
proof -
  have "length (hello_node_id (sample_hello 3)) = 32" "endpoint_ok (hello_endpoint (sample_hello 3))" "protocol_version (sample_hello 3) = 1"
      "is_ok (table_lookup (hello_node_id (sample_hello 3)) (de_table sample_engine)) \<or>
       length (records (de_table sample_engine)) < capacity (de_table sample_engine)"
    by (simp_all add: sample_hello_def endpoint_ok_def no_endpoint_def short_def sample_engine_def sync_new_def table_new_def)
  from hello_registers_sender [OF this, of sample_env 0 no_endpoint 5] show ?thesis
    by (auto simp: sample_hello_def)
qed

lemma short_hello_faults:
  assumes "length i = 32"
  shows "hello_deserialize (i @ write_be 8 (k :: u64) @ write_be 2 (v :: u16) @ [0xFF, 0xFF]) = Fault"
proof -
  have "read_be 2 [0xFF, 0xFF] = (0xFFFF :: u16, [])" by code_simp
  then show ?thesis
    using assms by (simp add: hello_deserialize_def wire_simps read_endpoint_def copy_str_def)
qed

definition endless_record :: "(f64 \<Rightarrow> u64) \<Rightarrow> bytes \<Rightarrow> bytes" where
  "endless_record ub i =
     i @ 1 # peer_head ub peer_new @ write_be 4 (of_nat (length endless_candidates) :: u32) @ endless_candidates"

lemma endless_record_loops:
  assumes "length i = 32"
  shows "peer_deserialize f (endless_record ub i) = OutOfFuel"
proof -
  let ?p = "peer_new\<lparr>pr_node_id := i, pr_state := PeerOnline\<rparr>"
  have "peer_storable ?p"
    using assms by (simp add: peer_storable_def peer_new_def peer_state_of_def short_def endpoint_ok_def no_endpoint_def
        address_ok_def no_address_def candidates_ok_def encode_candidates_cbor_def encode_array_def encode_head_def)
  from peer_deserialize_head [OF this, of f ub]
  have "peer_deserialize f (i @ 1 # peer_head ub peer_new @ tail) =
      pbind (read_ice_candidates f tail) (\<lambda>(cs, r). Got (?p\<lparr>pr_rtt := rtt_of_us (rtt_to_us ub (pr_rtt peer_new)), ice_candidates := cs\<rparr>))" for tail
    by (simp add: peer_head_def)
  moreover have "read_ice_candidates f (write_be 4 (of_nat (length endless_candidates) :: u32) @ endless_candidates) = OutOfFuel"
  proof -
    have len: "length endless_candidates = 13"
      by (simp add: endless_candidates_def endless_bytes encode_array_def encode_map_def encode_uint_def encode_head_def)
    show ?thesis
      unfolding read_ice_candidates_def len
      using decode_candidates_endless [of f] len by (simp add: wire_simps)
  qed
  ultimately show ?thesis by (simp add: endless_record_def)
qed

text \<open>
  C37. One unauthenticated datagram ends a node: a Hello whose endpoint announces a
  string longer than the datagram makes the reader copy memory beyond it, and a
  NodeInfo with a crafted list of ICE candidates makes the decoder recurse without
  end, in every state of the engine.
\<close>

theorem discovery_datagram_ends_node:
  assumes "length i = 32"
  shows "dispatch_discovery_datagram env f (wrap_discovery_msg Hello (i @ write_be 8 (k :: u64) @ write_be 2 (v :: u16) @ [0xFF, 0xFF])) from now e = Fault
     \<and> dispatch_discovery_datagram env f (wrap_discovery_msg NodeInfo (endless_record ub i)) from now e = OutOfFuel"
  using short_hello_faults [OF assms(1)] endless_record_loops [OF assms]
  by (simp add: dispatch_discovery_datagram_def wrap_discovery_msg_def is_discovery_msg_def msg_type_of_def parsed_def)

theorem discovery_datagram_ends_node_witness:
  "dispatch_discovery_datagram sample_env 100 (wrap_discovery_msg NodeInfo (endless_record id (replicate 32 0))) no_endpoint 0 sample_engine = OutOfFuel"
  using discovery_datagram_ends_node [OF length_replicate, where f = 100] by blast

end
