(* ===== verification/Policy_Engine.thy ===== *)
theory Policy_Engine
  imports Float64 "HOL-Library.AList" "HOL-Library.Multiset"
begin

text \<open>
  The policy engine (core/acl/policy_engine.hpp and policy_engine.cpp): rules and
  policy sets, the built-in presets, the search for the deciding rule and the
  engine with its table of policies and its cache of results.

  The table of policies is an association list in the order the container is
  walked.  std::sort may arrange rules of equal priority in any way, so the
  arrangement is an argument \<open>srt\<close> with the library's promise
  \<open>std_sort\<close>.  A trust score is a double (theory \<open>Float64\<close>).  Reading
  policy files is the YAML library's: \<open>reload\<close> takes it as an argument.
\<close>

section \<open>Rules, requests and results\<close>

type_synonym i32 = "32 word"

datatype PolicyDecision = Allow | Deny | Conditional | Audit | Sandbox | RateLimit | ReadOnly

record PolicyRule =
  rl_name :: string
  rl_description :: string
  rl_priority :: i32
  required_capabilities :: "string list"
  forbidden_capabilities :: "string list"
  required_roles :: "string list"
  forbidden_roles :: "string list"
  effect :: PolicyDecision
  min_trust_score :: "i32 option"
  max_trust_score :: "i32 option"
  required_certifications :: "string list"
  rl_mesh_id :: string
  where_expression :: string

record PolicySet =
  ps_name :: string
  ps_description :: string
  rules :: "PolicyRule list"
  ps_version :: string
  ps_created_at :: i64
  created_by :: string

record PolicyEvaluationContext =
  session_ident :: string
  session_roles :: "string list"
  session_caps :: "string list"
  session_trust_score :: f64
  session_mesh_id :: string
  session_created_at :: i64
  request_contract_id :: string
  request_method :: string
  request_params :: string
  node_state :: string
  node_version :: string
  node_uptime_ns :: u64
  system_time_ns :: i64
  system_load :: f64
  system_mesh_policy_version :: i64
  actor_id :: string
  ctx_contract_id :: string
  custom_attributes :: "(string \<times> string) list"

definition context_new :: PolicyEvaluationContext where
  "context_new =
     \<lparr>session_ident = [], session_roles = [], session_caps = [], session_trust_score = 0, session_mesh_id = [],
      session_created_at = 0, request_contract_id = [], request_method = [], request_params = [],
      node_state = [], node_version = [], node_uptime_ns = 0, system_time_ns = 0, system_load = 0,
      system_mesh_policy_version = 0, actor_id = [], ctx_contract_id = [], custom_attributes = []\<rparr>"

record PolicyResult =
  decision :: PolicyDecision
  res_reason :: string
  matched_rules :: "string list"
  present_capabilities :: "string list"
  missing_capabilities :: "string list"
  matched_conditions :: "string list"
  metadata :: "(string \<times> string) list"

section \<open>The search for the deciding rule\<close>

definition matches_context :: "PolicyRule \<Rightarrow> PolicyEvaluationContext \<Rightarrow> bool" where
  "matches_context r ctx = (rl_mesh_id r = [] \<or> rl_mesh_id r = session_mesh_id ctx)"

definition evaluate_expression :: "string \<Rightarrow> PolicyEvaluationContext \<Rightarrow> bool" where
  "evaluate_expression expr ctx = True"

record search =
  res :: PolicyResult
  allow_priority :: int
  allow_rule :: "PolicyRule option"
  deny_priority :: int
  deny_rule :: "PolicyRule option"

definition int_min :: int where
  "int_min = - (2 ^ 31)"

definition below_min :: "PolicyRule \<Rightarrow> PolicyEvaluationContext \<Rightarrow> bool" where
  "below_min r ctx =
     (case min_trust_score r of None \<Rightarrow> False
      | Some m \<Rightarrow> f64_less (session_trust_score ctx) (f64_of_int (sint m)))"

definition above_max :: "PolicyRule \<Rightarrow> PolicyEvaluationContext \<Rightarrow> bool" where
  "above_max r ctx =
     (case max_trust_score r of None \<Rightarrow> False
      | Some m \<Rightarrow> f64_less (f64_of_int (sint m)) (session_trust_score ctx))"

text \<open>The rule matches completely: it is recorded, and it becomes the deciding rule
  of its kind when its priority is above the best one so far.\<close>

definition take_rule :: "PolicyRule \<Rightarrow> PolicyResult \<Rightarrow> search \<Rightarrow> search" where
  "take_rule r d s =
     (let d' = d\<lparr>matched_rules := matched_rules d @ [rl_name r]\<rparr>; p = sint (rl_priority r); s' = s\<lparr>res := d'\<rparr>
      in if effect r = Deny
         then (if deny_priority s < p then s'\<lparr>deny_priority := p, deny_rule := Some r\<rparr> else s')
         else (if allow_priority s < p then s'\<lparr>allow_priority := p, allow_rule := Some r\<rparr> else s'))"

text \<open>The loop over the required capabilities.\<close>

definition note_caps :: "PolicyEvaluationContext \<Rightarrow> PolicyRule \<Rightarrow> PolicyResult \<Rightarrow> PolicyResult" where
  "note_caps ctx r d =
     d\<lparr>missing_capabilities := missing_capabilities d @
         filter (\<lambda>c. c \<notin> set (session_caps ctx)) (required_capabilities r),
       present_capabilities := present_capabilities d @
         filter (\<lambda>c. c \<in> set (session_caps ctx)) (required_capabilities r)\<rparr>"

text \<open>One iteration of the loop: \<^const>\<open>Inl\<close> is the early return, \<^const>\<open>Inr\<close> goes
  on with the next rule.\<close>

definition rule_step :: "PolicyEvaluationContext \<Rightarrow> PolicyRule \<Rightarrow> search \<Rightarrow> PolicyResult + search" where
  "rule_step ctx r s =
     (if \<not> matches_context r ctx then Inr s
      else
        let d = note_caps ctx r (res s)
        in if list_ex (\<lambda>c. c \<notin> set (session_caps ctx)) (required_capabilities r) then Inr (s\<lparr>res := d\<rparr>)
        else if list_ex (\<lambda>c. c \<in> set (session_caps ctx)) (forbidden_capabilities r) then Inr (s\<lparr>res := d\<rparr>)
        else if required_roles r \<noteq> [] \<and> \<not> list_ex (\<lambda>x. x \<in> set (session_roles ctx)) (required_roles r)
        then Inr (s\<lparr>res := d\<lparr>missing_capabilities :=
               missing_capabilities d @ map (\<lambda>x. ''role:'' @ x) (required_roles r)\<rparr>\<rparr>)
        else if below_min r ctx
        then Inl (d\<lparr>decision := Deny, res_reason := ''Insufficient trust score''\<rparr>)
        else if above_max r ctx
        then Inl (d\<lparr>decision := Deny, res_reason := ''Trust score too high''\<rparr>)
        else if list_ex (\<lambda>c. map_of (custom_attributes ctx) c = None) (required_certifications r)
        then Inr (s\<lparr>res := d\<rparr>)
        else if where_expression r = [] then Inr (take_rule r d s)
        else if \<not> evaluate_expression (where_expression r) ctx then Inr (s\<lparr>res := d\<rparr>)
        else Inr (take_rule r (d\<lparr>matched_conditions :=
               matched_conditions d @ [''where: '' @ where_expression r]\<rparr>) s))"

primrec rule_loop :: "PolicyEvaluationContext \<Rightarrow> PolicyRule list \<Rightarrow> search \<Rightarrow> PolicyResult + search" where
  "rule_loop ctx [] s = Inr s"
| "rule_loop ctx (r # rs) s =
     (case rule_step ctx r s of Inl d \<Rightarrow> Inl d | Inr s' \<Rightarrow> rule_loop ctx rs s')"

definition reason_of :: "PolicyRule \<Rightarrow> string" where
  "reason_of r = (if rl_description r = [] then rl_name r else rl_description r)"

definition effect_note :: "PolicyDecision \<Rightarrow> (string \<times> string) list" where
  "effect_note e =
     (case e of Audit \<Rightarrow> [(''audit'', ''true'')] | Sandbox \<Rightarrow> [(''sandbox'', ''true'')]
      | RateLimit \<Rightarrow> [(''ratelimit'', ''true'')] | ReadOnly \<Rightarrow> [(''readonly'', ''true'')] | _ \<Rightarrow> [])"

definition conclude :: "search \<Rightarrow> PolicyResult" where
  "conclude s =
     (case (if deny_priority s < allow_priority s then allow_rule s else None) of
        Some a \<Rightarrow> (res s)\<lparr>decision := effect a, res_reason := reason_of a, metadata := effect_note (effect a)\<rparr>
      | None \<Rightarrow>
          (case (if deny_priority s \<noteq> int_min then deny_rule s else None) of
             Some d \<Rightarrow> (res s)\<lparr>decision := Deny, res_reason := reason_of d\<rparr>
           | None \<Rightarrow> res s))"

definition search_start :: search where
  "search_start =
     \<lparr>res = \<lparr>decision = Deny, res_reason = ''No matching policy'', matched_rules = [], present_capabilities = [],
             missing_capabilities = [], matched_conditions = [], metadata = []\<rparr>,
      allow_priority = int_min, allow_rule = None, deny_priority = int_min, deny_rule = None\<rparr>"

definition all_rules :: "(string \<times> PolicySet) list \<Rightarrow> PolicyRule list" where
  "all_rules ps = concat (map (rules \<circ> snd) ps)"

definition evaluate_impl ::
  "(PolicyRule list \<Rightarrow> PolicyRule list) \<Rightarrow> (string \<times> PolicySet) list \<Rightarrow> PolicyEvaluationContext \<Rightarrow> PolicyResult result" where
  "evaluate_impl srt ps ctx =
     Ok (case rule_loop ctx (srt (all_rules ps)) search_start of Inl d \<Rightarrow> d | Inr s \<Rightarrow> conclude s)"

section \<open>The engine\<close>

record EngineConfig =
  policy_dir :: string
  enable_caching :: bool
  cache_size :: u64
  cache_ttl_ns :: i64

definition config_new :: EngineConfig where
  "config_new = \<lparr>policy_dir = [], enable_caching = True, cache_size = 10000, cache_ttl_ns = 5000000000\<rparr>"

text \<open>\<open>cache_expiry\<close> is a time point of the steady clock, default-constructed
  as zero.\<close>

record PolicyEngine =
  engine_config :: EngineConfig
  policies :: "(string \<times> PolicySet) list"
  cache :: "(string \<times> PolicyResult) list"
  cache_expiry :: i64

definition load_policy_set :: "PolicySet \<Rightarrow> PolicyEngine \<Rightarrow> PolicyEngine \<times> unit result" where
  "load_policy_set ps e = (e\<lparr>policies := AList.update (ps_name ps) ps (policies e)\<rparr>, Ok ())"

definition make_cache_key :: "PolicyEvaluationContext \<Rightarrow> string" where
  "make_cache_key ctx =
     session_ident ctx @ ''|'' @ request_contract_id ctx @ ''|'' @ request_method ctx @ ''|'' @ session_mesh_id ctx"

definition evaluate ::
  "(PolicyRule list \<Rightarrow> PolicyRule list) \<Rightarrow> i64 \<Rightarrow> PolicyEvaluationContext \<Rightarrow> PolicyEngine
    \<Rightarrow> PolicyEngine \<times> PolicyResult result" where
  "evaluate srt now ctx e =
     (case (if enable_caching (engine_config e) \<and> sint now < sint (cache_expiry e)
            then map_of (cache e) (make_cache_key ctx) else None) of
        Some d \<Rightarrow> (e, Ok d)
      | None \<Rightarrow>
          (case evaluate_impl srt (policies e) ctx of
             Err er \<Rightarrow> (e, Err er)
           | Ok d \<Rightarrow>
               (if enable_caching (engine_config e)
                then e\<lparr>cache := AList.update (make_cache_key ctx) d (cache e)\<rparr> else e, Ok d)))"

definition check_capability ::
  "(PolicyRule list \<Rightarrow> PolicyRule list) \<Rightarrow> i64 \<Rightarrow> string \<Rightarrow> string \<Rightarrow> string \<Rightarrow> PolicyEngine
    \<Rightarrow> PolicyEngine \<times> bool result" where
  "check_capability srt now actor capability target e =
     (case evaluate srt now (context_new\<lparr>session_ident := actor, session_caps := [capability]\<rparr>) e of
        (e', Err er) \<Rightarrow> (e', Err er)
      | (e', Ok d) \<Rightarrow> (e', Ok (decision d = Allow)))"

definition get_effective_capabilities :: "string \<Rightarrow> string \<Rightarrow> PolicyEngine \<Rightarrow> string list result" where
  "get_effective_capabilities actor target e = Ok []"

definition list_policies :: "PolicyEngine \<Rightarrow> string list result" where
  "list_policies e = Ok (map fst (policies e))"

definition get_policy :: "string \<Rightarrow> PolicyEngine \<Rightarrow> PolicySet result" where
  "get_policy name e =
     (case map_of (policies e) name of
        None \<Rightarrow> Err (smo_err CatGovernance 404 Info RetrySafe RecNone)
      | Some ps \<Rightarrow> Ok ps)"

definition clear_policies :: "PolicyEngine \<Rightarrow> PolicyEngine \<times> unit result" where
  "clear_policies e = (e\<lparr>policies := [], cache := []\<rparr>, Ok ())"

section \<open>The built-in policies\<close>

text \<open>Each preset initialises its rules by position.  The trust bounds are written
  as float literals (here the binary32 numbers they denote) where the field is an
  int32_t: the conversion drops the fraction.\<close>

definition float_to_i32 :: "rat \<Rightarrow> i32" where
  "float_to_i32 q = word_of_int (if 0 \<le> q then floor q else ceiling q)"

definition rule ::
  "string \<Rightarrow> string \<Rightarrow> i32 \<Rightarrow> string list \<Rightarrow> string list \<Rightarrow> string list \<Rightarrow> string list \<Rightarrow> PolicyDecision \<Rightarrow>
   i32 option \<Rightarrow> i32 option \<Rightarrow> string list \<Rightarrow> string \<Rightarrow> string \<Rightarrow> PolicyRule" where
  "rule nm desc prio req forb roles froles eff mn mx certs mesh wh =
     \<lparr>rl_name = nm, rl_description = desc, rl_priority = prio, required_capabilities = req,
      forbidden_capabilities = forb, required_roles = roles, forbidden_roles = froles, effect = eff,
      min_trust_score = mn, max_trust_score = mx, required_certifications = certs, rl_mesh_id = mesh,
      where_expression = wh\<rparr>"

definition ENTERPRISE_STANDARD :: PolicySet where
  "ENTERPRISE_STANDARD =
     \<lparr>ps_name = ''enterprise-standard'', ps_description = ''Standard enterprise security policy'',
      rules =
       [rule ''require-certificate'' ''Require valid membership certificate'' 100 [''CAP_VERIFY''] []
          [''Member''] [] Allow None None [''CAP_VERIFY''] [] [],
        rule ''allow-read-members'' ''Allow read operations for members'' 50 [''CAP_FS_READ'', ''CAP_VERIFY''] []
          [''Member'', ''Contributor'', ''Authority''] [] Allow (Some (float_to_i32 (5033165 / 16777216))) None [] [] [],
        rule ''allow-write-contributors'' ''Allow write operations for contributors'' 50 [''CAP_FS_WRITE'', ''CAP_VERIFY''] []
          [''Contributor'', ''Authority''] [] Allow (Some (float_to_i32 (1 / 2))) None [] [] [],
        rule ''admin-operations'' ''Authority can perform admin operations'' 10 [''CAP_ADMIN'', ''CAP_VERIFY''] []
          [''Authority''] [] Allow (Some (float_to_i32 (13421773 / 16777216))) None [''CAP_ADMIN''] [] [],
        rule ''default-deny'' ''Deny all other operations'' (- 100) [] []
          [] [] Deny None None [] [] []],
      ps_version = ''1.0'', ps_created_at = 0, created_by = ''system''\<rparr>"

definition READONLY :: PolicySet where
  "READONLY =
     \<lparr>ps_name = ''readonly'', ps_description = ''Read-only access policy'',
      rules =
       [rule ''require-certificate'' ''Require valid certificate'' 100 [''CAP_VERIFY''] []
          [''Member''] [] Allow None None [''CAP_VERIFY''] [] [],
        rule ''allow-read-only'' ''Allow read operations only'' 50 [''CAP_FS_READ'', ''CAP_VERIFY''] []
          [''Member'', ''Contributor'', ''Authority''] [] Allow None None [] [] [],
        rule ''deny-write'' ''Deny all write operations'' 10 [] [''CAP_FS_WRITE'', ''CAP_FS_DELETE'', ''CAP_EXEC'', ''CAP_ADMIN'']
          [] [] Deny None None [] [] []],
      ps_version = ''1.0'', ps_created_at = 0, created_by = ''system''\<rparr>"

definition BACKUP :: PolicySet where
  "BACKUP =
     \<lparr>ps_name = ''backup'', ps_description = ''Backup operations policy'',
      rules =
       [rule ''require-certificate'' ''Require valid certificate'' 100 [''CAP_VERIFY''] []
          [''Member''] [] Allow None None [''CAP_VERIFY''] [] [],
        rule ''allow-backup'' ''Allow backup operations'' 50 [''CAP_FS_READ'', ''CAP_TRANSFER'', ''CAP_VERIFY''] []
          [''Backup'', ''Contributor'', ''Authority''] [] Allow None None [] [] [],
        rule ''deny-other'' ''Deny non-backup operations'' 10 [] [''CAP_FS_WRITE'', ''CAP_EXEC'', ''CAP_ADMIN'']
          [] [] Deny None None [] [] []],
      ps_version = ''1.0'', ps_created_at = 0, created_by = ''system''\<rparr>"

definition INCIDENT_RESPONSE :: PolicySet where
  "INCIDENT_RESPONSE =
     \<lparr>ps_name = ''incident-response'', ps_description = ''Emergency incident response policy'',
      rules =
       [rule ''require-authority'' ''Require Authority role'' 100 [''CAP_VERIFY''] []
          [''Authority'', ''IncidentCommander''] [] Allow (Some (float_to_i32 (7549747 / 8388608))) None [''CAP_VERIFY''] [] [],
        rule ''full-access'' ''Full access during incident'' 50 [''CAP_FS_READ'', ''CAP_FS_WRITE'', ''CAP_EXEC'', ''CAP_ADMIN'', ''CAP_VERIFY''] []
          [''Authority'', ''IncidentCommander''] [] Allow (Some (float_to_i32 (7549747 / 8388608))) None [] [] [],
        rule ''audit-all'' ''Full audit logging'' 10 [''CAP_AUDIT'', ''CAP_VERIFY''] []
          [''Authority'', ''IncidentCommander'', ''Auditor''] [] Allow None None [''CAP_AUDIT''] [] []],
      ps_version = ''1.0'', ps_created_at = 0, created_by = ''system''\<rparr>"

definition MAINTENANCE :: PolicySet where
  "MAINTENANCE =
     \<lparr>ps_name = ''maintenance'', ps_description = ''Maintenance window policy'',
      rules =
       [rule ''require-maintainer'' ''Require Maintainer role'' 100 [''CAP_VERIFY''] []
          [''Maintainer'', ''Administrator'', ''Authority''] [] Allow None None [''CAP_VERIFY''] [] [],
        rule ''allow-maintenance'' ''Allow maintenance operations'' 50 [''CAP_FS_READ'', ''CAP_FS_WRITE'', ''CAP_EXEC'', ''CAP_ADMIN'', ''CAP_VERIFY''] []
          [''Maintainer'', ''Administrator'', ''Authority''] [] Allow None None [] [] [],
        rule ''deny-other'' ''Deny non-maintenance operations'' 10 [] [''CAP_TRANSFER'', ''CAP_EXEC'']
          [] [] Deny None None [] [] []],
      ps_version = ''1.0'', ps_created_at = 0, created_by = ''system''\<rparr>"

definition DEVOPS :: PolicySet where
  "DEVOPS =
     \<lparr>ps_name = ''devops'', ps_description = ''DevOps automation policy'',
      rules =
       [rule ''require-devops-cert'' ''Require DevOps certificate'' 100 [''CAP_VERIFY'', ''CAP_CI_CD''] []
          [''DevOps'', ''Administrator'', ''Authority''] [] Allow None None [''CAP_VERIFY'', ''CAP_CI_CD''] [] [],
        rule ''allow-deploy'' ''Allow deployment operations'' 50 [''CAP_FS_WRITE'', ''CAP_EXEC'', ''CAP_TRANSFER'', ''CAP_VERIFY'', ''CAP_CI_CD''] []
          [''DevOps'', ''Administrator'', ''Authority''] [] Allow (Some (float_to_i32 (1 / 2))) None [] [] [],
        rule ''deny-production'' ''Deny direct production changes without approval'' 10 [] [''CAP_FS_WRITE'']
          [] [''production''] Deny (Some (float_to_i32 (7549747 / 8388608))) None [] [] []],
      ps_version = ''1.0'', ps_created_at = 0, created_by = ''system''\<rparr>"

definition COMPLIANCE :: PolicySet where
  "COMPLIANCE =
     \<lparr>ps_name = ''compliance'', ps_description = ''Regulatory compliance policy'',
      rules =
       [rule ''require-audit-cap'' ''Require audit capability'' 100 [''CAP_AUDIT'', ''CAP_VERIFY''] []
          [''Auditor'', ''Compliance'', ''Authority''] [] Allow (Some (float_to_i32 (13421773 / 16777216))) None [''CAP_AUDIT''] [] [],
        rule ''audit-read'' ''Allow audit read operations'' 50 [''CAP_FS_READ'', ''CAP_AUDIT'', ''CAP_VERIFY''] []
          [''Auditor'', ''Compliance'', ''Authority''] [] Allow None None [] [] [],
        rule ''deny-modify-audit'' ''Prevent audit log modification'' 10 [] [''CAP_AUDIT_WRITE'', ''CAP_AUDIT_DELETE'']
          [] [] Deny None None [] [] []],
      ps_version = ''1.0'', ps_created_at = 0, created_by = ''system''\<rparr>"

definition load_builtin_presets :: "(string \<times> PolicySet) list \<Rightarrow> (string \<times> PolicySet) list" where
  "load_builtin_presets ps =
     fold (\<lambda>(k, p). AList.update k p)
       [(''enterprise-standard'', ENTERPRISE_STANDARD), (''readonly'', READONLY), (''backup'', BACKUP),
        (''incident-response'', INCIDENT_RESPONSE), (''maintenance'', MAINTENANCE), (''devops'', DEVOPS),
        (''compliance'', COMPLIANCE)] ps"

definition policy_engine_new :: "EngineConfig \<Rightarrow> PolicyEngine" where
  "policy_engine_new cfg =
     \<lparr>engine_config = cfg, policies = load_builtin_presets [], cache = [], cache_expiry = 0\<rparr>"

definition reload ::
  "(string \<Rightarrow> PolicyEngine \<Rightarrow> PolicyEngine \<times> unit result) \<Rightarrow> PolicyEngine \<Rightarrow> PolicyEngine \<times> unit result" where
  "reload load_policies e =
     (let e1 = e\<lparr>policies := load_builtin_presets [], cache := []\<rparr>
      in if policy_dir (engine_config e) \<noteq> [] then load_policies (policy_dir (engine_config e)) e1
         else (e1, Ok ()))"

section \<open>What the search decides\<close>

text \<open>The library's promise for std::sort with the comparator of the code.\<close>

definition std_sort :: "(PolicyRule list \<Rightarrow> PolicyRule list) \<Rightarrow> bool" where
  "std_sort srt \<longleftrightarrow>
     (\<forall>rs. mset (srt rs) = mset rs \<and> sorted_wrt (\<lambda>a b. sint (rl_priority b) \<le> sint (rl_priority a)) (srt rs))"

text \<open>The reference: which rules a request reaches, which of them its trust score
  satisfies, and which apply.\<close>

definition eligible :: "PolicyEvaluationContext \<Rightarrow> PolicyRule \<Rightarrow> bool" where
  "eligible ctx r \<longleftrightarrow>
     matches_context r ctx \<and> set (required_capabilities r) \<subseteq> set (session_caps ctx) \<and>
     set (forbidden_capabilities r) \<inter> set (session_caps ctx) = {} \<and>
     (required_roles r = [] \<or> set (required_roles r) \<inter> set (session_roles ctx) \<noteq> {})"

definition trusted :: "PolicyEvaluationContext \<Rightarrow> PolicyRule \<Rightarrow> bool" where
  "trusted ctx r \<longleftrightarrow> \<not> below_min r ctx \<and> \<not> above_max r ctx"

definition applies :: "PolicyEvaluationContext \<Rightarrow> PolicyRule \<Rightarrow> bool" where
  "applies ctx r \<longleftrightarrow>
     eligible ctx r \<and> trusted ctx r \<and> set (required_certifications r) \<subseteq> fst ` set (custom_attributes ctx)"

definition priority :: "PolicyRule \<Rightarrow> int" where
  "priority r = sint (rl_priority r)"

primrec best :: "(PolicyRule \<Rightarrow> bool) \<Rightarrow> PolicyRule list \<Rightarrow> int \<times> PolicyRule option \<Rightarrow> int \<times> PolicyRule option" where
  "best P [] b = b"
| "best P (r # rs) b = best P rs (if P r \<and> fst b < priority r then (priority r, Some r) else b)"

lemma best_facts:
  "best P rs (m, b) = (m, b) \<and> (\<forall>r \<in> set rs. P r \<longrightarrow> priority r \<le> m) \<or>
   (\<exists>r \<in> set rs. P r \<and> m < priority r \<and> best P rs (m, b) = (priority r, Some r) \<and>
      (\<forall>x \<in> set rs. P x \<longrightarrow> priority x \<le> priority r))"
proof (induction rs arbitrary: m b)
  case (Cons r rs)
  show ?case
  proof (cases "P r \<and> m < priority r")
    case True
    then show ?thesis using Cons [of "priority r" "Some r"] by fastforce
  next
    case False
    then show ?thesis using Cons [of m b] by fastforce
  qed
qed simp

lemma cert_missing:
  "list_ex (\<lambda>c. map_of al c = None) cs \<longleftrightarrow> \<not> set cs \<subseteq> fst ` set al"
  by (auto simp: list_ex_iff map_of_eq_None_iff)

lemma decision_note_caps [simp]: "decision (note_caps ctx r d) = decision d"
  by (simp add: note_caps_def)

lemma step_ineligible:
  assumes "\<not> eligible ctx r"
  shows "\<exists>d. rule_step ctx r s = Inr (s\<lparr>res := d\<rparr>) \<and> decision d = decision (res s)"
proof -
  consider (mesh) "\<not> matches_context r ctx"
    | (caps) "matches_context r ctx" "list_ex (\<lambda>c. c \<notin> set (session_caps ctx)) (required_capabilities r)"
    | (forbidden) "matches_context r ctx" "\<not> list_ex (\<lambda>c. c \<notin> set (session_caps ctx)) (required_capabilities r)"
        "list_ex (\<lambda>c. c \<in> set (session_caps ctx)) (forbidden_capabilities r)"
    | (roles) "matches_context r ctx" "\<not> list_ex (\<lambda>c. c \<notin> set (session_caps ctx)) (required_capabilities r)"
        "\<not> list_ex (\<lambda>c. c \<in> set (session_caps ctx)) (forbidden_capabilities r)"
        "required_roles r \<noteq> [] \<and> \<not> list_ex (\<lambda>x. x \<in> set (session_roles ctx)) (required_roles r)"
    using assms unfolding eligible_def list_ex_iff by blast
  then show ?thesis
  proof cases
    case mesh
    have "s = s\<lparr>res := res s\<rparr>" by (cases s) simp
    then show ?thesis using mesh by (intro exI [of _ "res s"]) (simp add: rule_step_def)
  qed (auto simp: rule_step_def Let_def decision_note_caps)
qed

lemma eligible_conds:
  assumes "eligible ctx r"
  shows "matches_context r ctx" "\<not> list_ex (\<lambda>c. c \<notin> set (session_caps ctx)) (required_capabilities r)"
    "\<not> list_ex (\<lambda>c. c \<in> set (session_caps ctx)) (forbidden_capabilities r)"
    "\<not> (required_roles r \<noteq> [] \<and> \<not> list_ex (\<lambda>x. x \<in> set (session_roles ctx)) (required_roles r))"
  using assms by (auto simp: eligible_def list_ex_iff)

lemma step_untrusted:
  assumes "eligible ctx r" "\<not> trusted ctx r"
  shows "\<exists>d. rule_step ctx r s = Inl d \<and> decision d = Deny"
  using assms eligible_conds [OF assms(1)] by (auto simp: rule_step_def Let_def trusted_def)

lemma step_uncertified:
  assumes "eligible ctx r" "trusted ctx r" "\<not> applies ctx r"
  shows "\<exists>d. rule_step ctx r s = Inr (s\<lparr>res := d\<rparr>) \<and> decision d = decision (res s)"
proof -
  have "list_ex (\<lambda>c. map_of (custom_attributes ctx) c = None) (required_certifications r)"
    using assms by (simp add: cert_missing applies_def)
  then show ?thesis
    using eligible_conds [OF assms(1)] assms(2) by (auto simp: rule_step_def Let_def trusted_def)
qed

lemma step_applies:
  assumes "applies ctx r"
  shows "\<exists>d. rule_step ctx r s = Inr (take_rule r d s) \<and> decision d = decision (res s)"
proof -
  have e: "eligible ctx r" "trusted ctx r" using assms by (simp_all add: applies_def)
  have "\<not> list_ex (\<lambda>c. map_of (custom_attributes ctx) c = None) (required_certifications r)"
    using assms by (simp add: cert_missing applies_def)
  then show ?thesis
    using eligible_conds [OF e(1)] e(2)
    by (auto simp: rule_step_def Let_def trusted_def evaluate_expression_def)
qed

definition granting :: "PolicyEvaluationContext \<Rightarrow> PolicyRule \<Rightarrow> bool" where
  "granting ctx r \<longleftrightarrow> applies ctx r \<and> effect r \<noteq> Deny"

definition denying :: "PolicyEvaluationContext \<Rightarrow> PolicyRule \<Rightarrow> bool" where
  "denying ctx r \<longleftrightarrow> applies ctx r \<and> effect r = Deny"

lemma take_rule_best:
  assumes "applies ctx r"
  shows "(allow_priority (take_rule r d s), allow_rule (take_rule r d s)) =
      best (granting ctx) [r] (allow_priority s, allow_rule s)"
    "(deny_priority (take_rule r d s), deny_rule (take_rule r d s)) =
      best (denying ctx) [r] (deny_priority s, deny_rule s)"
    "decision (res (take_rule r d s)) = decision d"
  using assms by (auto simp: take_rule_def Let_def granting_def denying_def priority_def)

lemma loop_facts:
  "case rule_loop ctx rs s of
     Inl d \<Rightarrow> decision d = Deny \<and> (\<exists>r \<in> set rs. eligible ctx r \<and> \<not> trusted ctx r)
   | Inr s' \<Rightarrow>
       (\<forall>r \<in> set rs. eligible ctx r \<longrightarrow> trusted ctx r) \<and> decision (res s') = decision (res s) \<and>
       (allow_priority s', allow_rule s') = best (granting ctx) rs (allow_priority s, allow_rule s) \<and>
       (deny_priority s', deny_rule s') = best (denying ctx) rs (deny_priority s, deny_rule s)"
proof (induction rs arbitrary: s)
  case (Cons r rs)
  consider (untrusted) "eligible ctx r" "\<not> trusted ctx r" | (skip) "\<not> applies ctx r" "eligible ctx r \<longrightarrow> trusted ctx r"
    | (applies) "applies ctx r"
    by (auto simp: applies_def)
  then show ?case
  proof cases
    case untrusted
    then show ?thesis using step_untrusted [OF untrusted, of s] by auto
  next
    case skip
    then obtain d where d: "rule_step ctx r s = Inr (s\<lparr>res := d\<rparr>)" "decision d = decision (res s)"
      using step_ineligible step_uncertified by blast
    have "\<not> granting ctx r" "\<not> denying ctx r" using skip by (simp_all add: granting_def denying_def)
    then show ?thesis
      using Cons [of "s\<lparr>res := d\<rparr>"] d skip(2) by (auto split: sum.split)
  next
    case applies
    then obtain d where d: "rule_step ctx r s = Inr (take_rule r d s)" "decision d = decision (res s)"
      using step_applies by blast
    have "eligible ctx r \<longrightarrow> trusted ctx r" using applies by (simp add: applies_def)
    then show ?thesis
      using Cons [of "take_rule r d s"] d take_rule_best [OF applies, of d s] by (auto split: sum.split)
  qed
qed simp

lemma set_srt: "std_sort srt \<Longrightarrow> set (srt rs) = set rs"
  by (metis std_sort_def set_mset_mset)

lemma evaluate_granted_iff:
  assumes srt: "std_sort srt" and d: "evaluate_impl srt ps ctx = Ok d"
  defines "R \<equiv> set (all_rules ps)"
  shows "decision d \<noteq> Deny \<longleftrightarrow>
    (\<forall>r \<in> R. eligible ctx r \<longrightarrow> trusted ctx r) \<and>
    (\<exists>a \<in> R. granting ctx a \<and> int_min < priority a \<and> (\<forall>x \<in> R. denying ctx x \<longrightarrow> priority x < priority a))"
    and "decision d \<noteq> Deny \<Longrightarrow>
      \<exists>a \<in> R. granting ctx a \<and> decision d = effect a \<and> res_reason d = reason_of a \<and>
        (\<forall>x \<in> R. applies ctx x \<longrightarrow> priority x \<le> priority a)"
proof -
  have R: "set (srt (all_rules ps)) = R" using set_srt [OF srt] by (simp add: R_def)
  note lf = loop_facts [where ctx = ctx and rs = "srt (all_rules ps)" and s = search_start, unfolded R]
  note bg = best_facts [of "granting ctx" "srt (all_rules ps)" int_min None, unfolded R]
  note bd = best_facts [of "denying ctx" "srt (all_rules ps)" int_min None, unfolded R]
  have split: "applies ctx x \<longleftrightarrow> granting ctx x \<or> denying ctx x" for x
    by (auto simp: granting_def denying_def)
  have "(decision d \<noteq> Deny \<longleftrightarrow>
    (\<forall>r \<in> R. eligible ctx r \<longrightarrow> trusted ctx r) \<and>
    (\<exists>a \<in> R. granting ctx a \<and> int_min < priority a \<and> (\<forall>x \<in> R. denying ctx x \<longrightarrow> priority x < priority a))) \<and>
    (decision d \<noteq> Deny \<longrightarrow>
      (\<exists>a \<in> R. granting ctx a \<and> decision d = effect a \<and> res_reason d = reason_of a \<and>
        (\<forall>x \<in> R. applies ctx x \<longrightarrow> priority x \<le> priority a)))"
  proof (cases "rule_loop ctx (srt (all_rules ps)) search_start")
    case (Inl d')
    then show ?thesis using d lf by (auto simp: evaluate_impl_def)
  next
    case (Inr s)
    have D: "d = conclude s" using d Inr by (simp add: evaluate_impl_def)
    have t: "\<forall>r \<in> R. eligible ctx r \<longrightarrow> trusted ctx r" and den: "decision (res s) = Deny"
      and al: "(allow_priority s, allow_rule s) = best (granting ctx) (srt (all_rules ps)) (int_min, None)"
      and de: "(deny_priority s, deny_rule s) = best (denying ctx) (srt (all_rules ps)) (int_min, None)"
      using lf Inr by (simp_all add: search_start_def)
    from bg show ?thesis
    proof
      assume "best (granting ctx) (srt (all_rules ps)) (int_min, None) = (int_min, None) \<and>
        (\<forall>r \<in> R. granting ctx r \<longrightarrow> priority r \<le> int_min)"
      then have "allow_rule s = None" "\<forall>r \<in> R. granting ctx r \<longrightarrow> priority r \<le> int_min" using al by simp_all
      then show ?thesis using D den by (force simp: conclude_def split: option.split)
    next
      assume "\<exists>r \<in> R. granting ctx r \<and> int_min < priority r \<and>
        best (granting ctx) (srt (all_rules ps)) (int_min, None) = (priority r, Some r) \<and>
        (\<forall>x \<in> R. granting ctx x \<longrightarrow> priority x \<le> priority r)"
      then obtain a where a: "a \<in> R" "granting ctx a" "int_min < priority a"
        "\<forall>x \<in> R. granting ctx x \<longrightarrow> priority x \<le> priority a" "allow_priority s = priority a" "allow_rule s = Some a"
        using al by auto
      have E: "effect a \<noteq> Deny" using a(2) by (simp add: granting_def)
      have best_deny: "deny_priority s < priority a \<longleftrightarrow> (\<forall>x \<in> R. denying ctx x \<longrightarrow> priority x < priority a)"
        using bd de a(3) by force
      have some_better: "(\<exists>b \<in> R. granting ctx b \<and> int_min < priority b \<and> (\<forall>x \<in> R. denying ctx x \<longrightarrow> priority x < priority b))
          \<longleftrightarrow> (\<forall>x \<in> R. denying ctx x \<longrightarrow> priority x < priority a)"
        using a(1-4) by (meson less_le_trans)
      show ?thesis
      proof (cases "deny_priority s < priority a")
        case True
        then have da: "decision d = effect a" "res_reason d = reason_of a" using D a by (simp_all add: conclude_def)
        have "\<forall>x \<in> R. applies ctx x \<longrightarrow> priority x \<le> priority a"
          using a(4) True best_deny split by (meson less_imp_le)
        then have M: "\<exists>a \<in> R. granting ctx a \<and> decision d = effect a \<and> res_reason d = reason_of a \<and>
            (\<forall>x \<in> R. applies ctx x \<longrightarrow> priority x \<le> priority a)"
          using a(1,2) da by blast
        have G: "\<exists>b \<in> R. granting ctx b \<and> int_min < priority b \<and> (\<forall>x \<in> R. denying ctx x \<longrightarrow> priority x < priority b)"
          using True best_deny some_better by simp
        have N: "decision d \<noteq> Deny" using da E by simp
        show ?thesis by (intro conjI iffI impI) (rule t G N M)+
      next
        case False
        then have "decision d = Deny" using D a den by (auto simp: conclude_def split: option.split)
        moreover have "\<not> (\<exists>b \<in> R. granting ctx b \<and> int_min < priority b \<and> (\<forall>x \<in> R. denying ctx x \<longrightarrow> priority x < priority b))"
          using False best_deny some_better by simp
        ultimately show ?thesis by simp
      qed
    qed
  qed
  then show "decision d \<noteq> Deny \<longleftrightarrow>
    (\<forall>r \<in> R. eligible ctx r \<longrightarrow> trusted ctx r) \<and>
    (\<exists>a \<in> R. granting ctx a \<and> int_min < priority a \<and> (\<forall>x \<in> R. denying ctx x \<longrightarrow> priority x < priority a))"
    and "decision d \<noteq> Deny \<Longrightarrow>
      \<exists>a \<in> R. granting ctx a \<and> decision d = effect a \<and> res_reason d = reason_of a \<and>
        (\<forall>x \<in> R. applies ctx x \<longrightarrow> priority x \<le> priority a)"
    by blast+
qed

section \<open>The presets\<close>

lemmas preset_defs =
  ENTERPRISE_STANDARD_def READONLY_def BACKUP_def INCIDENT_RESPONSE_def MAINTENANCE_def DEVOPS_def COMPLIANCE_def

definition builtin_rules :: "PolicyRule list" where
  "builtin_rules = all_rules (load_builtin_presets [])"

lemma builtin_rules_eq:
  "builtin_rules =
     rules ENTERPRISE_STANDARD @ rules READONLY @ rules BACKUP @ rules INCIDENT_RESPONSE @ rules MAINTENANCE @
     rules DEVOPS @ rules COMPLIANCE"
  by (simp add: builtin_rules_def load_builtin_presets_def all_rules_def)

lemma float_bounds:
  "float_to_i32 (5033165 / 16777216) = 0" "float_to_i32 (1 / 2) = 0" "float_to_i32 (13421773 / 16777216) = 0"
  "float_to_i32 (7549747 / 8388608) = 0"
proof -
  have z: "0 \<le> q \<Longrightarrow> q < 1 \<Longrightarrow> float_to_i32 q = 0" for q
    using floor_unique [of 0 q] by (simp add: float_to_i32_def)
  show "float_to_i32 (5033165 / 16777216) = 0" "float_to_i32 (1 / 2) = 0"
    "float_to_i32 (13421773 / 16777216) = 0" "float_to_i32 (7549747 / 8388608) = 0"
    by (rule z; simp)+
qed

text \<open>Every trust bound of the presets has become zero, and every preset rule that
  grants asks for a capability and for a role.\<close>

lemma preset_facts:
  "list_all (\<lambda>r. (min_trust_score r = None \<or> min_trust_score r = Some 0) \<and> max_trust_score r = None) builtin_rules"
  "list_all (\<lambda>r. effect r = Deny \<or> required_capabilities r \<noteq> [] \<and> required_roles r \<noteq> []) builtin_rules"
  by (simp_all add: builtin_rules_eq preset_defs rule_def float_bounds)

lemma no_grant:
  assumes "std_sort srt" "evaluate_impl srt ps ctx = Ok d" "\<forall>r \<in> set (all_rules ps). \<not> granting ctx r"
  shows "decision d = Deny"
  using evaluate_granted_iff(1) [OF assms(1,2)] assms(3) by blast

text \<open>A request without roles, or without capabilities, is denied by the presets.\<close>

lemma presets_deny:
  assumes "std_sort srt" "evaluate_impl srt (load_builtin_presets []) ctx = Ok d"
    and "session_roles ctx = [] \<or> session_caps ctx = []"
  shows "decision d = Deny"
proof (rule no_grant [OF assms(1,2)], rule ballI)
  fix r assume "r \<in> set (all_rules (load_builtin_presets []))"
  then have "effect r = Deny \<or> required_capabilities r \<noteq> [] \<and> required_roles r \<noteq> []"
    using preset_facts(2) unfolding list_all_iff builtin_rules_def by blast
  then show "\<not> granting ctx r" using assms(3) by (auto simp: granting_def applies_def eligible_def)
qed

text \<open>check_capability asks with one capability and no role: with the presets it
  refuses every capability of every actor.\<close>

lemma preset_capability_check:
  assumes "std_sort srt" "policies e = load_builtin_presets []" "cache_expiry e = 0" "0 \<le> sint now"
  shows "snd (check_capability srt now actor capability target e) = Ok False"
proof -
  let ?ctx = "context_new\<lparr>session_ident := actor, session_caps := [capability]\<rparr>"
  obtain d where d: "evaluate_impl srt (policies e) ?ctx = Ok d" by (simp add: evaluate_impl_def)
  have "decision d = Deny"
    using presets_deny [OF assms(1) d [unfolded assms(2)]] by (simp add: context_new_def)
  then show ?thesis using d assms(3,4) by (simp add: check_capability_def evaluate_def)
qed

section \<open>Properties\<close>

text \<open>
  C10. The decision is the one of the rules: whatever order the policies are walked in
  and however the sort arranges rules of equal priority, a request passes exactly
  when its trust score satisfies every rule it is eligible for and some applying
  rule grants with a priority above that of every applying deny rule and above the
  least 32-bit integer, where the search for the highest starts.  The decision is then the effect of an applying rule of the highest priority.
\<close>

theorem policy_decision_exact:
  assumes "std_sort srt" "evaluate_impl srt ps ctx = Ok d"
  shows "(decision d \<noteq> Deny \<longleftrightarrow>
      (\<forall>r \<in> set (all_rules ps). eligible ctx r \<longrightarrow> trusted ctx r) \<and>
      (\<exists>a \<in> set (all_rules ps). granting ctx a \<and> int_min < priority a \<and>
         (\<forall>x \<in> set (all_rules ps). denying ctx x \<longrightarrow> priority x < priority a))) \<and>
    (decision d \<noteq> Deny \<longrightarrow>
      (\<exists>a \<in> set (all_rules ps). granting ctx a \<and> decision d = effect a \<and> res_reason d = reason_of a \<and>
         (\<forall>x \<in> set (all_rules ps). applies ctx x \<longrightarrow> priority x \<le> priority a)))"
  using evaluate_granted_iff [OF assms] by blast

definition stable_sort :: "PolicyRule list \<Rightarrow> PolicyRule list" where
  "stable_sort = sort_key (\<lambda>r. - sint (rl_priority r))"

lemma stable_sort_ok: "std_sort stable_sort"
proof -
  have "sorted_wrt (\<lambda>a b. sint (rl_priority b) \<le> sint (rl_priority a)) (stable_sort rs)" for rs
    using sorted_sort_key [of "\<lambda>r. - sint (rl_priority r)" rs] by (simp add: stable_sort_def sorted_map)
  then show ?thesis by (simp add: std_sort_def stable_sort_def)
qed

definition reader :: PolicyEvaluationContext where
  "reader = context_new\<lparr>session_roles := [''Member''], session_caps := [''CAP_VERIFY'', ''CAP_FS_READ'']\<rparr>"

theorem policy_decision_exact_witness:
  "\<exists>d. evaluate_impl stable_sort [(''readonly'', READONLY)] reader = Ok d \<and> decision d = Allow"
proof -
  obtain d where d: "evaluate_impl stable_sort [(''readonly'', READONLY)] reader = Ok d"
    by (simp add: evaluate_impl_def)
  note ex = policy_decision_exact [OF stable_sort_ok d]
  have R: "set (all_rules [(''readonly'', READONLY)]) = set (rules READONLY)" by (simp add: all_rules_def)
  have "decision d \<noteq> Deny"
    using ex unfolding R
    by (simp add: READONLY_def rule_def granting_def denying_def applies_def eligible_def trusted_def priority_def
        matches_context_def below_min_def above_max_def reader_def context_new_def int_min_def)
  moreover have "effect a = Deny \<or> effect a = Allow" if "a \<in> set (rules READONLY)" for a
    using that by (auto simp: READONLY_def rule_def)
  ultimately show ?thesis using ex d unfolding R by metis
qed

lemma score_bounds_only:
  assumes "\<forall>r \<in> set rs. below_min r (ctx\<lparr>session_trust_score := x\<rparr>) = below_min r (ctx\<lparr>session_trust_score := y\<rparr>) \<and>
      above_max r (ctx\<lparr>session_trust_score := x\<rparr>) = above_max r (ctx\<lparr>session_trust_score := y\<rparr>)"
  shows "rule_loop (ctx\<lparr>session_trust_score := x\<rparr>) rs s = rule_loop (ctx\<lparr>session_trust_score := y\<rparr>) rs s"
  using assms
proof (induction rs arbitrary: s)
  case (Cons r rs)
  have "rule_step (ctx\<lparr>session_trust_score := x\<rparr>) r s = rule_step (ctx\<lparr>session_trust_score := y\<rparr>) r s"
    using Cons.prems
    by (simp add: rule_step_def matches_context_def note_caps_def evaluate_expression_def cong: if_cong)
  then show ?case using Cons by (simp split: sum.split)
qed simp

text \<open>
  C26. The presets ask for no trust: the bounds 0.3, 0.5, 0.8 and 0.9 of the built-in
  policies are stored as int32_t and become zero, so the score of a peer, as long
  as it is not negative, has no influence on any decision of the start-up engine,
  neither on its effect nor on anything it reports.
\<close>

theorem preset_trust_bounds_vanish:
  assumes "std_sort srt" "f64_nonneg x" "f64_nonneg y"
  shows "evaluate_impl srt (policies (policy_engine_new cfg)) (ctx\<lparr>session_trust_score := x\<rparr>) =
         evaluate_impl srt (policies (policy_engine_new cfg)) (ctx\<lparr>session_trust_score := y\<rparr>)"
proof -
  have z: "f64_of_int 0 = 0" by (simp add: f64_of_int_def round_mag_def f64_pack_def)
  have nb: "\<not> below_min r (ctx\<lparr>session_trust_score := v\<rparr>) \<and> \<not> above_max r (ctx\<lparr>session_trust_score := v\<rparr>)"
    if "r \<in> set builtin_rules" "f64_nonneg v" for r v
  proof -
    have b: "(min_trust_score r = None \<or> min_trust_score r = Some 0) \<and> max_trust_score r = None"
      using preset_facts(1) that(1) unfolding list_all_iff by blast
    have "\<not> f64_less v 0" using that(2) by (simp add: f64_less_def f64_nonneg_def f64_le_def)
    then show ?thesis using b z by (auto simp: below_min_def above_max_def)
  qed
  have "rule_loop (ctx\<lparr>session_trust_score := x\<rparr>) (srt builtin_rules) search_start =
        rule_loop (ctx\<lparr>session_trust_score := y\<rparr>) (srt builtin_rules) search_start"
    using nb assms(2,3) by (intro score_bounds_only) (simp add: set_srt [OF assms(1)])
  then show ?thesis by (simp add: evaluate_impl_def policy_engine_new_def builtin_rules_def)
qed

theorem preset_trust_bounds_vanish_witness:
  "evaluate_impl stable_sort (policies (policy_engine_new config_new)) (reader\<lparr>session_trust_score := 0\<rparr>) =
   evaluate_impl stable_sort (policies (policy_engine_new config_new)) (reader\<lparr>session_trust_score := f64_one\<rparr>)"
  by (rule preset_trust_bounds_vanish [OF stable_sort_ok]) (simp_all add: unit_nonneg)

text \<open>The deny rules of the presets list the capabilities they mean to deny as
  forbidden ones, and a rule applies only to sessions that hold none of these:
  the readonly policy denies nothing to a session that can write.\<close>

lemma deny_write_spares_writers:
  "r \<in> set (rules READONLY) \<Longrightarrow> ''CAP_FS_WRITE'' \<in> set (session_caps ctx) \<Longrightarrow> \<not> denying ctx r"
  by (auto simp: READONLY_def rule_def denying_def applies_def eligible_def)

text \<open>The expiry of the cache is never set, and the steady clock does not run
  before its epoch: no result is taken from the cache, and each evaluation of a
  new request leaves one more entry.\<close>

lemma cache_never_read:
  assumes "cache_expiry e = 0" "0 \<le> sint now"
  shows "snd (evaluate srt now ctx e) = evaluate_impl srt (policies e) ctx"
    "cache_expiry (fst (evaluate srt now ctx e)) = 0" "policies (fst (evaluate srt now ctx e)) = policies e"
  using assms by (simp_all add: evaluate_def evaluate_impl_def)

end
