(* ===== verification/Trust.thy ===== *)
theory Trust
  imports Float64 Certificate "HOL-Library.AList"
begin

text \<open>
  Trust scores (core/trust/trust.hpp and trust.cpp): the composite score and its
  levels, what raises and lowers a score, trust anchors, attestations, the digests
  peers exchange, the decay over time and the stored form.  A double is its bit
  pattern with the arithmetic of theory \<open>Float64\<close>; std::pow, whose rounding
  the library leaves open, and the signature check are arguments.  The table of
  scores is an association list with one entry per key.
\<close>

section \<open>Scores\<close>

datatype TrustLevel = TLNone | TLLow | TLMedium | TLHigh | TLAbsolute

record TrustComponents =
  citizen :: f64
  execution :: f64
  witness_part :: f64
  consistency :: f64

record TrustConfig =
  weight_citizen :: f64
  weight_execution :: f64
  weight_witness :: f64
  weight_consistency :: f64
  decay_half_life_days :: f64
  citizen_penalty_offline :: f64
  requester_penalty_rejected :: f64
  requester_penalty_no_authority :: f64

record TrustScore =
  ts_node_id :: bytes
  components :: TrustComponents
  composite :: f64
  last_updated :: i64

record Attestation =
  witness_id :: bytes
  subject_id :: bytes
  claimed_score :: f64
  att_timestamp :: i64
  att_signature :: bytes

record TrustAnchor =
  ta_node_id :: bytes
  ta_public_key :: bytes
  added_at :: i64

record TrustDigest =
  origin :: bytes
  dg_sequence :: i64
  dg_timestamp :: i64
  dg_scores :: "TrustScore list"
  dg_signature :: bytes

record TrustManager =
  config :: TrustConfig
  scores :: "(u64 \<times> TrustScore) list"
  anchors :: "TrustAnchor list"
  digest_seq :: i64

definition default_config :: TrustConfig where
  "default_config =
     \<lparr>weight_citizen = 0x3FC999999999999A, weight_execution = 0x3FE0000000000000,
      weight_witness = 0x3FC999999999999A, weight_consistency = 0x3FB999999999999A,
      decay_half_life_days = 0x403E000000000000, citizen_penalty_offline = 0x3F50624DD2F1A9FC,
      requester_penalty_rejected = 0x3F847AE147AE147B,
      requester_penalty_no_authority = 0x3FA999999999999A\<rparr>"

definition ts_new :: TrustScore where
  "ts_new =
     \<lparr>ts_node_id = replicate 32 0,
      components = \<lparr>citizen = 0, execution = 0, witness_part = 0, consistency = 0\<rparr>,
      composite = 0, last_updated = 0\<rparr>"

definition tm_new :: "TrustConfig \<Rightarrow> TrustManager" where
  "tm_new cfg = \<lparr>config = cfg, scores = [], anchors = [], digest_seq = 0\<rparr>"

definition err_trust :: "u16 \<Rightarrow> severity \<Rightarrow> retry_class \<Rightarrow> error_code" where
  "err_trust c sev r = smo_err CatTrust c sev r RecNone"

definition compute_composite :: "TrustComponents \<Rightarrow> f64" where
  "compute_composite c =
     (let s = f64_add (f64_add (f64_add (f64_mul (citizen c) 0x3FC999999999999A)
                                         (f64_mul (execution c) 0x3FE0000000000000))
                                (f64_mul (witness_part c) 0x3FC999999999999A))
                      (f64_mul (consistency c) 0x3FB999999999999A);
          s1 = (if f64_less f64_one s then f64_one else s)
      in if f64_less s1 0 then 0 else s1)"

definition compute_trust_level :: "f64 \<Rightarrow> TrustLevel" where
  "compute_trust_level score =
     (if f64_le 0x3FECCCCCCCCCCCCD score then TLAbsolute
      else if f64_le 0x3FE6666666666666 score then TLHigh
      else if f64_le 0x3FD999999999999A score then TLMedium
      else if f64_le 0x3FC999999999999A score then TLLow
      else TLNone)"

definition ts_level :: "TrustScore \<Rightarrow> TrustLevel" where
  "ts_level s = compute_trust_level (composite s)"

section \<open>Wire format\<close>

definition ts_serialize :: "TrustScore \<Rightarrow> bytes" where
  "ts_serialize s =
     ts_node_id s @ write_be 8 (citizen (components s)) @ write_be 8 (execution (components s))
     @ write_be 8 (witness_part (components s)) @ write_be 8 (consistency (components s))
     @ write_be 8 (composite s) @ write_be 8 (last_updated s)"

definition ts_deserialize :: "bytes \<Rightarrow> TrustScore result" where
  "ts_deserialize data =
     (if length data < 32 then Err (err_trust 200 Info RetrySafe)
      else let (ci, r1) = read_be 8 (drop 32 data); (ex, r2) = read_be 8 r1; (wi, r3) = read_be 8 r2;
               (co, r4) = read_be 8 r3; (cm, r5) = read_be 8 r4; (lu, r6) = read_be 8 r5
           in Ok \<lparr>ts_node_id = take 32 data,
                  components = \<lparr>citizen = ci, execution = ex, witness_part = wi, consistency = co\<rparr>,
                  composite = cm, last_updated = lu\<rparr>)"

definition write_blob :: "bytes \<Rightarrow> bytes" where
  "write_blob b = write_be 4 (of_nat (length b) :: u32) @ b"

definition read_blob :: "bytes \<Rightarrow> bytes \<times> bytes" where
  "read_blob bs =
     (case read_be 4 bs of (n :: u32, r) \<Rightarrow>
        if length r < unat n then ([], r) else (take (unat n) r, drop (unat n) r))"

definition att_serialize :: "Attestation \<Rightarrow> bytes" where
  "att_serialize a =
     witness_id a @ subject_id a @ write_be 8 (claimed_score a) @ write_be 8 (att_timestamp a)
     @ write_blob (att_signature a)"

definition att_deserialize :: "bytes \<Rightarrow> Attestation result" where
  "att_deserialize data =
     (if length data < 64 then Err (err_trust 206 SevError NoRetry)
      else let (cs, r1) = read_be 8 (drop 64 data); (t, r2) = read_be 8 r1; (sg, r3) = read_blob r2
           in Ok \<lparr>witness_id = take 32 data, subject_id = take 32 (drop 32 data), claimed_score = cs,
                  att_timestamp = t, att_signature = sg\<rparr>)"

definition write_scores :: "TrustScore list \<Rightarrow> bytes" where
  "write_scores ss =
     write_be 4 (of_nat (length ss) :: u32) @ concat (map (\<lambda>s. write_blob (ts_serialize s)) ss)"

definition digest_serialize :: "TrustDigest \<Rightarrow> bytes" where
  "digest_serialize d =
     origin d @ write_be 8 (dg_sequence d) @ write_be 8 (dg_timestamp d)
     @ write_scores (dg_scores d) @ write_blob (dg_signature d)"

text \<open>The loop over counted score records: a record that does not fit or does not
  parse ends it, at the offset behind the record's length.\<close>

primrec score_loop :: "nat \<Rightarrow> bytes \<Rightarrow> TrustScore list \<Rightarrow> TrustScore list \<times> bytes" where
  "score_loop 0 bs acc = (acc, bs)"
| "score_loop (Suc n) bs acc =
     (case read_be 4 bs of (slen :: u32, r) \<Rightarrow>
        if length r < unat slen then (acc, r)
        else case ts_deserialize (take (unat slen) r) of
               Err _ \<Rightarrow> (acc, r)
             | Ok s \<Rightarrow> score_loop n (drop (unat slen) r) (acc @ [s]))"

definition digest_deserialize :: "bytes \<Rightarrow> TrustDigest result" where
  "digest_deserialize data =
     (if length data < 32 then Err (err_trust 203 Warn NoRetry)
      else let (sq, r1) = read_be 8 (drop 32 data); (t, r2) = read_be 8 r1;
               (n :: u32, r3) = read_be 4 r2; (ss, r4) = score_loop (unat n) r3 [];
               (sig_len :: u32, r5) = read_be 4 r4
           in if length r5 < unat sig_len then Err (err_trust 203 Warn NoRetry)
              else Ok \<lparr>origin = take 32 data, dg_sequence = sq, dg_timestamp = t, dg_scores = ss,
                       dg_signature = take (unat sig_len) r5\<rparr>)"

section \<open>The trust manager\<close>

definition node_id_key :: "bytes \<Rightarrow> u64" where
  "node_id_key nid =
     foldl (\<lambda>h i. h XOR fst (read_be 8 (drop i nid))) 0 [0, 8, 16, 24]"

definition score_at :: "bytes \<Rightarrow> TrustManager \<Rightarrow> TrustScore" where
  "score_at node tm = (case map_of (scores tm) (node_id_key node) of Some s \<Rightarrow> s | None \<Rightarrow> ts_new)"

text \<open>What the record functions do with the components they have changed.\<close>

definition set_score :: "bytes \<Rightarrow> TrustComponents \<Rightarrow> i64 \<Rightarrow> TrustManager \<Rightarrow> TrustManager" where
  "set_score node c now tm =
     tm\<lparr>scores := AList.update (node_id_key node)
          \<lparr>ts_node_id = node, components = c, composite = compute_composite c, last_updated = now\<rparr> (scores tm)\<rparr>"

definition record_success :: "bytes \<Rightarrow> f64 \<Rightarrow> i64 \<Rightarrow> TrustManager \<Rightarrow> TrustManager" where
  "record_success node weight now tm =
     (let c = components (score_at node tm);
          e = f64_add (execution c) (f64_mul 0x3F847AE147AE147B weight);
          e1 = (if f64_less f64_one e then f64_one else e);
          e2 = (if f64_less e1 0 then 0 else e1)
      in set_score node (c\<lparr>execution := e2\<rparr>) now tm)"

definition record_failure :: "bytes \<Rightarrow> f64 \<Rightarrow> i64 \<Rightarrow> TrustManager \<Rightarrow> TrustManager" where
  "record_failure node weight now tm =
     (let c = components (score_at node tm);
          e = f64_sub (execution c) (f64_mul 0x3F947AE147AE147B weight);
          e1 = (if f64_less e 0 then 0 else e)
      in set_score node (c\<lparr>execution := e1\<rparr>) now tm)"

definition record_offline :: "bytes \<Rightarrow> i64 \<Rightarrow> TrustManager \<Rightarrow> TrustManager" where
  "record_offline node now tm =
     (let c = components (score_at node tm);
          v = f64_sub (citizen c) (citizen_penalty_offline (config tm));
          v1 = (if f64_less v 0 then 0 else v)
      in set_score node (c\<lparr>citizen := v1\<rparr>) now tm)"

definition is_trust_anchor :: "bytes \<Rightarrow> TrustManager \<Rightarrow> bool" where
  "is_trust_anchor node tm = list_ex (\<lambda>a. ta_node_id a = node) (anchors tm)"

definition get_score :: "bytes \<Rightarrow> TrustManager \<Rightarrow> f64 result" where
  "get_score node tm =
     (case map_of (scores tm) (node_id_key node) of
        None \<Rightarrow> if is_trust_anchor node tm then Ok f64_one else Err (err_trust 200 Info RetrySafe)
      | Some s \<Rightarrow> Ok (composite s))"

definition get_record :: "bytes \<Rightarrow> TrustManager \<Rightarrow> TrustScore result" where
  "get_record node tm =
     (case map_of (scores tm) (node_id_key node) of
        None \<Rightarrow>
          if is_trust_anchor node tm
          then Ok \<lparr>ts_node_id = node,
                   components = \<lparr>citizen = f64_one, execution = f64_one, witness_part = f64_one,
                                 consistency = f64_one\<rparr>,
                   composite = f64_one, last_updated = 0\<rparr>
          else Err (err_trust 200 Info RetrySafe)
      | Some s \<Rightarrow> Ok s)"

definition all_scores :: "TrustManager \<Rightarrow> TrustScore list" where
  "all_scores tm = map snd (scores tm)"

primrec put_anchor :: "TrustAnchor \<Rightarrow> TrustAnchor list \<Rightarrow> TrustAnchor list" where
  "put_anchor a [] = [a]"
| "put_anchor a (b # bs) = (if ta_node_id b = ta_node_id a then a # bs else b # put_anchor a bs)"

definition add_trust_anchor :: "TrustAnchor \<Rightarrow> TrustManager \<Rightarrow> TrustManager" where
  "add_trust_anchor a tm = tm\<lparr>anchors := put_anchor a (anchors tm)\<rparr>"

definition remove_trust_anchor :: "bytes \<Rightarrow> TrustManager \<Rightarrow> TrustManager \<times> bool" where
  "remove_trust_anchor node tm =
     (let rest = filter (\<lambda>a. ta_node_id a \<noteq> node) (anchors tm)
      in if length rest = length (anchors tm) then (tm, False) else (tm\<lparr>anchors := rest\<rparr>, True))"

text \<open>An attestation is checked against the key of the anchor that is its
  witness; without a signature check every attestation is refused.\<close>

definition verify_attestation ::
  "verify_fn option \<Rightarrow> Attestation \<Rightarrow> i64 \<Rightarrow> i64 \<Rightarrow> TrustManager \<Rightarrow> unit result" where
  "verify_attestation crypto att now max_age tm =
     (if sint (att_timestamp att) \<le> 0 then Err (err_trust 208 Warn NoRetry)
      else if sint max_age < sint (now - att_timestamp att) then Err (err_trust 208 Warn NoRetry)
      else if f64_less (claimed_score att) 0 \<or> f64_less f64_one (claimed_score att)
      then Err (err_trust 206 SevError NoRetry)
      else if att_signature att = [] then Err (err_trust 206 SevError NoRetry)
      else case find (\<lambda>a. ta_node_id a = witness_id att) (anchors tm) of
             None \<Rightarrow> Err (err_trust 206 SevError NoRetry)
           | Some anchor \<Rightarrow>
               (case crypto of
                  None \<Rightarrow> Err (err_trust 206 SevError NoRetry)
                | Some verify \<Rightarrow>
                    rbind (verify (att_serialize (att\<lparr>att_signature := []\<rparr>)) (att_signature att) (ta_public_key anchor))
                      (\<lambda>ok. if ok then Ok () else Err (err_trust 206 SevError NoRetry))))"

definition apply_attestation :: "Attestation \<Rightarrow> TrustManager \<Rightarrow> TrustManager" where
  "apply_attestation att tm =
     (let c = components (score_at (subject_id att) tm);
          w = f64_add (f64_mul (witness_part c) 0x3FE6666666666666) (f64_mul (claimed_score att) 0x3FD3333333333333);
          w1 = (if f64_less f64_one w then f64_one else w)
      in set_score (subject_id att) (c\<lparr>witness_part := w1\<rparr>) (att_timestamp att) tm)"

definition produce_digest :: "bytes \<Rightarrow> i64 \<Rightarrow> TrustManager \<Rightarrow> TrustManager \<times> TrustDigest" where
  "produce_digest org now tm =
     (let tm' = tm\<lparr>digest_seq := digest_seq tm + 1\<rparr>
      in (tm', \<lparr>origin = org, dg_sequence = digest_seq tm', dg_timestamp = now, dg_scores = all_scores tm',
                dg_signature = []\<rparr>))"

definition merge_score :: "TrustScore \<Rightarrow> (u64 \<times> TrustScore) list \<Rightarrow> (u64 \<times> TrustScore) list" where
  "merge_score s ss =
     (case map_of ss (node_id_key (ts_node_id s)) of
        None \<Rightarrow> AList.update (node_id_key (ts_node_id s)) s ss
      | Some old \<Rightarrow>
          if sint (last_updated old) < sint (last_updated s)
          then AList.update (node_id_key (ts_node_id s)) s ss else ss)"

definition verify_digest :: "verify_fn option \<Rightarrow> TrustDigest \<Rightarrow> TrustManager \<Rightarrow> unit result" where
  "verify_digest crypto d tm =
     (if dg_signature d = [] then Ok ()
      else case crypto of
             None \<Rightarrow> Err (err_trust 206 SevError NoRetry)
           | Some verify \<Rightarrow>
               (case find (\<lambda>a. ta_node_id a = origin d) (anchors tm) of
                  None \<Rightarrow> Err (err_trust 206 SevError NoRetry)
                | Some anchor \<Rightarrow>
                    rbind (verify (digest_serialize (d\<lparr>dg_signature := []\<rparr>)) (dg_signature d) (ta_public_key anchor))
                      (\<lambda>ok. if ok then Ok () else Err (err_trust 206 SevError NoRetry))))"

definition apply_digest :: "verify_fn option \<Rightarrow> TrustDigest \<Rightarrow> TrustManager \<Rightarrow> TrustManager \<times> unit result" where
  "apply_digest crypto d tm =
     (if dg_scores d = [] then (tm, Err (err_trust 203 Warn NoRetry))
      else case verify_digest crypto d tm of
             Err e \<Rightarrow> (tm, Err e)
           | Ok _ \<Rightarrow> (tm\<lparr>scores := fold merge_score (dg_scores d) (scores tm)\<rparr>, Ok ()))"

definition decay :: "(f64 \<Rightarrow> f64 \<Rightarrow> f64) \<Rightarrow> TrustConfig \<Rightarrow> i64 \<Rightarrow> TrustScore \<Rightarrow> TrustScore" where
  "decay pw cfg now s =
     (if sint (last_updated s) \<le> 0 \<or> sint (now - last_updated s) \<le> 0 then s
      else let days = f64_div (f64_of_int (sint (now - last_updated s))) 0x42D3A52453C00000
           in if f64_le days 0 then s
              else let factor = pw 0x3FE0000000000000 (f64_div days (decay_half_life_days cfg));
                       c = components s;
                       c' = \<lparr>citizen = f64_mul (citizen c) factor, execution = f64_mul (execution c) factor,
                             witness_part = f64_mul (witness_part c) factor,
                             consistency = f64_mul (consistency c) factor\<rparr>
                   in s\<lparr>components := c', composite := compute_composite c'\<rparr>)"

definition tm_tick :: "(f64 \<Rightarrow> f64 \<Rightarrow> f64) \<Rightarrow> i64 \<Rightarrow> TrustManager \<Rightarrow> TrustManager" where
  "tm_tick pw now tm = tm\<lparr>scores := map (\<lambda>(k, s). (k, decay pw (config tm) now s)) (scores tm)\<rparr>"

section \<open>Stored form\<close>

definition config_serialize :: "TrustConfig \<Rightarrow> bytes" where
  "config_serialize c =
     write_be 8 (weight_citizen c) @ write_be 8 (weight_execution c) @ write_be 8 (weight_witness c)
     @ write_be 8 (weight_consistency c) @ write_be 8 (decay_half_life_days c)
     @ write_be 8 (citizen_penalty_offline c) @ write_be 8 (requester_penalty_rejected c)
     @ write_be 8 (requester_penalty_no_authority c)"

definition write_anchor :: "TrustAnchor \<Rightarrow> bytes" where
  "write_anchor a = ta_node_id a @ write_blob (ta_public_key a) @ write_be 8 (added_at a)"

definition tm_serialize :: "TrustManager \<Rightarrow> bytes" where
  "tm_serialize tm =
     config_serialize (config tm) @ write_be 8 (digest_seq tm) @ write_scores (all_scores tm)
     @ write_be 4 (of_nat (length (anchors tm)) :: u32) @ concat (map write_anchor (anchors tm))"

primrec anchor_loop :: "nat \<Rightarrow> bytes \<Rightarrow> TrustAnchor list \<Rightarrow> TrustAnchor list" where
  "anchor_loop 0 bs acc = acc"
| "anchor_loop (Suc n) bs acc =
     (if length bs < 32 then acc
      else let (pk, r1) = read_blob (drop 32 bs); (t, r2) = read_be 8 r1
           in anchor_loop n r2 (acc @ [\<lparr>ta_node_id = take 32 bs, ta_public_key = pk, added_at = t\<rparr>]))"

definition tm_deserialize :: "bytes \<Rightarrow> TrustManager result" where
  "tm_deserialize data =
     (let (c1, r1) = read_be 8 data; (c2, r2) = read_be 8 r1; (c3, r3) = read_be 8 r2; (c4, r4) = read_be 8 r3;
          (c5, r5) = read_be 8 r4; (c6, r6) = read_be 8 r5; (c7, r7) = read_be 8 r6; (c8, r8) = read_be 8 r7;
          (sq, r9) = read_be 8 r8; (n :: u32, r10) = read_be 4 r9;
          (ss, r11) = score_loop (unat n) r10 []; (na :: u32, r12) = read_be 4 r11
      in Ok \<lparr>config = \<lparr>weight_citizen = c1, weight_execution = c2, weight_witness = c3, weight_consistency = c4,
                        decay_half_life_days = c5, citizen_penalty_offline = c6,
                        requester_penalty_rejected = c7, requester_penalty_no_authority = c8\<rparr>,
              scores = fold (\<lambda>s. AList.update (node_id_key (ts_node_id s)) s) ss [],
              anchors = anchor_loop (unat na) r12 [], digest_seq = sq\<rparr>)"

section \<open>Scores stay in the unit interval\<close>

definition score_ok :: "TrustScore \<Rightarrow> bool" where
  "score_ok s \<longleftrightarrow>
     f64_unit (citizen (components s)) \<and> f64_unit (execution (components s)) \<and>
     f64_unit (witness_part (components s)) \<and> f64_unit (consistency (components s)) \<and> f64_unit (composite s)"

definition tm_ok :: "TrustManager \<Rightarrow> bool" where
  "tm_ok tm \<longleftrightarrow>
     (\<forall>(k, s) \<in> set (scores tm). score_ok s) \<and> f64_nonneg (citizen_penalty_offline (config tm)) \<and>
     f64_less 0 (decay_half_life_days (config tm))"

lemma weight_units [simp]:
  "f64_unit 0x3FC999999999999A" "f64_unit 0x3FE0000000000000" "f64_unit 0x3FB999999999999A"
  "f64_unit 0x3FE6666666666666" "f64_unit 0x3FD3333333333333"
  by (simp_all add: f64_unit_iff f64_nonneg_iff is_nan_def f64_mag_def f64_neg_def inf_mag_def)

lemma step_patterns:
  "\<not> is_nan 0x3F847AE147AE147B" "\<not> is_inf 0x3F847AE147AE147B" "f64_mag 0x3F847AE147AE147B \<noteq> 0"
  "f64_nonneg 0x3F947AE147AE147B" "\<not> is_inf 0x3F947AE147AE147B" "f64_mag 0x3F947AE147AE147B \<noteq> 0"
  "f64_nonneg 0x42D3A52453C00000" "\<not> is_nan 0x42D3A52453C00000" "\<not> is_inf 0x42D3A52453C00000"
  "0x3FF0000000000000 \<le> f64_mag 0x42D3A52453C00000"
  by (simp_all add: f64_nonneg_iff is_nan_def is_inf_def f64_mag_def f64_neg_def inf_mag_def)

text \<open>The clamps of the code.\<close>

lemma clamp_unit:
  assumes "\<not> is_nan e"
  shows "f64_unit (let e1 = (if f64_less f64_one e then f64_one else e) in if f64_less e1 0 then 0 else e1)"
proof (cases "f64_less f64_one e")
  case True
  have "\<not> f64_less f64_one 0" by (simp add: f64_less_def f64_one_facts)
  then show ?thesis using True by simp
next
  case False
  then show ?thesis using assms nonneg_clamp [OF nan_clamp] by simp
qed

lemma compute_composite_unit:
  assumes "f64_unit (citizen c)" "f64_unit (execution c)" "f64_unit (witness_part c)" "f64_unit (consistency c)"
  shows "f64_unit (compute_composite c)"
proof -
  have "f64_nonneg (f64_add (f64_add (f64_add (f64_mul (citizen c) 0x3FC999999999999A)
                                         (f64_mul (execution c) 0x3FE0000000000000))
                                (f64_mul (witness_part c) 0x3FC999999999999A))
                      (f64_mul (consistency c) 0x3FB999999999999A))"
    using assms by (intro nonneg_add unit_nonneg unit_mul) simp_all
  then show ?thesis
    unfolding compute_composite_def Let_def
    using clamp_unit [unfolded Let_def] by (simp add: f64_nonneg_iff)
qed

lemma score_at_ok: "tm_ok tm \<Longrightarrow> score_ok (score_at node tm)"
  by (auto simp: score_at_def tm_ok_def score_ok_def ts_new_def dest!: map_of_SomeD split: option.split)

lemma set_score_ok:
  assumes "tm_ok tm" "f64_unit (citizen c)" "f64_unit (execution c)" "f64_unit (witness_part c)"
    "f64_unit (consistency c)"
  shows "tm_ok (set_score node c now tm)"
proof -
  have "set (AList.update k v xs) \<subseteq> insert (k, v) (set xs)" for k :: u64 and v :: TrustScore and xs
    by (induction xs) auto
  then show ?thesis
    using assms compute_composite_unit [of c] by (fastforce simp: set_score_def tm_ok_def score_ok_def)
qed

lemma record_success_ok [inv_intros]:
  assumes "tm_ok tm" "\<not> is_nan weight"
  shows "tm_ok (record_success node weight now tm)"
proof -
  have s: "score_ok (score_at node tm)" by (rule score_at_ok [OF assms(1)])
  have "\<not> is_nan (f64_mul 0x3F847AE147AE147B weight)"
    using step_patterns assms(2) by (intro nan_mul) simp_all
  then have "\<not> is_nan (f64_add (execution (components (score_at node tm))) (f64_mul 0x3F847AE147AE147B weight))"
    using s by (intro nan_add) (simp_all add: score_ok_def unit_finite)
  then show ?thesis
    using s clamp_unit [unfolded Let_def] assms(1)
    unfolding record_success_def Let_def by (intro set_score_ok) (simp_all add: score_ok_def)
qed

lemma sub_clamp_unit:
  assumes "f64_unit x" "f64_nonneg y"
  shows "f64_unit (if f64_less (f64_sub x y) 0 then 0 else f64_sub x y)"
  using sub_unit [OF assms] by simp

lemma record_failure_ok [inv_intros]:
  assumes "tm_ok tm" "f64_nonneg weight"
  shows "tm_ok (record_failure node weight now tm)"
proof -
  have s: "score_ok (score_at node tm)" by (rule score_at_ok [OF assms(1)])
  have "f64_nonneg (f64_mul 0x3F947AE147AE147B weight)"
    using step_patterns assms(2) by (intro nonneg_mul) simp_all
  then show ?thesis
    using s assms(1) unfolding record_failure_def Let_def
    by (intro set_score_ok) (simp_all add: score_ok_def sub_clamp_unit [unfolded if_distrib])
qed

lemma record_offline_ok [inv_intros]:
  assumes "tm_ok tm"
  shows "tm_ok (record_offline node now tm)"
  using score_at_ok [OF assms, of node] assms unfolding record_offline_def Let_def
  by (intro set_score_ok) (simp_all add: score_ok_def tm_ok_def sub_clamp_unit)

text \<open>An attestation that passes the check claims a number of [0, 1], unless it
  claims something that is not a number: both comparisons are false then.\<close>

lemma verified_claim:
  assumes "verify_attestation crypto att now max_age tm = Ok ()"
  shows "is_nan (claimed_score att) \<or> f64_unit (claimed_score att)"
proof -
  have "\<not> f64_less (claimed_score att) 0" "\<not> f64_less f64_one (claimed_score att)"
    using assms by (auto simp: verify_attestation_def split: if_splits)
  then show ?thesis using nonneg_clamp nan_clamp by blast
qed

lemma apply_attestation_ok [inv_intros]:
  assumes "tm_ok tm" "f64_unit (claimed_score att)"
  shows "tm_ok (apply_attestation att tm)"
proof -
  have s: "score_ok (score_at (subject_id att) tm)" by (rule score_at_ok [OF assms(1)])
  then have "f64_nonneg (f64_add (f64_mul (witness_part (components (score_at (subject_id att) tm))) 0x3FE6666666666666)
                                 (f64_mul (claimed_score att) 0x3FD3333333333333))"
    using assms(2) by (intro nonneg_add unit_nonneg unit_mul) (simp_all add: score_ok_def)
  then show ?thesis
    using s assms(1) nonneg_clamp unfolding apply_attestation_def Let_def
    by (intro set_score_ok) (simp_all add: score_ok_def)
qed

definition pow_unit :: "(f64 \<Rightarrow> f64 \<Rightarrow> f64) \<Rightarrow> bool" where
  "pow_unit pw \<longleftrightarrow> (\<forall>y. f64_nonneg y \<longrightarrow> f64_unit (pw 0x3FE0000000000000 y))"

lemma days_nonneg:
  assumes "0 < sint (e :: i64)"
  shows "f64_nonneg (f64_div (f64_of_int (sint e)) 0x42D3A52453C00000)"
    "\<not> is_inf (f64_div (f64_of_int (sint e)) 0x42D3A52453C00000)"
proof -
  have "sint e < 2 ^ 63" using sint_lt [of e] by simp
  note p = f64_of_int_pos [OF assms this]
  have fin: "\<not> is_nan (f64_of_int (sint e))" "\<not> is_inf (f64_of_int (sint e))"
    using p by (auto simp: f64_nonneg_iff is_inf_def inf_mag_def)
  have "f64_mag 0x42D3A52453C00000 \<noteq> 0" using step_patterns(10) by linarith
  then show "f64_nonneg (f64_div (f64_of_int (sint e)) 0x42D3A52453C00000)"
    using p(1) fin step_patterns(7) by (intro nonneg_div)
  have "f64_mag (f64_div (f64_of_int (sint e)) 0x42D3A52453C00000) \<le> 0x43E0000000000000"
    using mag_div_le [OF fin step_patterns(8,9,10)] p(2) by linarith
  then show "\<not> is_inf (f64_div (f64_of_int (sint e)) 0x42D3A52453C00000)"
    by (simp add: is_inf_def inf_mag_def)
qed

lemma decay_ok:
  assumes "score_ok s" "f64_less 0 (decay_half_life_days cfg)" "pow_unit pw"
  shows "score_ok (decay pw cfg now s)"
proof (cases "sint (last_updated s) \<le> 0 \<or> sint (now - last_updated s) \<le> 0")
  case False
  define d where "d = f64_div (f64_of_int (sint (now - last_updated s))) 0x42D3A52453C00000"
  have d: "f64_nonneg d" "\<not> is_inf d"
    unfolding d_def using False by (intro days_nonneg; simp)+
  have h: "f64_nonneg (decay_half_life_days cfg)" "f64_mag (decay_half_life_days cfg) \<noteq> 0"
    using assms(2) by (auto simp: f64_less_def f64_nonneg_iff f64_rank_def split: if_splits)
  define f where "f = pw 0x3FE0000000000000 (f64_div d (decay_half_life_days cfg))"
  have f: "f64_unit f" using assms(3) nonneg_div [OF d h] by (simp add: f_def pow_unit_def)
  show ?thesis
    using False assms(1) f
    by (simp add: decay_def Let_def d_def [symmetric] f_def [symmetric] score_ok_def unit_mul compute_composite_unit)
qed (use assms in \<open>auto simp: decay_def\<close>)

lemma tick_ok [inv_intros]: "tm_ok tm \<Longrightarrow> pow_unit pw \<Longrightarrow> tm_ok (tm_tick pw now tm)"
  by (auto simp: tm_ok_def tm_tick_def decay_ok)

text \<open>What a node does with its own table: everything but taking over the scores
  of a digest or of a file.  A caller passes weights that are numbers, negative
  ones only to record_success.\<close>

inductive trust_step ::
  "(f64 \<Rightarrow> f64 \<Rightarrow> f64) \<Rightarrow> verify_fn option \<Rightarrow> TrustManager \<Rightarrow> TrustManager \<Rightarrow> bool"
  for pw :: "f64 \<Rightarrow> f64 \<Rightarrow> f64" and crypto :: "verify_fn option" where
  success: "\<not> is_nan w \<Longrightarrow> trust_step pw crypto tm (record_success node w now tm)"
| failure: "f64_nonneg w \<Longrightarrow> trust_step pw crypto tm (record_failure node w now tm)"
| offline: "trust_step pw crypto tm (record_offline node now tm)"
| attested: "verify_attestation crypto att now max_age tm = Ok () \<Longrightarrow> \<not> is_nan (claimed_score att) \<Longrightarrow>
     trust_step pw crypto tm (apply_attestation att tm)"
| decayed: "trust_step pw crypto tm (tm_tick pw now tm)"
| anchored: "trust_step pw crypto tm (add_trust_anchor a tm)"
| unanchored: "trust_step pw crypto tm (fst (remove_trust_anchor node tm))"
| digested: "trust_step pw crypto tm (fst (produce_digest org now tm))"

lemma anchor_ok [inv_intros]:
  "tm_ok tm \<Longrightarrow> tm_ok (add_trust_anchor a tm)"
  "tm_ok tm \<Longrightarrow> tm_ok (fst (remove_trust_anchor node tm))"
  "tm_ok tm \<Longrightarrow> tm_ok (fst (produce_digest org now tm))"
  by (simp_all add: tm_ok_def add_trust_anchor_def remove_trust_anchor_def produce_digest_def Let_def)

lemma trust_step_ok: "trust_step pw crypto tm tm' \<Longrightarrow> pow_unit pw \<Longrightarrow> tm_ok tm \<Longrightarrow> tm_ok tm'"
proof (induction rule: trust_step.induct)
  case (attested att now max_age tm)
  then show ?case using verified_claim by (blast intro: apply_attestation_ok)
qed (auto intro: inv_intros)

text \<open>
  C24. Scores are scores: from an empty table, every component and every composite
  score stays a number of the interval [0, 1], with the rounding of double arithmetic
  taken into account, over any sequence of successes whose weight is a number, failures
  whose weight is a number of at least zero, absences, attestations that verify and whose
  claim is a number, decay over any time, changes of the anchors and digests produced.
  The decay half-life is above zero, the offline penalty at least zero, and std::pow
  of one half and an exponent of at least zero answers a number of [0, 1].  Digests of
  others and tables loaded from a file are not among the steps: they set any score.  A claim
  that is no number passes the checks of verify_attestation, and is excluded here.
\<close>

theorem trust_scores_in_unit:
  assumes "(trust_step pw crypto)\<^sup>*\<^sup>* (tm_new cfg) tm" "pow_unit pw"
    and "f64_nonneg (citizen_penalty_offline cfg)" "f64_less 0 (decay_half_life_days cfg)"
  shows "\<forall>(k, s) \<in> set (scores tm). score_ok s"
proof -
  have "tm_ok tm"
    using assms(1)
  proof (induction rule: rtranclp_induct)
    case base
    then show ?case using assms by (simp add: tm_ok_def tm_new_def)
  next
    case (step tm1 tm2)
    then show ?case using trust_step_ok assms(2) by blast
  qed
  then show ?thesis by (simp add: tm_ok_def)
qed

lemma default_config_facts:
  "f64_nonneg (citizen_penalty_offline default_config)" "f64_less 0 (decay_half_life_days default_config)"
  by (simp_all add: default_config_def f64_nonneg_iff f64_less_def f64_rank_def is_nan_def f64_mag_def
      f64_neg_def inf_mag_def)

theorem trust_scores_in_unit_witness:
  "list_all (\<lambda>(k, s). score_ok s) (scores (tm_tick (\<lambda>_ _. 0x3FE0000000000000) 9
      (record_failure (replicate 32 1) f64_one 7
        (record_success (replicate 32 1) f64_one 5 (tm_new default_config)))))"
  unfolding list_all_iff
proof (rule trust_scores_in_unit [OF _ _ default_config_facts])
  let ?step = "trust_step (\<lambda>_ _. 0x3FE0000000000000) None"
  let ?a = "record_success (replicate 32 1) f64_one 5 (tm_new default_config)"
  have "?step (tm_new default_config) ?a" by (rule success) (simp add: f64_one_facts)
  moreover have "?step ?a (record_failure (replicate 32 1) f64_one 7 ?a)"
    by (rule failure) (simp add: unit_nonneg)
  moreover have "?step (record_failure (replicate 32 1) f64_one 7 ?a)
      (tm_tick (\<lambda>_ _. 0x3FE0000000000000) 9 (record_failure (replicate 32 1) f64_one 7 ?a))"
    by (rule decayed)
  ultimately show "?step\<^sup>*\<^sup>* (tm_new default_config)
      (tm_tick (\<lambda>_ _. 0x3FE0000000000000) 9 (record_failure (replicate 32 1) f64_one 7 ?a))"
    by (meson rtranclp.rtrancl_into_rtrancl rtranclp.rtrancl_refl)
  show "pow_unit (\<lambda>_ _. 0x3FE0000000000000)" by (simp add: pow_unit_def)
qed

section \<open>Who can set a score\<close>

text \<open>Only 64 bits of an identity reach the table, the exclusive or of its four
  words: identities with the same words in another order share one score.\<close>

lemma fst_read_be_append:
  "n \<le> length x \<Longrightarrow> fst (read_be n (x @ y)) = fst (read_be n x)"
proof -
  have "n \<le> length x \<Longrightarrow> fst (read_be_acc n v (x @ y)) = fst (read_be_acc n v x)" for v
    by (induction n v x rule: read_be_acc.induct) auto
  then show "n \<le> length x \<Longrightarrow> ?thesis" by (simp add: read_be_def)
qed

lemma node_id_key_blocks:
  assumes "length a = 8" "length b = 8" "length c = 8" "length d = 8"
  shows "node_id_key (a @ b @ c @ d) =
    fst (read_be 8 a) XOR fst (read_be 8 b) XOR fst (read_be 8 c) XOR fst (read_be 8 d)"
proof -
  have p: "fst (read_be 8 (x @ y)) = (fst (read_be 8 x) :: u64)" if "length x = 8" for x y
    using that by (simp add: fst_read_be_append)
  have "drop 16 (a @ b @ c @ d) = c @ d" "drop 24 (a @ b @ c @ d) = d" using assms by simp_all
  then show ?thesis using assms by (simp add: node_id_key_def p xor.assoc)
qed

lemma shuffled_id_shares_score:
  assumes "length a = 8" "length b = 8" "length c = 8" "length d = 8"
  shows "get_score (b @ a @ c @ d) tm = get_score (a @ b @ c @ d) tm \<or>
         map_of (scores tm) (node_id_key (a @ b @ c @ d)) = None"
  using assms by (auto simp: get_score_def node_id_key_blocks xor.left_commute split: option.split)

lemma map_of_merge:
  "map_of (merge_score s ss) k =
     (if k = node_id_key (ts_node_id s) \<and>
         (\<forall>old. map_of ss k = Some old \<longrightarrow> sint (last_updated old) < sint (last_updated s))
      then Some s else map_of ss k)"
  by (auto simp: merge_score_def update_conv' split: option.split)

text \<open>
  A digest needs no signature: any party can send a digest without one, under
  any origin and whether or not the node can check signatures, and the node
  accepts it and takes over the score it states for any peer it has no newer
  entry for, whatever the number.
\<close>

lemma unsigned_digest_sets_score:
  assumes "dg_signature d = []" "dg_scores d = [s]"
    and "\<forall>old. map_of (scores tm) (node_id_key (ts_node_id s)) = Some old \<longrightarrow>
           sint (last_updated old) < sint (last_updated s)"
  shows "\<exists>tm'. apply_digest crypto d tm = (tm', Ok ()) \<and> get_score (ts_node_id s) tm' = Ok (composite s)"
  using assms by (simp add: apply_digest_def verify_digest_def get_score_def map_of_merge)

definition sample_score :: "f64 \<Rightarrow> i64 \<Rightarrow> TrustScore" where
  "sample_score v t = ts_new\<lparr>ts_node_id := replicate 32 7, composite := v, last_updated := t\<rparr>"

lemma unsigned_digest_sets_score_example:
  "\<exists>tm'. apply_digest (Some (\<lambda>_ _ _. Ok False))
      \<lparr>origin = replicate 32 0, dg_sequence = 1, dg_timestamp = 0, dg_scores = [sample_score 0x4059000000000000 9],
       dg_signature = []\<rparr> (record_failure (replicate 32 7) f64_one 5 (tm_new default_config)) = (tm', Ok ()) \<and>
    get_score (replicate 32 7) tm' = Ok 0x4059000000000000"
  using unsigned_digest_sets_score
    [of "\<lparr>origin = replicate 32 0, dg_sequence = 1, dg_timestamp = 0,
          dg_scores = [sample_score 0x4059000000000000 9], dg_signature = []\<rparr>"
        "sample_score 0x4059000000000000 9" "record_failure (replicate 32 7) f64_one 5 (tm_new default_config)"
        "Some (\<lambda>_ _ _. Ok False)"]
  by (simp add: sample_score_def ts_new_def record_failure_def Let_def set_score_def tm_new_def)

text \<open>A signed digest counts only with an anchor's signature.\<close>

lemma find_in: "find P xs = Some x \<Longrightarrow> P x \<and> x \<in> set xs"
  by (induction xs) (auto split: if_splits)

lemma signed_digest_verified:
  assumes "apply_digest crypto d tm = (tm', Ok ())" "dg_signature d \<noteq> []"
  shows "\<exists>verify a. crypto = Some verify \<and> a \<in> set (anchors tm) \<and> ta_node_id a = origin d \<and>
    verify (digest_serialize (d\<lparr>dg_signature := []\<rparr>)) (dg_signature d) (ta_public_key a) = Ok True"
  using assms
  by (auto simp: apply_digest_def verify_digest_def rbind_eq_Ok
      dest!: find_in split: if_splits option.splits result.splits)

text \<open>The trust contract checks attestations without a signature check at hand:
  none is ever accepted there.\<close>

lemma attestation_without_crypto: "\<not> is_ok (verify_attestation None att now max_age tm)"
  by (auto simp: verify_attestation_def split: option.split)

section \<open>The stored form is read back\<close>

lemma read_blob_write: "length b < 2 ^ 32 \<Longrightarrow> read_blob (write_blob b @ r) = (b, r)"
  by (simp add: read_blob_def write_blob_def wire_simps unat_of_nat_lt)

lemma length_ts_serialize: "length (ts_node_id s) = 32 \<Longrightarrow> length (ts_serialize s) = 80"
  by (simp add: ts_serialize_def)

interpretation score_codec: codec ts_serialize ts_deserialize "\<lambda>s. length (ts_node_id s) = 32"
  by unfold_locales (simp add: ts_serialize_def ts_deserialize_def wire_simps read_be_8_end Let_def)

interpretation attestation_codec: codec att_serialize att_deserialize
  "\<lambda>a. length (witness_id a) = 32 \<and> length (subject_id a) = 32 \<and> length (att_signature a) < 2 ^ 32"
proof unfold_locales
  fix a :: Attestation assume a: "length (witness_id a) = 32 \<and> length (subject_id a) = 32 \<and> length (att_signature a) < 2 ^ 32"
  then have "read_blob (write_blob (att_signature a)) = (att_signature a, [])"
    using read_blob_write [of "att_signature a" "[]"] by simp
  then show "att_deserialize (att_serialize a) = Ok a"
    using a by (simp add: att_serialize_def att_deserialize_def wire_simps Let_def)
qed

lemma score_loop_write:
  assumes "\<forall>s \<in> set ss. length (ts_node_id s) = 32"
  shows "score_loop (length ss) (concat (map (\<lambda>s. write_blob (ts_serialize s)) ss) @ r) acc = (acc @ ss, r)"
  using assms
proof (induction ss arbitrary: acc)
  case (Cons s ss)
  have l: "length (ts_serialize s) = 80" using Cons.prems by (simp add: length_ts_serialize)
  have d: "ts_deserialize (ts_serialize s) = Ok s" using Cons.prems by (simp add: score_codec.dec_enc)
  show ?case
    using Cons l d by (simp add: write_blob_def wire_simps)
qed simp

interpretation digest_codec: codec digest_serialize digest_deserialize
  "\<lambda>d. length (origin d) = 32 \<and> length (dg_scores d) < 2 ^ 32 \<and> length (dg_signature d) < 2 ^ 32 \<and>
        (\<forall>s \<in> set (dg_scores d). length (ts_node_id s) = 32)"
proof unfold_locales
  fix d :: TrustDigest assume a: "length (origin d) = 32 \<and> length (dg_scores d) < 2 ^ 32 \<and> length (dg_signature d) < 2 ^ 32 \<and>
        (\<forall>s \<in> set (dg_scores d). length (ts_node_id s) = 32)"
  have n: "unat (of_nat (length (dg_scores d)) :: u32) = length (dg_scores d)"
    "unat (of_nat (length (dg_signature d)) :: u32) = length (dg_signature d)"
    using a by (intro unat_of_nat_lt; simp)+
  have "score_loop (length (dg_scores d)) (concat (map (\<lambda>s. write_blob (ts_serialize s)) (dg_scores d)) @ r) [] =
      (dg_scores d, r)" for r
    using score_loop_write [of "dg_scores d" r "[]"] a by simp
  then show "digest_deserialize (digest_serialize d) = Ok d"
    using a n
    by (simp add: digest_serialize_def digest_deserialize_def write_scores_def write_blob_def [of "dg_signature d"]
        wire_simps Let_def)
qed

text \<open>A score table that can be stored: identities of 32 bytes under their keys,
  and counts and keys within 32 bits.\<close>

definition tm_storable :: "TrustManager \<Rightarrow> bool" where
  "tm_storable tm \<longleftrightarrow>
     distinct (map fst (scores tm)) \<and> length (scores tm) < 2 ^ 32 \<and> length (anchors tm) < 2 ^ 32 \<and>
     (\<forall>(k, s) \<in> set (scores tm). k = node_id_key (ts_node_id s) \<and> length (ts_node_id s) = 32) \<and>
     (\<forall>a \<in> set (anchors tm). length (ta_node_id a) = 32 \<and> length (ta_public_key a) < 2 ^ 32)"

lemma anchor_loop_write:
  assumes "\<forall>a \<in> set as. length (ta_node_id a) = 32 \<and> length (ta_public_key a) < 2 ^ 32"
  shows "anchor_loop (length as) (concat (map write_anchor as)) acc = acc @ as"
  using assms
proof (induction as arbitrary: acc)
  case (Cons a as)
  then show ?case
    by (simp add: write_anchor_def read_blob_write wire_simps Let_def)
qed simp

lemma refill_scores:
  fixes ss acc :: "(u64 \<times> TrustScore) list"
  assumes "distinct (map fst (acc @ ss))" "\<forall>(k, s) \<in> set ss. k = node_id_key (ts_node_id s)"
  shows "fold (\<lambda>s. AList.update (node_id_key (ts_node_id s)) s) (map snd ss) acc = acc @ ss"
  using assms
proof (induction ss arbitrary: acc)
  case (Cons e ss)
  obtain k s where e: "e = (k, s)" by (cases e)
  have new: "x \<notin> fst ` set al \<Longrightarrow> AList.update x y al = al @ [(x, y)]" for x :: u64 and y :: TrustScore and al
    by (induction al) auto
  have "AList.update (node_id_key (ts_node_id s)) s acc = acc @ [e]"
    using Cons.prems e by (auto intro: new)
  then show ?case using Cons.IH [of "acc @ [e]"] Cons.prems e by simp
qed simp

lemma read_config:
  "tm_deserialize (config_serialize c @ r) =
     (let (sq, r9) = read_be 8 r; (n :: u32, r10) = read_be 4 r9;
          (ss, r11) = score_loop (unat n) r10 []; (na :: u32, r12) = read_be 4 r11
      in Ok \<lparr>config = c, scores = fold (\<lambda>s. AList.update (node_id_key (ts_node_id s)) s) ss [],
              anchors = anchor_loop (unat na) r12 [], digest_seq = sq\<rparr>)"
  by (cases c) (simp add: tm_deserialize_def config_serialize_def wire_simps Let_def)

text \<open>
  The trust table survives a restart: what the manager writes is read back as
  the same manager, with its configuration, its digest counter, every score under
  its key and every anchor, however the table was built.
\<close>

lemma trust_manager_roundtrip:
  assumes "tm_storable tm"
  shows "tm_deserialize (tm_serialize tm) = Ok tm"
proof -
  note st = assms [unfolded tm_storable_def]
  have n: "unat (of_nat (length (scores tm)) :: u32) = length (scores tm)"
    "unat (of_nat (length (anchors tm)) :: u32) = length (anchors tm)"
    using st by (intro unat_of_nat_lt; simp)+
  have "\<forall>s \<in> set (all_scores tm). length (ts_node_id s) = 32" using st by (auto simp: all_scores_def)
  then have sl: "score_loop (length (scores tm)) (concat (map (\<lambda>s. write_blob (ts_serialize s)) (all_scores tm)) @ r) [] =
      (all_scores tm, r)" for r
    using score_loop_write [of "all_scores tm" r "[]"] by (simp add: all_scores_def)
  have al: "anchor_loop (length (anchors tm)) (concat (map write_anchor (anchors tm))) [] = anchors tm"
    using anchor_loop_write [of "anchors tm" "[]"] st by simp
  have rf: "fold (\<lambda>s. AList.update (node_id_key (ts_node_id s)) s) (all_scores tm) [] = scores tm"
    using refill_scores [of "[]" "scores tm"] st unfolding all_scores_def by auto
  have "length (all_scores tm) = length (scores tm)" by (simp add: all_scores_def)
  then show ?thesis
    by (simp add: tm_serialize_def read_config write_scores_def wire_simps n sl al rf Let_def)
qed

text \<open>Every table the record functions build from an empty one has its scores
  under their keys.\<close>

lemma set_score_storable:
  assumes "tm_storable tm" "length node = 32" "length (scores tm) + 1 < 2 ^ 32"
  shows "tm_storable (set_score node c now tm)"
proof -
  have "set (AList.update k v xs) \<subseteq> insert (k, v) (set xs)" "length (AList.update k v xs) \<le> length xs + 1"
    for k :: u64 and v :: TrustScore and xs
    by (induction xs) auto
  then show ?thesis
    using assms by (fastforce simp: tm_storable_def set_score_def distinct_update intro: le_less_trans)
qed

lemma trust_manager_roundtrip_example:
  "tm_deserialize (tm_serialize (record_success (replicate 32 7) f64_one 5 (tm_new default_config))) =
     Ok (record_success (replicate 32 7) f64_one 5 (tm_new default_config))"
proof (rule trust_manager_roundtrip)
  have "tm_storable (tm_new default_config)" by (simp add: tm_storable_def tm_new_def)
  then show "tm_storable (record_success (replicate 32 7) f64_one 5 (tm_new default_config))"
    unfolding record_success_def Let_def by (intro set_score_storable) (simp_all add: tm_new_def)
qed

end
