(* ===== verification/Policy_Middleware.thy ===== *)
theory Policy_Middleware
  imports Policy_Engine Trust Session Node_Lifecycle
begin

text \<open>
  The gate between the packet dispatcher and the contracts
  (core/runtime/policy_middleware.hpp and .cpp, middleware_pipeline.hpp and .cpp):
  the policy middleware asks the trust manager for the peer's score and the policy
  engine for a decision, and the pipeline runs its middlewares in order until one
  denies.  A middleware is a function of its own state and the packet context.
\<close>

section \<open>The packet context\<close>

record PacketContext =
  pc_session :: "Session option"
  contract_id :: string
  pc_method :: string
  pc_payload :: bytes
  opcode_hex :: string
  denied :: bool
  deny_reason :: string
  audit :: bool
  sandbox :: bool
  ratelimit :: bool

record PolicyMiddleware =
  trust_mgr :: "TrustManager option"
  policy_engine :: "PolicyEngine option"
  lifecycle_fsm :: "NodeLifecycleFSM option"
  anonymous_contracts :: "string list"

definition middleware_new ::
  "TrustManager option \<Rightarrow> PolicyEngine option \<Rightarrow> NodeLifecycleFSM option \<Rightarrow> PolicyMiddleware" where
  "middleware_new tm pe fsm =
     \<lparr>trust_mgr = tm, policy_engine = pe, lifecycle_fsm = fsm, anonymous_contracts = []\<rparr>"

definition set_anonymous :: "string \<Rightarrow> bool \<Rightarrow> PolicyMiddleware \<Rightarrow> PolicyMiddleware" where
  "set_anonymous c anon mw =
     mw\<lparr>anonymous_contracts := (if anon then List.insert c (anonymous_contracts mw)
                                else filter (\<lambda>x. x \<noteq> c) (anonymous_contracts mw))\<rparr>"

definition is_anonymous :: "string \<Rightarrow> PolicyMiddleware \<Rightarrow> bool" where
  "is_anonymous c mw = (c \<in> set (anonymous_contracts mw))"

primrec nls_name :: "NodeLifecycleState \<Rightarrow> string" where
  "nls_name NEW = ''NEW''"
| "nls_name IDENTITY_READY = ''IDENTITY_READY''"
| "nls_name CSR_PENDING = ''CSR_PENDING''"
| "nls_name CERTIFIED = ''CERTIFIED''"
| "nls_name BOOTSTRAPPING = ''BOOTSTRAPPING''"
| "nls_name JOINING = ''JOINING''"
| "nls_name SYNCHRONIZING = ''SYNCHRONIZING''"
| "nls_name ACTIVE = ''ACTIVE''"
| "nls_name SUSPENDED = ''SUSPENDED''"
| "nls_name RECOVERING = ''RECOVERING''"
| "nls_name REVOKED = ''REVOKED''"
| "nls_name REMOVED = ''REMOVED''"

text \<open>A state outside the enumeration prints as UNKNOWN with its number; the
  number is left out, no rule reads the name.\<close>

definition state_name :: "NodeLifecycleFSM \<Rightarrow> string" where
  "state_name f = (case get_state f of Some s \<Rightarrow> nls_name s | None \<Rightarrow> ''UNKNOWN'')"

section \<open>The middleware\<close>

definition deny :: "string \<Rightarrow> PacketContext \<Rightarrow> PacketContext" where
  "deny why ctx = ctx\<lparr>denied := True, deny_reason := why\<rparr>"

definition trust_of :: "TrustManager option \<Rightarrow> Session \<Rightarrow> f64" where
  "trust_of tm s =
     (case tm of None \<Rightarrow> 0
      | Some t \<Rightarrow> (case get_score (peer_id s) t of Ok v \<Rightarrow> v | Err _ \<Rightarrow> 0))"

definition policy_context :: "PolicyMiddleware \<Rightarrow> Session \<Rightarrow> PacketContext \<Rightarrow> PolicyEvaluationContext" where
  "policy_context mw s ctx =
     context_new\<lparr>session_ident := sid_to_hex (sid s), session_trust_score := trust_of (trust_mgr mw) s,
       session_created_at := created_at s, request_contract_id := contract_id ctx, request_method := pc_method ctx,
       node_state := (case lifecycle_fsm mw of Some f \<Rightarrow> state_name f | None \<Rightarrow> ''UNKNOWN'')\<rparr>"

definition apply_decision :: "PolicyResult \<Rightarrow> PacketContext \<Rightarrow> PacketContext" where
  "apply_decision d ctx =
     (case decision d of
        Deny \<Rightarrow> deny (res_reason d) ctx
      | Audit \<Rightarrow> ctx\<lparr>audit := True\<rparr>
      | Sandbox \<Rightarrow> ctx\<lparr>sandbox := True\<rparr>
      | RateLimit \<Rightarrow> ctx\<lparr>ratelimit := True\<rparr>
      | _ \<Rightarrow> ctx)"

definition mw_process ::
  "(PolicyRule list \<Rightarrow> PolicyRule list) \<Rightarrow> i64 \<Rightarrow> PacketContext \<Rightarrow> PolicyMiddleware
    \<Rightarrow> PolicyMiddleware \<times> PacketContext \<times> unit result" where
  "mw_process srt now ctx mw =
     (if contract_id ctx \<in> set (anonymous_contracts mw) then (mw, ctx, Ok ())
      else case pc_session ctx of
        None \<Rightarrow> (mw, deny (''session required for: '' @ contract_id ctx) ctx, Ok ())
      | Some s \<Rightarrow>
          if state s = Closed then (mw, deny ''session is closed'' ctx, Ok ())
          else case policy_engine mw of
            Some e \<Rightarrow>
              (case evaluate srt now (policy_context mw s ctx) e of
                 (e', Err _) \<Rightarrow> (mw\<lparr>policy_engine := Some e'\<rparr>, deny ''policy evaluation error: '' ctx, Ok ())
               | (e', Ok d) \<Rightarrow> (mw\<lparr>policy_engine := Some e'\<rparr>, apply_decision d ctx, Ok ()))
          | None \<Rightarrow>
              if trust_mgr mw \<noteq> None \<and> f64_less (trust_of (trust_mgr mw) s) 0x3FC999999999999A
              then (mw, deny ''trust score below threshold'' ctx, Ok ())
              else (mw, ctx, Ok ()))"

section \<open>The pipeline\<close>

text \<open>The pipeline over middlewares of one state type: each has its step, and the
  states after the run are returned in order.\<close>

type_synonym 'm step = "PacketContext \<Rightarrow> 'm \<Rightarrow> 'm \<times> PacketContext \<times> unit result"

definition err_denied :: error_code where
  "err_denied = smo_err CatSession 507 SevError NoRetry RecNone"

primrec pipeline_process :: "'m step \<Rightarrow> 'm list \<Rightarrow> PacketContext \<Rightarrow> 'm list \<times> PacketContext \<times> unit result" where
  "pipeline_process step [] ctx = ([], ctx, Ok ())"
| "pipeline_process step (m # ms) ctx =
     (case step ctx m of (m', ctx', r) \<Rightarrow>
        (case r of
           Err e \<Rightarrow> (m' # ms, ctx', Err e)
         | Ok _ \<Rightarrow>
             if denied ctx' then (m' # ms, ctx', Err err_denied)
             else (case pipeline_process step ms ctx' of (ms', c, q) \<Rightarrow> (m' # ms', c, q))))"

text \<open>The pipeline the node builds at start-up: the policy middleware alone, wired to
  the trust manager, the engine with its presets and the lifecycle.\<close>

definition startup_pipeline :: "TrustManager \<Rightarrow> EngineConfig \<Rightarrow> NodeLifecycleFSM \<Rightarrow> PolicyMiddleware list" where
  "startup_pipeline tm cfg fsm = [middleware_new (Some tm) (Some (policy_engine_new cfg)) (Some fsm)]"

section \<open>What passes the gate\<close>

lemma policy_context_bare: "session_roles (policy_context mw s ctx) = []" "session_caps (policy_context mw s ctx) = []"
  by (simp_all add: policy_context_def context_new_def)

text \<open>What the pipeline relies on of a middleware: it does not fail, and it marks the
  packets it does not admit.\<close>

locale packet_filter =
  fixes step :: "'m step" and admits :: "'m \<Rightarrow> PacketContext \<Rightarrow> bool"
  assumes step_ok: "snd (snd (step ctx m)) = Ok ()"
    and step_denied: "\<not> denied ctx \<Longrightarrow> denied (fst (snd (step ctx m))) \<longleftrightarrow> \<not> admits m ctx"
begin

lemma refused: "\<not> denied ctx \<Longrightarrow> \<not> admits m ctx \<Longrightarrow> snd (snd (pipeline_process step (m # ms) ctx)) = Err err_denied"
  using step_ok [of ctx m] step_denied [of ctx m] by (auto split: prod.split)

lemma passed:
  assumes "\<not> denied ctx" "admits m ctx"
  shows "snd (snd (pipeline_process step (m # ms) ctx)) =
    snd (snd (pipeline_process step ms (fst (snd (step ctx m)))))"
  using assms step_ok [of ctx m] step_denied [of ctx m] by (auto split: prod.split)

lemma single:
  "\<not> denied ctx \<Longrightarrow>
    snd (snd (pipeline_process step [m] ctx)) = (if admits m ctx then Ok () else Err err_denied)"
  using refused passed by simp

end

definition mw_admits ::
  "(PolicyRule list \<Rightarrow> PolicyRule list) \<Rightarrow> i64 \<Rightarrow> PolicyMiddleware \<Rightarrow> PacketContext \<Rightarrow> bool" where
  "mw_admits srt now mw ctx \<longleftrightarrow>
     is_anonymous (contract_id ctx) mw \<or>
     (case pc_session ctx of None \<Rightarrow> False
      | Some s \<Rightarrow> state s \<noteq> Closed \<and>
          (case policy_engine mw of
             Some e \<Rightarrow> (case snd (evaluate srt now (policy_context mw s ctx) e) of
                          Ok d \<Rightarrow> decision d \<noteq> Deny | Err _ \<Rightarrow> False)
           | None \<Rightarrow> trust_mgr mw = None \<or> \<not> f64_less (trust_of (trust_mgr mw) s) 0x3FC999999999999A))"

lemma denied_decision: "\<not> denied ctx \<Longrightarrow> denied (apply_decision d ctx) \<longleftrightarrow> decision d = Deny"
  by (simp add: apply_decision_def deny_def split: PolicyDecision.split)

interpretation gate: packet_filter "mw_process srt now" "mw_admits srt now" for srt now
proof unfold_locales
  fix ctx mw
  show "snd (snd (mw_process srt now ctx mw)) = Ok ()"
    by (auto simp: mw_process_def split: option.split prod.split result.split)
  assume "\<not> denied ctx"
  then show "denied (fst (snd (mw_process srt now ctx mw))) \<longleftrightarrow> \<not> mw_admits srt now mw ctx"
    by (auto simp: mw_process_def mw_admits_def is_anonymous_def deny_def denied_decision
        split: option.split prod.split result.split)
qed

text \<open>
  C6. The gate of a started node admits nothing: with the policies the engine is
  built with, every packet that reaches the pipeline is refused, with any session
  of any peer at any trust score, because the request the middleware builds
  carries neither the roles nor the capabilities of the session and every
  granting preset rule asks for both.
\<close>

theorem startup_gate_refuses_all:
  assumes "std_sort srt" "0 \<le> sint now" "\<not> denied ctx"
  shows "snd (snd (pipeline_process (mw_process srt now) (startup_pipeline tm cfg fsm) ctx)) = Err err_denied"
proof -
  let ?mw = "middleware_new (Some tm) (Some (policy_engine_new cfg)) (Some fsm)" and ?e = "policy_engine_new cfg"
  have fresh: "cache_expiry ?e = 0" by (simp add: policy_engine_new_def)
  have "decision d = Deny" if "snd (evaluate srt now (policy_context ?mw s ctx) ?e) = Ok d" for s d
  proof (rule presets_deny [OF assms(1)])
    show "evaluate_impl srt (load_builtin_presets []) (policy_context ?mw s ctx) = Ok d"
      using that cache_never_read(1) [OF fresh assms(2)] by (simp add: policy_engine_new_def)
  qed (simp add: policy_context_bare)
  then have "\<not> mw_admits srt now ?mw ctx"
    unfolding mw_admits_def is_anonymous_def
    by (simp add: middleware_new_def split: option.split result.split)
  then show ?thesis
    unfolding startup_pipeline_def by (rule gate.refused [OF assms(3)])
qed

definition sample_packet :: "Session option \<Rightarrow> PacketContext" where
  "sample_packet s =
     \<lparr>pc_session = s, contract_id = ''system.file'', pc_method = ''read'', pc_payload = [], opcode_hex = ''0x002b'',
      denied = False, deny_reason = [], audit = False, sandbox = False, ratelimit = False\<rparr>"

theorem startup_gate_refuses_all_witness:
  "snd (snd (pipeline_process (mw_process stable_sort 1)
      (startup_pipeline (record_success (peer_id (sample_session Active 9)) f64_one 5 (tm_new default_config))
         config_new nl_new) (sample_packet (Some (sample_session Active 9))))) = Err err_denied"
  by (rule startup_gate_refuses_all [OF stable_sort_ok]) (simp_all add: sample_packet_def)

section \<open>A score from the network\<close>

text \<open>
  C15. A stranger opens the gate: where no policy engine is wired, a peer the node has
  no trust data on is refused, and after one unsigned digest, from any origin, that
  states a score of one for it, the same packet passes.
\<close>

theorem digest_opens_gate:
  assumes "policy_engine mw = None" "trust_mgr mw = Some tm" "contract_id ctx \<notin> set (anonymous_contracts mw)"
    and "pc_session ctx = Some s" "state s \<noteq> Closed" "\<not> denied ctx"
    and "map_of (scores tm) (node_id_key (peer_id s)) = None" "\<not> is_trust_anchor (peer_id s) tm"
    and "dg_signature d = []" "dg_scores d = [v]" "ts_node_id v = peer_id s" "composite v = f64_one"
    and "apply_digest crypto d tm = (tm', r)"
  shows "denied (fst (snd (mw_process srt now ctx mw))) \<and> r = Ok () \<and>
         \<not> denied (fst (snd (mw_process srt now ctx (mw\<lparr>trust_mgr := Some tm'\<rparr>))))"
proof -
  have less: "f64_less 0 0x3FC999999999999A" "\<not> f64_less f64_one 0x3FC999999999999A"
    by (simp_all add: f64_less_def f64_rank_def f64_one_def f64_mag_def f64_neg_def is_nan_def inf_mag_def)
  have tm': "r = Ok ()" "scores tm' = merge_score v (scores tm)"
    using assms(9,10,13) by (auto simp: apply_digest_def verify_digest_def)
  have "trust_of (Some tm) s = 0" "trust_of (Some tm') s = f64_one"
    using assms(7,8,11,12) tm'(2) by (simp_all add: trust_of_def get_score_def map_of_merge)
  then have "\<not> mw_admits srt now mw ctx" "mw_admits srt now (mw\<lparr>trust_mgr := Some tm'\<rparr>) ctx"
    using assms(1-5) less by (simp_all add: mw_admits_def is_anonymous_def)
  then show ?thesis using gate.step_denied [OF assms(6)] tm'(1) by simp
qed

definition praise :: "Session \<Rightarrow> TrustDigest" where
  "praise s =
     \<lparr>origin = replicate 32 0, dg_sequence = 1, dg_timestamp = 1,
      dg_scores = [ts_new\<lparr>ts_node_id := peer_id s, composite := f64_one, last_updated := 9\<rparr>], dg_signature = []\<rparr>"

theorem digest_opens_gate_witness:
  "denied (fst (snd (mw_process stable_sort 1 (sample_packet (Some (sample_session Active 9)))
      (middleware_new (Some (tm_new default_config)) None None)))) \<and>
   \<not> denied (fst (snd (mw_process stable_sort 1 (sample_packet (Some (sample_session Active 9)))
      (middleware_new (Some (fst (apply_digest None (praise (sample_session Active 9)) (tm_new default_config)))) None None))))"
proof -
  let ?s = "sample_session Active 9" and ?mw = "middleware_new (Some (tm_new default_config)) None None"
  obtain tm' r where a: "apply_digest None (praise ?s) (tm_new default_config) = (tm', r)" by force
  have s: "state ?s \<noteq> Closed" by (simp add: sample_session_def)
  have up: "?mw\<lparr>trust_mgr := Some t\<rparr> = middleware_new (Some t) None None" for t by (simp add: middleware_new_def)
  show ?thesis
    using digest_opens_gate [of ?mw "tm_new default_config" "sample_packet (Some ?s)" ?s "praise ?s"
        "ts_new\<lparr>ts_node_id := peer_id ?s, composite := f64_one, last_updated := 9\<rparr>" None tm' r stable_sort 1] a s
    unfolding up
    by (simp add: middleware_new_def sample_packet_def praise_def tm_new_def is_trust_anchor_def)
qed

end
