(* ===== verification/Witness_Selection.thy ===== *)
theory Witness_Selection
  imports Trust "HOL-Library.List_Lexorder" "HOL-Library.Product_Lexorder" "HOL-Library.Multiset"
begin

text \<open>
  The choice of the witness of an execution (core/trust/witness.hpp and
  witness.cpp): the candidates a node derives from its trust table and its view of
  the mesh, and the selection among them.  std::sort is an argument with the
  library's promise for a comparator; what its comparator orders is a total order
  on candidates exactly when no score is not-a-number.
\<close>

section \<open>Candidates and selection\<close>

record WitnessCandidate =
  wc_node_id :: bytes
  wc_online :: bool
  wc_trust :: f64
  wc_anchor :: bool

text \<open>a.trust != b.trust for doubles: false on the two zeros, true on what is not a
  number.\<close>

definition f64_differ :: "f64 \<Rightarrow> f64 \<Rightarrow> bool" where
  "f64_differ x y = (is_nan x \<or> is_nan y \<or> f64_rank x \<noteq> f64_rank y)"

definition witness_before :: "bool \<Rightarrow> WitnessCandidate \<Rightarrow> WitnessCandidate \<Rightarrow> bool" where
  "witness_before prefer_online a b =
     (if prefer_online \<and> wc_online a \<noteq> wc_online b then wc_online a
      else if f64_differ (wc_trust a) (wc_trust b) then f64_less (wc_trust b) (wc_trust a)
      else wc_node_id a < wc_node_id b)"

definition eligible_witnesses :: "bytes \<Rightarrow> bytes \<Rightarrow> WitnessCandidate list \<Rightarrow> WitnessCandidate list" where
  "eligible_witnesses requester responder cs =
     filter (\<lambda>c. wc_node_id c \<noteq> requester \<and> wc_node_id c \<noteq> responder \<and> \<not> wc_anchor c) cs"

definition select_witness ::
  "((WitnessCandidate \<Rightarrow> WitnessCandidate \<Rightarrow> bool) \<Rightarrow> WitnessCandidate list \<Rightarrow> WitnessCandidate list) \<Rightarrow>
   bool \<Rightarrow> bytes \<Rightarrow> bytes \<Rightarrow> WitnessCandidate list \<Rightarrow> bytes option" where
  "select_witness srt prefer_online requester responder cs =
     (let el = eligible_witnesses requester responder cs
      in if el = [] then None else Some (wc_node_id (hd (srt (witness_before prefer_online) el))))"

definition candidate_of :: "TrustManager \<Rightarrow> bool \<Rightarrow> bytes \<Rightarrow> WitnessCandidate" where
  "candidate_of tm on nid =
     \<lparr>wc_node_id = nid, wc_online = on,
      wc_trust = (case get_score nid tm of Ok v \<Rightarrow> v | Err _ \<Rightarrow> 0), wc_anchor = is_trust_anchor nid tm\<rparr>"

definition candidates_from :: "TrustManager \<Rightarrow> bytes list \<Rightarrow> bytes list \<Rightarrow> WitnessCandidate list" where
  "candidates_from tm online everyone =
     fold (\<lambda>nid out. if list_ex (\<lambda>c. wc_node_id c = nid) out then out else out @ [candidate_of tm True nid])
       online (map (\<lambda>nid. candidate_of tm (nid \<in> set online) nid) everyone)"

section \<open>All parties agree\<close>

text \<open>The library's promise, for lists the comparator orders: a permutation in which
  nothing comes before an element the comparator puts first.\<close>

definition numeric :: "WitnessCandidate list \<Rightarrow> bool" where
  "numeric cs = list_all (\<lambda>c. \<not> is_nan (wc_trust c)) cs"

definition sorts_by ::
  "(WitnessCandidate \<Rightarrow> WitnessCandidate \<Rightarrow> bool) \<Rightarrow>
   ((WitnessCandidate \<Rightarrow> WitnessCandidate \<Rightarrow> bool) \<Rightarrow> WitnessCandidate list \<Rightarrow> WitnessCandidate list) \<Rightarrow> bool" where
  "sorts_by lt srt \<longleftrightarrow>
     (\<forall>xs. numeric xs \<longrightarrow> mset (srt lt xs) = mset xs \<and> sorted_wrt (\<lambda>a b. \<not> lt b a) (srt lt xs))"

lemma hd_srt:
  assumes "sorts_by lt srt" "xs \<noteq> []" "numeric xs"
  shows "hd (srt lt xs) \<in> set xs" "x \<in> set xs \<Longrightarrow> x = hd (srt lt xs) \<or> \<not> lt x (hd (srt lt xs))"
proof -
  have m: "mset (srt lt xs) = mset xs" and s: "sorted_wrt (\<lambda>a b. \<not> lt b a) (srt lt xs)"
    using assms(1,3) by (simp_all add: sorts_by_def)
  have se: "set (srt lt xs) = set xs" using m by (metis set_mset_mset)
  obtain y ys where y: "srt lt xs = y # ys" using se assms(2) by (cases "srt lt xs") auto
  show "hd (srt lt xs) \<in> set xs" using se y by auto
  show "x = hd (srt lt xs) \<or> \<not> lt x (hd (srt lt xs))" if "x \<in> set xs"
    using that se s y by auto
qed

lemma f64_trichotomy: "\<not> is_nan x \<Longrightarrow> \<not> is_nan y \<Longrightarrow> f64_differ x y \<Longrightarrow> f64_less x y \<or> f64_less y x"
  by (auto simp: f64_differ_def f64_less_def)

lemma witness_total:
  assumes "\<not> is_nan (wc_trust a)" "\<not> is_nan (wc_trust b)" "wc_node_id a \<noteq> wc_node_id b"
  shows "witness_before p a b \<or> witness_before p b a"
proof -
  have sym: "f64_differ (wc_trust b) (wc_trust a) = f64_differ (wc_trust a) (wc_trust b)"
    by (auto simp: f64_differ_def)
  show ?thesis
    using assms f64_trichotomy [OF assms(1,2)] unfolding witness_before_def sym by (auto simp: neq_iff)
qed

lemma set_eligible:
  "set cs = set ds \<Longrightarrow> set (eligible_witnesses q r cs) = set (eligible_witnesses q r ds)"
  by (simp add: eligible_witnesses_def)

text \<open>
  C29. All parties agree on the witness: two nodes with the same candidates, listed in
  any order and any number of times and sorted by any implementation of the
  library's sort, select the same witness when every score is a number.  The
  witness is neither the requester nor the responder nor a trust anchor, no
  eligible candidate precedes it, and there is one as soon as a candidate is
  eligible.
\<close>

theorem witness_selection_agreed:
  assumes "sorts_by (witness_before p) srt" "sorts_by (witness_before p) srt'" "set cs = set ds"
    and "numeric cs"
    and "\<forall>c \<in> set cs. \<forall>d \<in> set cs. wc_node_id c = wc_node_id d \<longrightarrow> c = d"
  shows "select_witness srt p q r cs = select_witness srt' p q r ds \<and>
    (eligible_witnesses q r cs = [] \<longleftrightarrow> select_witness srt p q r cs = None) \<and>
    (\<forall>w. select_witness srt p q r cs = Some w \<longrightarrow>
       w \<noteq> q \<and> w \<noteq> r \<and>
       (\<exists>c \<in> set cs. wc_node_id c = w \<and> \<not> wc_anchor c \<and>
          (\<forall>d \<in> set (eligible_witnesses q r cs). d \<noteq> c \<longrightarrow> witness_before p c d)))"
proof (cases "eligible_witnesses q r cs = []")
  case True
  then have "eligible_witnesses q r ds = []" using set_eligible [OF assms(3)] by (metis set_empty)
  then show ?thesis using True by (simp add: select_witness_def)
next
  case False
  let ?e = "eligible_witnesses q r cs" and ?e' = "eligible_witnesses q r ds"
  have se: "set ?e' = set ?e" by (rule set_eligible [OF assms(3) [symmetric]])
  then have ne: "?e' \<noteq> []" using False by (metis set_empty)
  define c where "c = hd (srt (witness_before p) ?e)"
  define d where "d = hd (srt' (witness_before p) ?e')"
  have num: "numeric ?e" "numeric ?e'"
    using assms(3,4) by (auto simp: numeric_def list_all_iff eligible_witnesses_def)
  note hc = hd_srt [OF assms(1) False num(1), folded c_def]
    and hd' = hd_srt [OF assms(2) ne num(2), folded d_def, unfolded se]
  have sub: "x \<in> set ?e \<Longrightarrow> x \<in> set cs" for x by (simp add: eligible_witnesses_def)
  have before: "witness_before p y x"
    if "x \<in> set ?e" "y \<in> set ?e" "x \<noteq> y" "\<not> witness_before p x y" for x y
    using witness_total [of x y p] that assms(4,5) sub unfolding numeric_def list_all_iff by blast
  have cd: "c = d"
    using before [of c d] before [of d c] hc hd' by blast
  have "\<forall>x \<in> set ?e. x \<noteq> c \<longrightarrow> witness_before p c x" using before hc by blast
  moreover have "wc_node_id c \<noteq> q \<and> wc_node_id c \<noteq> r \<and> \<not> wc_anchor c \<and> c \<in> set cs"
    using hc(1) by (simp add: eligible_witnesses_def)
  moreover have "select_witness srt p q r cs = Some (wc_node_id c)" "select_witness srt' p q r ds = Some (wc_node_id d)"
    using False ne by (simp_all add: select_witness_def c_def d_def)
  ultimately show ?thesis using cd False by auto
qed

definition witness_key :: "bool \<Rightarrow> WitnessCandidate \<Rightarrow> bool \<times> int \<times> bytes" where
  "witness_key p c = (p \<and> \<not> wc_online c, - f64_rank (wc_trust c), wc_node_id c)"

definition key_sort ::
  "bool \<Rightarrow> (WitnessCandidate \<Rightarrow> WitnessCandidate \<Rightarrow> bool) \<Rightarrow> WitnessCandidate list \<Rightarrow> WitnessCandidate list" where
  "key_sort p lt = sort_key (witness_key p)"

lemma witness_before_key:
  "\<not> is_nan (wc_trust a) \<Longrightarrow> \<not> is_nan (wc_trust b) \<Longrightarrow> witness_before p a b \<longleftrightarrow> witness_key p a < witness_key p b"
  by (auto simp: witness_before_def witness_key_def f64_differ_def f64_less_def less_prod_def)

lemma key_sort_sorts: "sorts_by (witness_before p) (key_sort p)"
proof -
  have "sorted_wrt (\<lambda>a b. \<not> witness_before p b a) (sort_key (witness_key p) xs)" if "numeric xs" for xs
  proof -
    have "sorted_wrt (\<lambda>a b. witness_key p a \<le> witness_key p b) (sort_key (witness_key p) xs)"
      using sorted_sort_key [of "witness_key p" xs] by (simp add: sorted_map)
    then show ?thesis
      using that
      by (rule_tac sorted_wrt_mono_rel [rotated])
        (auto simp: witness_before_key numeric_def list_all_iff not_less)
  qed
  then show ?thesis by (simp add: sorts_by_def key_sort_def)
qed

definition sample_witnesses :: "WitnessCandidate list" where
  "sample_witnesses =
     [\<lparr>wc_node_id = [1], wc_online = True, wc_trust = 0x3FE0000000000000, wc_anchor = False\<rparr>,
      \<lparr>wc_node_id = [2], wc_online = True, wc_trust = f64_one, wc_anchor = False\<rparr>,
      \<lparr>wc_node_id = [3], wc_online = False, wc_trust = f64_one, wc_anchor = False\<rparr>,
      \<lparr>wc_node_id = [4], wc_online = True, wc_trust = f64_one, wc_anchor = True\<rparr>]"

theorem witness_selection_agreed_witness:
  "select_witness (key_sort True) True [9] [1] sample_witnesses =
   select_witness (key_sort True) True [9] [1] (rev sample_witnesses @ sample_witnesses) \<and>
   select_witness (key_sort True) True [9] [1] sample_witnesses \<noteq> None"
proof -
  have "numeric sample_witnesses"
    by (simp add: numeric_def sample_witnesses_def is_nan_def f64_mag_def inf_mag_def f64_one_def)
  moreover have "\<forall>c \<in> set sample_witnesses. \<forall>d \<in> set sample_witnesses. wc_node_id c = wc_node_id d \<longrightarrow> c = d"
    by (simp add: sample_witnesses_def)
  moreover have "eligible_witnesses [9] [1] sample_witnesses \<noteq> []"
    by (simp add: eligible_witnesses_def sample_witnesses_def)
  ultimately show ?thesis
    using witness_selection_agreed [OF key_sort_sorts key_sort_sorts,
        where cs = sample_witnesses and ds = "rev sample_witnesses @ sample_witnesses" and p = True and q = "[9]" and r = "[1]"]
    by simp
qed

text \<open>A score that is not a number breaks the order: with it neither of two candidates
  precedes the other, although one precedes the other without it between them.\<close>

lemma nan_not_transitive:
  "\<exists>a b n. witness_before True a b \<and>
     \<not> witness_before True a n \<and> \<not> witness_before True n a \<and> \<not> witness_before True b n \<and> \<not> witness_before True n b"
  by (rule exI [of _ "\<lparr>wc_node_id = [1], wc_online = True, wc_trust = f64_one, wc_anchor = False\<rparr>"],
      rule exI [of _ "\<lparr>wc_node_id = [2], wc_online = True, wc_trust = 0, wc_anchor = False\<rparr>"],
      rule exI [of _ "\<lparr>wc_node_id = [3], wc_online = True, wc_trust = f64_nan, wc_anchor = False\<rparr>"])
    (simp add: witness_before_def f64_differ_def f64_less_def f64_one_facts is_nan_def f64_nan_def f64_mag_def inf_mag_def
      f64_one_def f64_rank_def f64_neg_def)

end
