(* ===== verification/Spec2Isabelle.thy ===== *)
theory Spec2Isabelle
  imports Node_Lifecycle Mesh_Fsm Shamir Contract_Messages Cbor_Skip Schema_Registry Packet
    Replay Framing Packet_Dispatcher Governance_Contract
    Merkle_Tree Raft_Log Discovery Policy_Middleware Witness_Selection
begin

text \<open>
  Verification of the SMO (Secure Mesh Operation) node, the C++ program under
  src/core and src/protocol.

  \<^bold>\<open>The program.\<close>  A node owns an identity certified by an authority, joins a mesh,
  finds and watches its peers, and serves packets of theirs.  A packet arrives
  through a framed transport, is parsed, matched to a session, opened with the
  session's key, checked against the session's replay window and the life cycle of
  the node, and handed to a handler; contract packets then pass a policy gate that
  asks the trust table and the policy engine.  Decisions of the mesh are taken by
  votes of authorities; a committed vote can revoke a certificate, which ends the
  sessions of its holder.  Secrets of the mesh are split among holders, and
  replicas exchange membership events, version vectors, hash trees and a log.

  \<^bold>\<open>How it is modelled.\<close>  Every definition is a function or a data type of the
  source with its control flow, in the order of the source file.  Integers are
  words of their width and wrap as the machine's do; doubles are their bit
  patterns with correctly rounded arithmetic (\<open>Float64\<close>).  A Result is
  \<open>result\<close>, \<open>Ok\<close> or \<open>Err\<close> with the ErrorCode the code gives.
  An operation on a mutable object returns the object after it.  Where the code can
  crash or run forever, the readers return \<open>Fault\<close> or \<open>OutOfFuel\<close>
  (\<open>dres\<close>) or \<open>None\<close>.  A hash map is an association list with
  distinct keys, in the order the container is walked.  Clocks, random numbers,
  sockets and files are arguments; so are the functions of third-party libraries
  (hash, signature, AEAD), with the laws the code relies on stated as hypotheses
  such as \<open>aead_correct\<close>.

  \<^bold>\<open>The theories and the code they model.\<close>

  \<^item> \<open>Smo_Prelude\<close>, \<open>Wire\<close>, \<open>Hex\<close>: core/errors/error.hpp, the integer
    readers and writers every codec repeats, core/types.hpp; the locales
    \<open>codec\<close> and \<open>stream_codec\<close> with what a round trip gives.
  \<^item> \<open>Fsm\<close>, \<open>Node_Lifecycle\<close>, \<open>Mesh_Fsm\<close>: core/fsm and
    core/mesh/mesh_fsm.cpp.  Transition tables, events, timeouts, the stored form of
    a state machine; the opcode gate of a node and the signing of bootstrap
    certificates.  Shown: a crash and reload is invisible, what each life cycle
    state admits, that revocation is final and that an online mesh signs no
    bootstrap request.
  \<^item> \<open>Interpolation\<close>, \<open>Gf256\<close>, \<open>Shamir\<close>: core/crypto/shamir.cpp.  The
    byte arithmetic is a field, any M shares recover the secret, fewer say nothing
    about it, and splitting for 255 holders does not end.
  \<^item> \<open>Cbor\<close>, \<open>Cbor_Skip\<close>, \<open>Context_Value\<close>, \<open>Contract_Messages\<close>,
    \<open>Schema_Registry\<close>: core/bootstrap/cbor.cpp and core/cbor/context_value.cpp.
    The decoder's 64-bit positions wrap as in the code.  Values are read back,
    decoding of nested values returns, field lookups find the first field.
  \<^item> \<open>Opcode_Registry\<close>, \<open>Packet\<close>: core/opcode, protocol/packet and
    the AEAD provider.  The parser accepts exactly what the printer prints; a
    sealed packet is delivered as it was sent.
  \<^item> \<open>Session_Security\<close>, \<open>Replay\<close>, \<open>Channel\<close>, \<open>Session\<close>: core/session
    and protocol/replay.  The sliding window refines the set of seen numbers;
    sessions and channels survive a restart; flow control counts exactly.
  \<^item> \<open>Certificate\<close>, \<open>Crl\<close>, \<open>Event_Scan\<close>: core/certificate,
    core/recovery and the revocation listener of core/runtime.  The chain loop
    accepts exactly certified chains; a revocation stays.
  \<^item> \<open>Framing\<close>, \<open>Packet_Dispatcher\<close>: core/transport/framing.cpp and
    core/network/packet_dispatcher.cpp.  What reaches a handler was sealed under the
    session's key, is in the window, and reaches it once.
  \<^item> \<open>Governance\<close>, \<open>Governance_Contract\<close>: core/governance and its contract.
    A committed proposal has the quorum, computed for three authorities, of verified
    votes of distinct authorities,
    unless its votes came with the proposal, which the contract does not check.
  \<^item> \<open>Version_Vector\<close>, \<open>Merkle_Tree\<close>, \<open>Raft_Log\<close>, \<open>Membership_Sync\<close>:
    core/network/sync and core/consensus/raft_log.cpp.  Replicas converge, equal
    roots mean equal data up to a collision, the log is numbered, gossip is applied
    and sent on.
  \<^item> \<open>Ice\<close>, \<open>Peer\<close>, \<open>Membership\<close>, \<open>Discovery\<close>: core/network/ice and
    core/discovery/discovery.cpp.  Candidate pairs and nomination, the peer record with
    its round-trip time in whole microseconds, the bounded table, the health of peers, and the handlers of discovery
    datagrams, including those that end the process.
  \<^item> \<open>Float64\<close>, \<open>Trust\<close>, \<open>Witness_Selection\<close>: core/trust.  Scores stay
    numbers of [0, 1] under the rounding of the machine, as long as the weights and
    claims a node records are numbers and no digest or file is taken over; the table is read back,
    parties agree on a witness; who can set a score.
  \<^item> \<open>Policy_Engine\<close>, \<open>Policy_Middleware\<close>: core/acl/policy_engine.cpp,
    core/runtime/policy_middleware.cpp and middleware_pipeline.cpp.  The search
    decides as a reference specification does; what the built-in policies admit.
  \<^item> This theory: the path from a committed revocation vote through the event
    listener to the session table.

  \<^bold>\<open>Interfaces.\<close>  A contract between components is a locale, interpreted on the
  definitions that provide it: \<open>codec\<close> and \<open>stream_codec\<close> for every wire
  format, \<open>fsm_table\<close> for the transition tables, \<open>replay_filter\<close> for
  the window of a session and for the table of sessions, \<open>revocation_list\<close>,
  \<open>quorum_rule\<close>, \<open>ordered_map\<close>, \<open>join_replica\<close> for merging
  replicas, and \<open>packet_filter\<close> for the middleware of the pipeline.

  \<^bold>\<open>Bounds and fuel.\<close>  Loops over a counter or over the remaining bytes are
  structural recursions.  Decoding a nested value takes fuel; that the fuel given
  is enough for every input is a theorem of \<open>Context_Value\<close>.  \<open>x_loop\<close>, whose counter wraps, is a partial function whose
  divergence is a theorem.  Hypotheses on lengths are those of the 16-bit and
  32-bit length fields.

  \<^bold>\<open>Not modelled.\<close>  Threads, locks and the wiring of services (node_runtime.cpp, the
  kernel, the scheduler); sockets and the STUN, TURN and relay clients; SQL and
  files (core/storage, storage, peer and seed stores, authority, mesh manager);
  third-party libraries (cryptography, SQLite, wasmtime, YAML and with it
  load_policy_file); the WASM emitter and the compiler; logging, telemetry and the
  command line tools.  The join protocol, join tokens, genesis and recovery
  packages, bootstrap snapshots, federation, contract registries and the selector's
  query language contain executable code over the modelled parts and are left out
  of this development.  Message texts, source locations and time stamps of errors
  are not part of an error code here, and wiping of secrets from memory has no
  counterpart.
\<close>

section \<open>From a vote to the session table\<close>

text \<open>A session of a revoked peer in the table the listener leaves.\<close>

lemma revoked_effect:
  assumes m': "m' = fst (invalidate node (m\<lparr>crl := map_option (\<lambda>c. fst (revoke fp nid rsn ep now c)) (crl m)\<rparr>))"
    and "crl m = Some c" "fp \<noteq> []"
  shows "\<exists>c'. crl m' = Some c' \<and> (\<forall>f. is_revoked f c' = Ok True \<longleftrightarrow> f = fp \<or> is_revoked f c = Ok True)"
    and "(k, s) \<in> set (sessions m') \<longleftrightarrow> (k, s) \<in> set (sessions m) \<and> peer_id s \<noteq> node"
    and "fingerprint s = fp \<Longrightarrow> mgr_open s m' = (m', Err (smo_err CatSession 508 SevError NoRetry Reconnect))"
proof -
  show crl: "\<exists>c'. crl m' = Some c' \<and> (\<forall>f. is_revoked f c' = Ok True \<longleftrightarrow> f = fp \<or> is_revoked f c = Ok True)"
    using assms by (simp add: invalidate_def is_revoked_revoke)
  show "(k, s) \<in> set (sessions m') \<longleftrightarrow> (k, s) \<in> set (sessions m) \<and> peer_id s \<noteq> node"
    by (simp add: m' invalidate_removes)
  show "fingerprint s = fp \<Longrightarrow> mgr_open s m' = (m', Err (smo_err CatSession 508 SevError NoRetry Reconnect))"
    using crl assms(3) by (auto intro: open_revoked_refused)
qed

text \<open>
  C1. Revocation end to end.  Given an engine whose proposals were all submitted
  without signatures (for one that arrives with signature records the votes need not be
  verified, a property of \<open>Governance_Contract\<close>), when the governance contract
  commits a revocation proposal, three different authorities have signed it with
  signatures that verify.  And given that its payload is the text the recovery contract
  builds for a certificate and a node, with a fingerprint and a reason free of
  quotes, handing the emitted event to the node's listener marks exactly that
  certificate revoked in addition, removes exactly the sessions of that node, and makes
  every later session under that certificate be refused with error 508.
\<close>

theorem revocation_end_to_end:
  assumes "gov_reach resolver vf e"
    and "handle_commit now_ns (ArgInt pid) e = (e', r)" "status r = Success"
    and "get_proposal pid e = Ok p" "gp_action p = CertificateRevocation"
    and "gp_payload p = revocation_json fp (ascii (bytes_to_hex node)) rsn ep"
    and "quote \<notin> set fp" "quote \<notin> set rsn" "fp \<noteq> []" "length node = 32"
    and "crl m = Some c"
  shows "3 \<le> card (signers p) \<and>
     (\<forall>a \<in> signers p. \<exists>sig pubkey. resolver a = Ok pubkey \<and> vf (signing_payload p) sig pubkey = Ok True) \<and>
     (\<exists>details m' c'. events r = [(''RecoveryApproved'', details)] \<and>
        on_recovery_approved details now m = Some m' \<and> crl m' = Some c' \<and>
        (\<forall>f. is_revoked f c' = Ok True \<longleftrightarrow> f = fp \<or> is_revoked f c = Ok True) \<and>
        (\<forall>k s. (k, s) \<in> set (sessions m') \<longleftrightarrow> (k, s) \<in> set (sessions m) \<and> peer_id s \<noteq> node) \<and>
        (\<forall>s. fingerprint s = fp \<longrightarrow>
           mgr_open s m' = (m', Err (smo_err CatSession 508 SevError NoRetry Reconnect))))"
proof -
  obtain q where q: "map_of (proposals e) pid = Some q" "gp_state q = Signing"
      "e' = set_proposal pid (q\<lparr>gp_state := Committed\<rparr>) e"
      "gp_action q = CertificateRevocation \<Longrightarrow>
        events r = [(''RecoveryApproved'', ascii ''CertificateRevocation proposal approved: '' @ gp_payload q)]"
    using handle_commit_Success [OF assms(2,3)] by metis
  then have p: "p = q" using assms(4) by (simp add: get_proposal_def)
  let ?p = "p\<lparr>gp_state := Committed\<rparr>"
  have "gov_reach resolver vf e'"
    using gov_reach.commit [OF assms(1), of pid "to_seconds now_ns"] commit_of_handle [OF assms(2,3)] by simp
  moreover have "(pid, ?p) \<in> set (proposals e')"
    using q(3) p map_of_SomeD [OF get_put] by (simp add: set_proposal_def)
  moreover have "gp_state ?p = Committed" by simp
  ultimately have quorum: "default_quorum (gp_action ?p) 3 \<le> int (card (signers ?p))"
      "\<forall>a \<in> signers ?p. \<exists>sig pubkey. resolver a = Ok pubkey \<and>
         vf (signing_payload (?p\<lparr>gp_state := Signing\<rparr>)) sig pubkey = Ok True"
    by (rule committed_quorum)+
  have same: "signers ?p = signers p" "?p\<lparr>gp_state := Signing\<rparr> = p" using q(2) p by (simp_all add: signers_def)
  have votes: "3 \<le> card (signers p)"
      "\<forall>a \<in> signers p. \<exists>sig pubkey. resolver a = Ok pubkey \<and> vf (signing_payload p) sig pubkey = Ok True"
    using quorum assms(5) unfolding same by (simp_all add: default_quorum_def)
  let ?nid = "ascii (bytes_to_hex node)"
  define details where "details = ascii ''CertificateRevocation proposal approved: '' @ gp_payload p"
  define m' where "m' = fst (invalidate node (m\<lparr>crl := map_option (\<lambda>c. fst (revoke fp ?nid rsn ep now c)) (crl m)\<rparr>))"
  have "length ?nid = 64" using assms(10) by (simp add: ascii_def)
  from listener_effect [OF assms(7) hex_no_quote assms(8,9) this]
  have "on_recovery_approved details now m = Some m'"
    using assms(6,10) by (simp add: node_id_hex_roundtrip details_def m'_def)
  moreover obtain c' where "crl m' = Some c'"
      "\<forall>f. is_revoked f c' = Ok True \<longleftrightarrow> f = fp \<or> is_revoked f c = Ok True"
    using revoked_effect(1) [OF m'_def assms(11,9)] by auto
  moreover have "events r = [(''RecoveryApproved'', details)]" using q(4) assms(5) p by (simp add: details_def)
  ultimately show ?thesis
    using votes revoked_effect(2,3) [OF m'_def assms(11,9)] by (intro conjI exI [of _ details] exI [of _ m'] exI [of _ c']) auto
qed

definition sample_revocation :: GovernanceProposal where
  "sample_revocation =
     sample_proposal\<lparr>gp_payload := revocation_json (ascii ''f1'') (ascii (bytes_to_hex (replicate 32 7))) (ascii ''lost'') 3\<rparr>"

definition sample_ballot :: GovernanceEngine where
  "sample_ballot = sample_vote 3 (sample_vote 2 (sample_vote 1 (fst (submit sample_revocation engine_new))))"

lemma sample_ballot_reach: "gov_reach sample_resolver sample_suite sample_ballot"
  by (simp add: sample_ballot_def sample_vote_def gov_reach.intros sample_revocation_def sample_proposal_def)

lemma sample_ballot_commit: "status (snd (handle_commit 5 (ArgInt 1) sample_ballot)) = Success"
  by code_simp

lemma sample_ballot_proposal:
  "(case get_proposal 1 sample_ballot of Err _ \<Rightarrow> False
     | Ok p \<Rightarrow> gp_action p = CertificateRevocation \<and> gp_payload p = gp_payload sample_revocation)"
  by code_simp

theorem revocation_end_to_end_witness:
  "\<exists>details m'. events (snd (handle_commit 5 (ArgInt 1) sample_ballot)) = [(''RecoveryApproved'', details)] \<and>
     on_recovery_approved details 9 \<lparr>sessions = [], crl = Some []\<rparr> = Some m' \<and>
     mgr_open ((sample_session Active 9)\<lparr>fingerprint := ascii ''f1''\<rparr>) m' =
       (m', Err (smo_err CatSession 508 SevError NoRetry Reconnect))"
proof -
  obtain p where p: "get_proposal 1 sample_ballot = Ok p" "gp_action p = CertificateRevocation"
      "gp_payload p = gp_payload sample_revocation"
    using sample_ballot_proposal by (auto split: result.splits)
  have "quote \<notin> set (ascii ''f1'')" "quote \<notin> set (ascii ''lost'')" by code_simp+
  then show ?thesis
    using revocation_end_to_end [OF sample_ballot_reach surjective_pairing sample_ballot_commit p(1,2),
        of "ascii ''f1''" "replicate 32 7" "ascii ''lost''" 3 "\<lparr>sessions = [], crl = Some []\<rparr>" "[]" 9] p(3)
    by (auto simp: sample_revocation_def ascii_def)
qed

end
